(* ===== verification/Prelude.thy ===== *)
theory Prelude
  imports Complex_Main "HOL-Library.Word" "HOL-Library.AList" "HOL-Library.Char_ord"
    "HOL-Library.List_Lexorder"
begin

text \<open>
  What every component of the relume-tv model shares: the machine integers, Go's times and
  durations, the dynamic value type behind \<open>any\<close> / \<open>map[string]any\<close>, Go maps as association
  lists, and the generic facts and automation the component theories use.

  Conventions.  A Go \<open>string\<close> is a sequence of bytes; Isabelle's \<open>string\<close> is a list of 8-bit
  \<open>char\<close>s, so both have the same values.  A Go map that the code iterates over is an association
  list (\<open>gomap\<close>) in \<^emph>\<open>some\<close> order: Go leaves the iteration order open, and the theorems are about
  arbitrary lists.  A \<open>time.Duration\<close> is an \<open>int\<close> of nanoseconds; a \<open>time.Time\<close> is an
  \<open>int option\<close>, \<open>None\<close> standing for the zero time (\<open>IsZero\<close>).  A \<open>float64\<close> is the exact real
  number it denotes: rounding of floating-point arithmetic is not modelled.
\<close>

unbundle bit_operations_syntax

type_synonym u8 = "8 word"
type_synonym u16 = "16 word"
type_synonym u32 = "32 word"
type_synonym u64 = "64 word"

lemma unat_u8_less [simp]: "unat (w :: u8) < 256"
proof -
  have "(unsigned w :: nat) < 2 ^ LENGTH(8)" by (rule unsigned_less)
  then show ?thesis by simp
qed

lemma unat_u16_less [simp]: "unat (w :: u16) < 65536"
proof -
  have "(unsigned w :: nat) < 2 ^ LENGTH(16)" by (rule unsigned_less)
  then show ?thesis by simp
qed

text \<open>The simplifier writes \<open>real (unat v)\<close> as \<open>unsigned v\<close>.\<close>

lemma real_u16_bounds [simp]: "(0 :: real) \<le> unsigned (v :: u16)" "(unsigned (v :: u16) :: real) \<le> 65535"
proof -
  have "real (unat v) \<le> real 65535" using unat_u16_less [of v] by linarith
  then show "(unsigned v :: real) \<le> 65535" by simp
  have "0 \<le> real (unat v)" by (rule of_nat_0_le_iff)
  then show "(0 :: real) \<le> unsigned v" by simp
qed

lemma real_u16_mono:
  assumes "v \<le> w" shows "(unsigned (v :: u16) :: real) \<le> unsigned w"
proof -
  have "unat v \<le> unat w" using assms by (simp add: word_le_nat_alt)
  then have "real (unat v) \<le> real (unat w)" by (rule of_nat_mono)
  then show ?thesis by simp
qed

lemma unat_u8_le [simp]: "unat (w :: u8) \<le> 255"
  using unat_u8_less [of w] by linarith

lemma ucast_8_16_8 [simp]: "(ucast (ucast (i :: u8) :: u16) :: u8) = i"
  by (rule bit_word_eqI) (auto simp: bit_simps)

lemma unat_ucast_8_16 [simp]: "unat (ucast (i :: u8) :: u16) = unat i"
proof -
  have "unat i < 2 ^ 16" by (rule order_less_trans [OF unat_u8_less]) simp
  then show ?thesis by (simp add: unsigned_ucast_eq take_bit_nat_eq_self)
qed

lemma unat_ucast_16_8: "unat (w :: u16) < 256 \<Longrightarrow> unat (ucast w :: u8) = unat w"
  by (simp add: unsigned_ucast_eq take_bit_nat_eq_self)

lemma uint_u16_bounds: "0 \<le> uint (w :: u16) \<and> uint w < 65536"
  using uint_lt2p [of w] by simp

type_synonym duration = int
type_synonym gotime = "int option"

named_theorems relume_defs \<open>definitions of the model a component proof unfolds\<close>
named_theorems gomap_simps \<open>lookups and keys of updated Go maps\<close>

definition millisecond :: duration where
  "millisecond = 1000000"

definition second :: duration where
  "second = 1000000000"

lemma length_filter_mono:
  "(\<And>x. x \<in> set xs \<Longrightarrow> P x \<Longrightarrow> Q x) \<Longrightarrow> length (filter P xs) \<le> length (filter Q xs)"
  by (induction xs) auto

section \<open>Dynamic values\<close>

text \<open>
  The values that occur behind \<open>any\<close> in the program, by their dynamic Go type.  A
  \<open>map[string]any\<close> is a list of key/value pairs; the typed maps the responses contain
  (\<open>map[string][]float64\<close>) are objects of typed values.
\<close>

datatype gval =
    GNil
  | GBool bool
  | GInt int
  | GInt64 int
  | GInt32 int
  | GFloat real
  | GFloat32 real
  | GStr string
  | GArr "gval list"
  | GFloats "real list"
  | GFloats32 "real list"
  | GStrs "string list"
  | GObj "(string \<times> gval) list"

type_synonym obj = "(string \<times> gval) list"

section \<open>Go maps\<close>

type_synonym ('k, 'v) gomap = "('k \<times> 'v) list"

abbreviation mget :: "('k, 'v) gomap \<Rightarrow> 'k \<Rightarrow> 'v option" where
  "mget m k \<equiv> map_of m k"

abbreviation mput :: "'k \<Rightarrow> 'v \<Rightarrow> ('k, 'v) gomap \<Rightarrow> ('k, 'v) gomap" where
  "mput k v m \<equiv> AList.update k v m"

abbreviation mdel :: "'k \<Rightarrow> ('k, 'v) gomap \<Rightarrow> ('k, 'v) gomap" where
  "mdel k m \<equiv> AList.delete k m"

abbreviation mkeys :: "('k, 'v) gomap \<Rightarrow> 'k list" where
  "mkeys m \<equiv> map fst m"

text \<open>A list represents a Go map when no key occurs twice.\<close>

definition gomap_ok :: "('k, 'v) gomap \<Rightarrow> bool" where
  "gomap_ok m \<longleftrightarrow> distinct (mkeys m)"

lemma gomap_ok_Nil [simp, intro]: "gomap_ok []"
  by (simp add: gomap_ok_def)

lemma gomap_ok_put [simp, intro]: "gomap_ok m \<Longrightarrow> gomap_ok (mput k v m)"
  by (simp add: gomap_ok_def distinct_update)

lemma gomap_ok_del [simp, intro]: "gomap_ok m \<Longrightarrow> gomap_ok (mdel k m)"
  by (simp add: gomap_ok_def distinct_delete)

lemma mget_put [simp, gomap_simps]: "mget (mput k v m) k' = (if k' = k then Some v else mget m k')"
  by (simp add: update_conv)

lemma mget_del [simp, gomap_simps]: "mget (mdel k m) k' = (if k' = k then None else mget m k')"
  by (simp add: delete_conv)

lemma mkeys_put [simp, gomap_simps]: "set (mkeys (mput k v m)) = insert k (set (mkeys m))"
  by (simp add: dom_update)

lemma mkeys_del [simp, gomap_simps]: "set (mkeys (mdel k m)) = set (mkeys m) - {k}"
  by (simp add: delete_keys)

lemma mkeys_iff: "k \<in> set (mkeys m) \<longleftrightarrow> mget m k \<noteq> None"
  by (induction m) (auto split: if_splits)

lemma mget_None_iff: "mget m k = None \<longleftrightarrow> k \<notin> set (mkeys m)"
  by (simp add: map_of_eq_None_iff)

lemma gomap_ok_mem: "gomap_ok m \<Longrightarrow> (k, v) \<in> set m \<longleftrightarrow> mget m k = Some v"
  by (simp add: gomap_ok_def map_of_eq_Some_iff)

text \<open>Pruning a map, as the sliding windows do: entries whose value fails a test are deleted.\<close>

lemma gomap_ok_filter: "gomap_ok m \<Longrightarrow> gomap_ok (filter P m)"
  by (induction m) (auto simp: gomap_ok_def)

lemma mget_filter:
  "gomap_ok m \<Longrightarrow> mget (filter (\<lambda>(_, v). P v) m) k = (case mget m k of None \<Rightarrow> None | Some v \<Rightarrow> if P v then Some v else None)"
  by (induction m) (auto simp: gomap_ok_def mget_None_iff split: option.splits)

lemma mput_not_Nil [simp]: "mput k v m \<noteq> []"
  by (cases m) (auto split: if_splits)

text \<open>Reading \<open>m[k]\<close> of a Go map gives the zero value when the key is missing.\<close>

definition oget :: "obj \<Rightarrow> string \<Rightarrow> gval" where
  "oget o' k = (case mget o' k of None \<Rightarrow> GNil | Some v \<Rightarrow> v)"

definition setlike :: "('k, bool) gomap \<Rightarrow> 'k \<Rightarrow> bool" where
  "setlike m k = (case mget m k of None \<Rightarrow> False | Some b \<Rightarrow> b)"

text \<open>A map used as a set, built from a list as the code builds it: one store per element.\<close>

definition set_of_ids :: "'k list \<Rightarrow> ('k, bool) gomap" where
  "set_of_ids ks = foldl (\<lambda>m k. mput k True m) [] ks"

lemma foldl_put_True:
  "setlike (foldl (\<lambda>m k. mput k True m) m0 ks) k \<longleftrightarrow> k \<in> set ks \<or> setlike m0 k"
  by (induction ks arbitrary: m0) (auto simp: setlike_def)

lemma setlike_set_of_ids [simp]: "setlike (set_of_ids ks) k \<longleftrightarrow> k \<in> set ks"
  unfolding set_of_ids_def by (simp add: foldl_put_True) (simp add: setlike_def)

section \<open>Reading JSON bodies\<close>

text \<open>
  A request or response body is the JSON value its bytes decode to, \<open>None\<close> when the bytes are not
  JSON (\<open>encoding/json\<close> then reports an error).  Numbers decode to \<open>GFloat\<close>, arrays to \<open>GArr\<close>,
  objects to \<open>GObj\<close> with the members in the order of the text.
\<close>

type_synonym json_body = "gval option"

section \<open>Rounding\<close>

text \<open>\<open>math.Round\<close>: to the nearest integer, halves away from zero.\<close>

definition math_Round :: "real \<Rightarrow> int" where
  "math_Round x = (if 0 \<le> x then \<lfloor>x + 1/2\<rfloor> else - \<lfloor>1/2 - x\<rfloor>)"

text \<open>The conversion \<open>int(x)\<close> of a \<open>float64\<close> truncates towards zero.\<close>

definition trunc :: "real \<Rightarrow> int" where
  "trunc x = (if 0 \<le> x then \<lfloor>x\<rfloor> else - \<lfloor>- x\<rfloor>)"

lemma math_Round_bounds: "x - 1/2 \<le> real_of_int (math_Round x) \<and> real_of_int (math_Round x) \<le> x + 1/2"
proof (cases "0 \<le> x")
  case True
  then show ?thesis unfolding math_Round_def by (simp; linarith)
next
  case False
  then show ?thesis unfolding math_Round_def by (simp; linarith)
qed

lemma math_Round_neg: "math_Round (- x) = - math_Round x"
  by (cases "x = 0") (auto simp: math_Round_def add.commute)

lemma math_Round_mono_bound:
  assumes "0 \<le> x" "x \<le> of_int n" shows "0 \<le> math_Round x" "math_Round x \<le> n"
proof -
  have eq: "math_Round x = \<lfloor>x + 1/2\<rfloor>" using assms(1) by (simp add: math_Round_def)
  show "0 \<le> math_Round x" using assms(1) by (simp add: eq)
  have "\<lfloor>x + 1/2\<rfloor> \<le> n" using assms(2) by linarith
  then show "math_Round x \<le> n" by (simp add: eq)
qed

lemma math_Round_pos: "1/2 \<le> x \<Longrightarrow> 1 \<le> math_Round x"
  by (auto simp: math_Round_def le_floor_iff)

lemma trunc_nonneg [simp]: "0 \<le> x \<Longrightarrow> trunc x = \<lfloor>x\<rfloor>"
  by (simp add: trunc_def)

lemma trunc_of_int [simp]: "trunc (of_int n) = n"
  by (simp add: trunc_def)

end
