(* ===== verification/GoStrings.thy ===== *)
theory GoStrings
  imports Prelude
begin

text \<open>
  The parts of Go's \<open>strings\<close> and \<open>strconv\<close> packages the program uses, on byte strings: prefix,
  suffix and substring tests, \<open>Index\<close>, \<open>Cut\<close>, \<open>Split\<close>, \<open>Join\<close>, \<open>TrimSpace\<close>, case conversion,
  \<open>Itoa\<close> and \<open>Atoi\<close>, and \<open>encoding/hex\<close>.  Case conversion and \<open>TrimSpace\<close> act on ASCII; the
  letters and spaces beyond ASCII that Go also knows are not modelled.
\<close>

section \<open>Searching\<close>

definition HasPrefix :: "string \<Rightarrow> string \<Rightarrow> bool" where
  "HasPrefix s p \<longleftrightarrow> take (length p) s = p"

definition HasSuffix :: "string \<Rightarrow> string \<Rightarrow> bool" where
  "HasSuffix s p \<longleftrightarrow> length p \<le> length s \<and> drop (length s - length p) s = p"

fun str_Index :: "string \<Rightarrow> string \<Rightarrow> nat option" where
  "str_Index [] sub = (if sub = [] then Some 0 else None)"
| "str_Index (c # cs) sub =
     (if HasPrefix (c # cs) sub then Some 0 else map_option Suc (str_Index cs sub))"

definition Contains :: "string \<Rightarrow> string \<Rightarrow> bool" where
  "Contains s sub \<longleftrightarrow> str_Index s sub \<noteq> None"

definition TrimPrefix :: "string \<Rightarrow> string \<Rightarrow> string" where
  "TrimPrefix s p = (if HasPrefix s p then drop (length p) s else s)"

definition TrimSuffix :: "string \<Rightarrow> string \<Rightarrow> string" where
  "TrimSuffix s p = (if HasSuffix s p then take (length s - length p) s else s)"

fun str_IndexByte :: "string \<Rightarrow> char \<Rightarrow> nat option" where
  "str_IndexByte [] b = None"
| "str_IndexByte (c # cs) b = (if c = b then Some 0 else map_option Suc (str_IndexByte cs b))"

text \<open>\<open>strings.Cut\<close> with a one-byte separator: before, after, found.\<close>

definition str_Cut :: "string \<Rightarrow> char \<Rightarrow> (string \<times> string) option" where
  "str_Cut s sep = (case str_IndexByte s sep of None \<Rightarrow> None
     | Some i \<Rightarrow> Some (take i s, drop (Suc i) s))"

lemma HasPrefix_append [simp]: "HasPrefix (p @ s) p"
  by (simp add: HasPrefix_def)

lemma HasPrefix_iff: "HasPrefix s p \<longleftrightarrow> (\<exists>r. s = p @ r)"
  by (metis HasPrefix_append HasPrefix_def append_take_drop_id)

lemma HasSuffix_append [simp]: "HasSuffix (s @ p) p"
  by (simp add: HasSuffix_def)

lemma HasSuffix_iff: "HasSuffix s p \<longleftrightarrow> (\<exists>r. s = r @ p)"
  by (metis HasSuffix_append HasSuffix_def append_take_drop_id)

lemma str_Index_SomeD: "str_Index s sub = Some i \<Longrightarrow> \<exists>a b. s = a @ sub @ b \<and> length a = i"
proof (induction s arbitrary: i)
  case Nil
  then show ?case by (auto split: if_splits)
next
  case (Cons c cs)
  show ?case
  proof (cases "HasPrefix (c # cs) sub")
    case True
    then show ?thesis using Cons.prems by (auto simp: HasPrefix_iff)
  next
    case False
    then obtain j where "str_Index cs sub = Some j" "i = Suc j" using Cons.prems by auto
    then obtain a b where "cs = a @ sub @ b" "length a = j" using Cons.IH by blast
    then show ?thesis using \<open>i = Suc j\<close> by (intro exI [of _ "c # a"] exI [of _ b]) simp
  qed
qed

lemma str_Index_append: "str_Index (a @ sub @ b) sub \<noteq> None"
proof (induction a)
  case Nil
  have "HasPrefix (sub @ b) sub" by simp
  then show ?case by (cases "sub @ b") auto
next
  case (Cons c a)
  then show ?case by auto
qed

lemma Contains_iff: "Contains s sub \<longleftrightarrow> (\<exists>a b. s = a @ sub @ b)"
proof
  assume "Contains s sub"
  then show "\<exists>a b. s = a @ sub @ b"
    unfolding Contains_def by (meson not_None_eq str_Index_SomeD)
next
  assume "\<exists>a b. s = a @ sub @ b"
  then show "Contains s sub" unfolding Contains_def using str_Index_append by blast
qed

lemma str_IndexByte_Some:
  "str_IndexByte s b = Some i \<longleftrightarrow> i < length s \<and> s ! i = b \<and> b \<notin> set (take i s)"
proof (induction s arbitrary: i)
  case Nil
  then show ?case by simp
next
  case (Cons c cs)
  show ?case
  proof (cases "c = b")
    case True
    then show ?thesis by (cases i) auto
  next
    case False
    then show ?thesis by (cases i) (auto simp: Cons.IH)
  qed
qed

lemma str_IndexByte_None [simp]: "str_IndexByte s b = None \<longleftrightarrow> b \<notin> set s"
  by (induction s) auto

lemma str_IndexByte_append:
  "b \<notin> set s \<Longrightarrow> str_IndexByte (s @ b # r) b = Some (length s)"
  by (induction s) auto

lemma str_Cut_append: "sep \<notin> set k \<Longrightarrow> str_Cut (k @ sep # v) sep = Some (k, v)"
  by (simp add: str_Cut_def str_IndexByte_append)

section \<open>Splitting and joining\<close>

text \<open>\<open>strings.Split\<close> on a two-byte separator (the only one used is CR LF).\<close>

fun split2 :: "char \<Rightarrow> char \<Rightarrow> string \<Rightarrow> string list" where
  "split2 a b (x # y # s) =
     (if x = a \<and> y = b then [] # split2 a b s
      else (case split2 a b (y # s) of [] \<Rightarrow> [[x]] | l # ls \<Rightarrow> (x # l) # ls))"
| "split2 a b s = [s]"

fun str_Join :: "string list \<Rightarrow> string \<Rightarrow> string" where
  "str_Join [] sep = []"
| "str_Join [s] sep = s"
| "str_Join (s # t # r) sep = s @ sep @ str_Join (t # r) sep"

lemma split2_not_Nil [simp]: "split2 a b s \<noteq> []"
  by (induction a b s rule: split2.induct) (auto split: list.splits)

lemma split2_line:
  "a \<notin> set l \<Longrightarrow> split2 a b (l @ a # b # s) = l # split2 a b s"
proof (induction l)
  case (Cons x l)
  then show ?case by (cases l) auto
qed simp

lemma split2_plain: "a \<notin> set l \<Longrightarrow> split2 a b l = [l]"
proof (induction l)
  case (Cons x l)
  then show ?case by (cases l) auto
qed simp

section \<open>ASCII classes and case\<close>

abbreviation ord_char :: "char \<Rightarrow> nat" where
  "ord_char c \<equiv> of_char c"

definition lower_char :: "char \<Rightarrow> char" where
  "lower_char c = (if 65 \<le> ord_char c \<and> ord_char c \<le> 90 then char_of (ord_char c + 32) else c)"

definition upper_char :: "char \<Rightarrow> char" where
  "upper_char c = (if 97 \<le> ord_char c \<and> ord_char c \<le> 122 then char_of (ord_char c - 32) else c)"

definition ToLower :: "string \<Rightarrow> string" where
  "ToLower s = map lower_char s"

definition ToUpper :: "string \<Rightarrow> string" where
  "ToUpper s = map upper_char s"

definition EqualFold :: "string \<Rightarrow> string \<Rightarrow> bool" where
  "EqualFold s t \<longleftrightarrow> ToLower s = ToLower t"

definition is_space :: "char \<Rightarrow> bool" where
  "is_space c \<longleftrightarrow> ord_char c = 32 \<or> (9 \<le> ord_char c \<and> ord_char c \<le> 13)"

definition is_digit :: "char \<Rightarrow> bool" where
  "is_digit c \<longleftrightarrow> 48 \<le> ord_char c \<and> ord_char c \<le> 57"

definition TrimSpace :: "string \<Rightarrow> string" where
  "TrimSpace s = rev (dropWhile is_space (rev (dropWhile is_space s)))"

lemma of_char_less_256 [simp]: "ord_char c < 256"
proof -
  have "ord_char (char_of (ord_char c)) = ord_char c mod 256" by (rule of_char_of)
  then show ?thesis by simp
qed

lemma length_ToUpper [simp]: "length (ToUpper s) = length s"
  by (simp add: ToUpper_def)

lemma length_ToLower [simp]: "length (ToLower s) = length s"
  by (simp add: ToLower_def)

lemma ord_char_of [simp]: "n < 256 \<Longrightarrow> ord_char (char_of n) = n"
  by (simp add: of_char_of)

lemma lower_char_upper_char [simp]: "lower_char (upper_char c) = lower_char c"
  by (auto simp: lower_char_def upper_char_def)

lemma lower_char_idem [simp]: "lower_char (lower_char c) = lower_char c"
  by (auto simp: lower_char_def)

lemma upper_char_idem [simp]: "upper_char (upper_char c) = upper_char c"
  by (auto simp: upper_char_def)

lemma EqualFold_refl [simp]: "EqualFold s s"
  by (simp add: EqualFold_def)

lemma EqualFold_ToUpper [simp]: "EqualFold (ToUpper s) s" "EqualFold s (ToUpper s)"
  by (simp_all add: EqualFold_def ToLower_def ToUpper_def)

lemma EqualFold_length: "length s \<noteq> length t \<Longrightarrow> \<not> EqualFold s t"
  by (auto simp: EqualFold_def dest: arg_cong [where f = length])

lemma EqualFold_sym: "EqualFold s t \<Longrightarrow> EqualFold t s"
  by (simp add: EqualFold_def)

lemma EqualFold_trans: "EqualFold s t \<Longrightarrow> EqualFold t u \<Longrightarrow> EqualFold s u"
  by (simp add: EqualFold_def)

lemma ToUpper_append: "ToUpper (s @ t) = ToUpper s @ ToUpper t"
  by (simp add: ToUpper_def)

lemma ToUpper_drop: "drop n (ToUpper s) = ToUpper (drop n s)"
  by (simp add: ToUpper_def drop_map)

text \<open>A string whose ends are no spaces is unchanged by \<open>TrimSpace\<close>.\<close>

lemma TrimSpace_id:
  assumes "s = [] \<or> \<not> is_space (hd s) \<and> \<not> is_space (last s)"
  shows "TrimSpace s = s"
proof (cases "s = []")
  case False
  then have "dropWhile is_space s = s" using assms by (cases s) auto
  moreover have "dropWhile is_space (rev s) = rev s"
    using False assms by (cases "rev s") (auto simp: last_rev hd_rev [symmetric])
  ultimately show ?thesis by (simp add: TrimSpace_def)
qed (simp add: TrimSpace_def)

lemma TrimSpace_skip [simp]: "is_space c \<Longrightarrow> TrimSpace (c # s) = TrimSpace s"
  by (simp add: TrimSpace_def)

section \<open>Decimal numbers\<close>

definition digit_char :: "nat \<Rightarrow> char" where
  "digit_char d = char_of (48 + d)"

definition digit_val :: "char \<Rightarrow> nat" where
  "digit_val c = ord_char c - 48"

fun itoa_nat :: "nat \<Rightarrow> string" where
  "itoa_nat n = (if n < 10 then [digit_char n] else itoa_nat (n div 10) @ [digit_char (n mod 10)])"

declare itoa_nat.simps [simp del]

definition Itoa :: "int \<Rightarrow> string" where
  "Itoa n = (if n < 0 then CHR ''-'' # itoa_nat (nat (- n)) else itoa_nat (nat n))"

definition digits_val :: "string \<Rightarrow> nat" where
  "digits_val s = foldl (\<lambda>n c. 10 * n + digit_val c) 0 s"

text \<open>
  \<open>strconv.Atoi\<close> on a 64-bit platform: an optional sign, at least one digit, nothing else, and a
  value in the range of \<open>int\<close>.
\<close>

definition atoi_digits :: "string \<Rightarrow> nat option" where
  "atoi_digits s = (if s \<noteq> [] \<and> list_all is_digit s then Some (digits_val s) else None)"

definition int_in_range :: "int \<Rightarrow> bool" where
  "int_in_range n \<longleftrightarrow> - (2 ^ 63) \<le> n \<and> n < 2 ^ 63"

definition Atoi :: "string \<Rightarrow> int option" where
  "Atoi s =
     (case (if s \<noteq> [] \<and> hd s = CHR ''-'' then map_option (\<lambda>n. - int n) (atoi_digits (tl s))
            else if s \<noteq> [] \<and> hd s = CHR ''+'' then map_option int (atoi_digits (tl s))
            else map_option int (atoi_digits s)) of
        None \<Rightarrow> None
      | Some n \<Rightarrow> if int_in_range n then Some n else None)"

lemma is_digit_digit_char [simp]: "d < 10 \<Longrightarrow> is_digit (digit_char d)"
  by (simp add: is_digit_def digit_char_def)

lemma digit_val_digit_char [simp]: "d < 10 \<Longrightarrow> digit_val (digit_char d) = d"
  by (simp add: digit_val_def digit_char_def)

lemma itoa_nat_digits: "list_all is_digit (itoa_nat n)"
proof (induction n rule: itoa_nat.induct)
  case (1 n)
  then show ?case by (cases "n < 10") (simp_all add: itoa_nat.simps [of n])
qed

lemma itoa_nat_not_Nil [simp]: "itoa_nat n \<noteq> []"
  by (subst itoa_nat.simps) simp

lemma digits_val_snoc: "digits_val (s @ [c]) = 10 * digits_val s + digit_val c"
  by (simp add: digits_val_def)

lemma digits_val_itoa_nat: "digits_val (itoa_nat n) = n"
proof (induction n rule: itoa_nat.induct)
  case (1 n)
  show ?case
  proof (cases "n < 10")
    case True
    then show ?thesis by (simp add: itoa_nat.simps [of n] digits_val_def)
  next
    case False
    with 1 show ?thesis by (simp add: itoa_nat.simps [of n] digits_val_snoc)
  qed
qed

lemma atoi_digits_itoa [simp]: "atoi_digits (itoa_nat n) = Some n"
  by (simp add: atoi_digits_def itoa_nat_digits digits_val_itoa_nat)

lemma is_digit_not_sign: "is_digit c \<Longrightarrow> c \<noteq> CHR ''-'' \<and> c \<noteq> CHR ''+''"
  by (auto simp: is_digit_def)

lemma Atoi_Itoa [simp]:
  assumes "int_in_range n" shows "Atoi (Itoa n) = Some n"
proof (cases "n < 0")
  case True
  then show ?thesis using assms by (simp add: Itoa_def Atoi_def)
next
  case False
  have "is_digit (hd (itoa_nat (nat n)))"
    using itoa_nat_digits [of "nat n"] by (cases "itoa_nat (nat n)") auto
  with is_digit_not_sign False assms show ?thesis by (auto simp: Itoa_def Atoi_def)
qed

lemma Atoi_Itoa_nat [simp]: "n < 2 ^ 63 \<Longrightarrow> Atoi (Itoa (int n)) = Some (int n)"
  by (rule Atoi_Itoa) (simp add: int_in_range_def)

lemma Atoi_Itoa_u16 [simp]: "Atoi (Itoa (uint (w::u16))) = Some (uint w)"
  using uint_u16_bounds [of w]
  by (intro Atoi_Itoa) (auto simp: int_in_range_def intro: order_trans [of _ 0])

lemma Atoi_Itoa_Some: "Atoi (Itoa n) = Some m \<Longrightarrow> m = n"
proof (cases "int_in_range n")
  case False
  have "is_digit (hd (itoa_nat (nat n)))"
    using itoa_nat_digits [of "nat n"] by (cases "itoa_nat (nat n)") auto
  with is_digit_not_sign False have "Atoi (Itoa n) = None" by (auto simp: Itoa_def Atoi_def)
  then show "Atoi (Itoa n) = Some m \<Longrightarrow> m = n" by simp
qed simp

lemma Itoa_inj: "int_in_range m \<Longrightarrow> int_in_range n \<Longrightarrow> Itoa m = Itoa n \<Longrightarrow> m = n"
  by (metis Atoi_Itoa option.inject)

lemma Itoa_not_Nil [simp]: "Itoa n \<noteq> []"
  by (simp add: Itoa_def)

section \<open>Hexadecimal\<close>

text \<open>\<open>hex.EncodeToString\<close> writes lower case; \<open>hex.DecodeString\<close> accepts both.\<close>

definition hex_char :: "nat \<Rightarrow> char" where
  "hex_char d = (if d < 10 then char_of (48 + d) else char_of (87 + d))"

definition hex_val :: "char \<Rightarrow> nat option" where
  "hex_val c = (let n = ord_char c in
     if 48 \<le> n \<and> n \<le> 57 then Some (n - 48)
     else if 97 \<le> n \<and> n \<le> 102 then Some (n - 87)
     else if 65 \<le> n \<and> n \<le> 70 then Some (n - 55)
     else None)"

fun hex_EncodeToString :: "nat list \<Rightarrow> string" where
  "hex_EncodeToString [] = []"
| "hex_EncodeToString (b # bs) = hex_char (b div 16) # hex_char (b mod 16) # hex_EncodeToString bs"

fun hex_DecodeString :: "string \<Rightarrow> nat list option" where
  "hex_DecodeString [] = Some []"
| "hex_DecodeString [c] = None"
| "hex_DecodeString (a # b # s) =
     (case (hex_val a, hex_val b, hex_DecodeString s) of
        (Some x, Some y, Some r) \<Rightarrow> Some ((16 * x + y) # r)
      | _ \<Rightarrow> None)"

lemma hex_val_hex_char [simp]: "d < 16 \<Longrightarrow> hex_val (hex_char d) = Some d"
  by (auto simp: hex_val_def hex_char_def Let_def)

lemma hex_val_upper [simp]: "hex_val (upper_char c) = hex_val c"
  by (auto simp: hex_val_def upper_char_def Let_def)

lemma hex_Decode_Encode: "list_all (\<lambda>b. b < 256) bs \<Longrightarrow> hex_DecodeString (hex_EncodeToString bs) = Some bs"
  by (induction bs) auto

lemma hex_Decode_ToUpper: "hex_DecodeString (ToUpper s) = hex_DecodeString s"
  by (induction s rule: hex_DecodeString.induct) (auto simp: ToUpper_def)

lemma length_hex_Encode [simp]: "length (hex_EncodeToString bs) = 2 * length bs"
  by (induction bs) auto

end
