(* ===== verification/Systems.thy ===== *)
theory Systems
  imports Prelude
begin

text \<open>
  Transition systems.  Every component of relume-tv whose state is guarded by a mutex is modelled
  as a step relation: one event is one critical section (or one callback of the runtime), a run is
  a sequence of events in any order the scheduler may choose.  The locales state once what an
  invariant has to satisfy; each component interprets them with its own steps.
\<close>

inductive run :: "('s \<Rightarrow> 'e \<Rightarrow> 's \<Rightarrow> bool) \<Rightarrow> 's \<Rightarrow> 'e list \<Rightarrow> 's \<Rightarrow> bool" for step where
  run_Nil [simp, intro]: "run step s [] s"
| run_snoc: "run step s es s' \<Longrightarrow> step s' e s'' \<Longrightarrow> run step s (es @ [e]) s''"

inductive_simps run_Nil_iff [simp]: "run step s [] s'"

lemma run_single: "step s e s' \<Longrightarrow> run step s [e] s'"
  using run_snoc [OF run_Nil, of step s e s'] by simp

lemma run_append: "run step s' fs s'' \<Longrightarrow> run step s es s' \<Longrightarrow> run step s (es @ fs) s''"
proof (induction rule: run.induct)
  case (run_snoc s' fs t e t')
  have "run step s (es @ fs) t" using run_snoc by simp
  from run.run_snoc [OF this run_snoc(2)] show ?case by simp
qed simp

lemma run_Cons: "step s e s' \<Longrightarrow> run step s' es s'' \<Longrightarrow> run step s (e # es) s''"
  using run_append [OF _ run_single] by force

lemma run_snoc_cases:
  assumes "run step s (es @ [e]) s''"
  obtains s' where "run step s es s'" "step s' e s''"
  using assms by (cases rule: run.cases) auto

lemma run_Cons_cases:
  assumes "run step s (e # es) s''"
  obtains s' where "step s e s'" "run step s' es s''"
proof -
  have "\<exists>s'. step s e s' \<and> run step s' es s''"
    using assms
  proof (induction es arbitrary: s'' rule: rev_induct)
    case Nil
    then have "run step s ([] @ [e]) s''" by simp
    then show ?case by (rule run_snoc_cases) auto
  next
    case (snoc f fs)
    then have "run step s ((e # fs) @ [f]) s''" by simp
    then obtain t where "run step s (e # fs) t" "step t f s''" by (rule run_snoc_cases)
    then show ?case using snoc.IH run_snoc by metis
  qed
  then show ?thesis using that by blast
qed

lemma run_append_cases:
  assumes "run step s (es @ fs) s''"
  obtains s' where "run step s es s'" "run step s' fs s''"
proof -
  have "\<exists>s'. run step s es s' \<and> run step s' fs s''"
    using assms
  proof (induction fs arbitrary: s'' rule: rev_induct)
    case (snoc f fs)
    then have "run step s ((es @ fs) @ [f]) s''" by simp
    then obtain t where "run step s (es @ fs) t" "step t f s''" by (rule run_snoc_cases)
    then show ?case using snoc.IH run_snoc by metis
  qed simp
  then show ?thesis using that by blast
qed

text \<open>An executable form of the steps runs a list of events; it gives concrete runs.\<close>

fun exec :: "('s \<Rightarrow> 'e \<Rightarrow> 's option) \<Rightarrow> 's \<Rightarrow> 'e list \<Rightarrow> 's option" where
  "exec nxt s [] = Some s"
| "exec nxt s (e # es) = (case nxt s e of None \<Rightarrow> None | Some s' \<Rightarrow> exec nxt s' es)"

lemma exec_run:
  "exec nxt s es = Some s' \<Longrightarrow> (\<And>s e s'. nxt s e = Some s' \<Longrightarrow> step s e s') \<Longrightarrow> run step s es s'"
proof (induction es arbitrary: s)
  case (Cons e es)
  then obtain s1 where "nxt s e = Some s1" "exec nxt s1 es = Some s'" by (auto split: option.splits)
  with Cons show ?case by (blast intro: run_Cons)
qed simp

text \<open>An invariant: it holds at the start and every event keeps it.\<close>

locale invariant_system =
  fixes init :: "'s \<Rightarrow> bool"
    and step :: "'s \<Rightarrow> 'e \<Rightarrow> 's \<Rightarrow> bool"
    and inv :: "'s \<Rightarrow> bool"
  assumes init_inv: "init s \<Longrightarrow> inv s"
    and step_inv: "inv s \<Longrightarrow> step s e s' \<Longrightarrow> inv s'"
begin

lemma run_inv: "run step s es s' \<Longrightarrow> inv s \<Longrightarrow> inv s'"
  by (induction rule: run.induct) (auto intro: step_inv)

lemma reachable_inv: "init s \<Longrightarrow> run step s es s' \<Longrightarrow> inv s'"
  by (blast intro: init_inv run_inv)

end

text \<open>
  A property of the whole history: it may speak of the events so far and of the state the run
  started in, and its preservation may use the state invariant.
\<close>

locale history_system = invariant_system +
  fixes hist :: "'a \<Rightarrow> 'b list \<Rightarrow> 'a \<Rightarrow> bool"
  assumes hist_init: "init s \<Longrightarrow> hist s [] s"
    and hist_step: "init s0 \<Longrightarrow> run step s0 es s \<Longrightarrow> inv s \<Longrightarrow> hist s0 es s \<Longrightarrow> step s e s' \<Longrightarrow> hist s0 (es @ [e]) s'"
begin

lemma reachable_hist: "run step s0 es s \<Longrightarrow> init s0 \<Longrightarrow> hist s0 es s"
proof (induction rule: run.induct)
  case (run_snoc s0 es s e s')
  then show ?case using hist_step reachable_inv by blast
qed (simp add: hist_init)

end

text \<open>
  Refinement: an abstraction function maps the states of a detailed system to those of its
  specification.  Every detailed step is a sequence of steps of the specification, an empty one when
  it is internal; the proof may use an invariant of the detailed system.
\<close>

locale refinement = invariant_system +
  fixes abs :: "'a \<Rightarrow> 'x"
    and spec :: "'x \<Rightarrow> 'y \<Rightarrow> 'x \<Rightarrow> bool"
  assumes refines: "inv s \<Longrightarrow> step s e s' \<Longrightarrow> \<exists>fs. run spec (abs s) fs (abs s')"
begin

lemma run_refines: "run step s es s' \<Longrightarrow> inv s \<Longrightarrow> \<exists>fs. run spec (abs s) fs (abs s')"
proof (induction rule: run.induct)
  case (run_snoc s es s1 e s2)
  have "inv s1" using run_snoc.hyps(1) run_snoc.prems by (rule run_inv)
  then obtain gs where gs: "run spec (abs s1) gs (abs s2)" using refines run_snoc.hyps(2) by blast
  obtain fs where "run spec (abs s) fs (abs s1)" using run_snoc.IH run_snoc.prems by blast
  from run_append [OF gs this] show ?case by blast
qed blast

lemma reachable_refines: "init s \<Longrightarrow> run step s es s' \<Longrightarrow> \<exists>fs. run spec (abs s) fs (abs s')"
  using run_refines init_inv by blast

end

end
