(* ===== verification/Huestream.thy ===== *)
theory Huestream
  imports GoStrings
begin

text \<open>
  The HueStream wire format (\<open>internal/huestream/huestream.go\<close>): the decoded frame, \<open>Encode\<close>,
  \<open>appendU16\<close> and \<open>Parse\<close> with every error branch.  The lemmas show that \<open>Parse\<close> inverts
  \<open>Encode\<close> on the frames that fit the layout and, in general, returns the frame with the parts
  the layout cannot carry normalised; that \<open>Encode\<close> inverts \<open>Parse\<close> on v1 and v2 datagrams up
  to the reserved bytes and an incomplete trailing record; and the exact lengths.
\<close>

section \<open>Frames\<close>

definition ColorSpaceRGB :: u8 where
  "ColorSpaceRGB = 0"

definition ColorSpaceXY :: u8 where
  "ColorSpaceXY = 1"

record Channel =
  ch_ID :: u16
  ch_A :: u16
  ch_B :: u16
  ch_C :: u16

record Frame =
  fr_Major :: u8
  fr_Minor :: u8
  fr_Sequence :: u8
  fr_ColorSpace :: u8
  fr_ConfigID :: string
  fr_Channels :: "Channel list"

definition ColorSpaceName :: "Frame \<Rightarrow> string" where
  "ColorSpaceName f = (if fr_ColorSpace f = ColorSpaceXY then ''xy'' else ''rgb'')"

datatype parse_error =
    ShortFrame nat
  | BadMagic
  | V2TooShort nat
  | UnsupportedVersion u8 u8

section \<open>Bytes\<close>

definition byte_of_char :: "char \<Rightarrow> u8" where
  "byte_of_char c = word_of_nat (of_char c)"

definition char_of_byte :: "u8 \<Rightarrow> char" where
  "char_of_byte b = char_of (unat b)"

abbreviation bytes_of :: "string \<Rightarrow> u8 list" where
  "bytes_of s \<equiv> map byte_of_char s"

abbreviation string_of :: "u8 list \<Rightarrow> string" where
  "string_of b \<equiv> map char_of_byte b"

definition magic :: string where
  "magic = ''HueStream''"

definition appendU16 :: "u8 list \<Rightarrow> u16 \<Rightarrow> u8 list" where
  "appendU16 b v = b @ [ucast (drop_bit 8 v), ucast v]"

text \<open>\<open>binary.BigEndian.Uint16\<close> on the two bytes of a slice.\<close>

definition be_Uint16 :: "u8 \<Rightarrow> u8 \<Rightarrow> u16" where
  "be_Uint16 hi lo = push_bit 8 (ucast hi) OR ucast lo"

lemma byte_char_inverse [simp]: "char_of_byte (byte_of_char c) = c"
proof -
  have "unat (byte_of_char c) = ord_char c"
    by (simp add: byte_of_char_def unat_of_nat)
  then show ?thesis by (simp add: char_of_byte_def)
qed

lemma char_byte_inverse [simp]: "byte_of_char (char_of_byte b) = b"
  by (simp add: char_of_byte_def byte_of_char_def)

lemma char_of_byte_comp [simp]: "char_of_byte \<circ> byte_of_char = id"
  by (simp add: fun_eq_iff)

lemma byte_of_char_comp [simp]: "byte_of_char \<circ> char_of_byte = id"
  by (simp add: fun_eq_iff)

lemma be_Uint16_split [simp]: "be_Uint16 (ucast (drop_bit 8 v)) (ucast v) = v"
  unfolding be_Uint16_def
  by (rule bit_word_eqI) (auto simp: bit_simps)

lemma split_be_Uint16_hi [simp]: "(ucast (drop_bit 8 (be_Uint16 hi lo)) :: u8) = hi"
  unfolding be_Uint16_def
  by (rule bit_word_eqI) (auto simp: bit_simps dest: bit_imp_le_length)

lemma split_be_Uint16_lo [simp]: "(ucast (be_Uint16 hi lo) :: u8) = lo"
  unfolding be_Uint16_def
  by (rule bit_word_eqI) (auto simp: bit_simps)

section \<open>Encoding\<close>

text \<open>The two record loops of \<open>Encode\<close>; the v2 loop skips an id that does not fit one byte.\<close>

fun encodeV2Channels :: "u8 list \<Rightarrow> Channel list \<Rightarrow> u8 list" where
  "encodeV2Channels b [] = b"
| "encodeV2Channels b (c # cs) =
     (if ch_ID c > 255 then encodeV2Channels b cs
      else let b = b @ [ucast (ch_ID c)];
               b = appendU16 b (ch_A c);
               b = appendU16 b (ch_B c);
               b = appendU16 b (ch_C c)
           in encodeV2Channels b cs)"

fun encodeV1Channels :: "u8 list \<Rightarrow> Channel list \<Rightarrow> u8 list" where
  "encodeV1Channels b [] = b"
| "encodeV1Channels b (c # cs) =
     (let b = b @ [0];
          b = appendU16 b (ch_ID c);
          b = appendU16 b (ch_A c);
          b = appendU16 b (ch_B c);
          b = appendU16 b (ch_C c)
      in encodeV1Channels b cs)"

text \<open>\<open>id := make([]byte, 36); copy(id, f.ConfigID)\<close>: padded with zeros, cut at 36 bytes.\<close>

definition configIDBytes :: "string \<Rightarrow> u8 list" where
  "configIDBytes s = take 36 (bytes_of s) @ replicate (36 - length s) 0"

definition encodeHeader :: "Frame \<Rightarrow> u8 list" where
  "encodeHeader f =
     bytes_of magic @ [fr_Major f, fr_Minor f, fr_Sequence f, 0, 0, fr_ColorSpace f, 0]"

definition Encode :: "Frame \<Rightarrow> u8 list" where
  "Encode f =
     (let b = encodeHeader f in
      if fr_Major f = 2 then encodeV2Channels (b @ configIDBytes (fr_ConfigID f)) (fr_Channels f)
      else encodeV1Channels b (fr_Channels f))"

section \<open>Parsing\<close>

fun parseV1Channels :: "u8 list \<Rightarrow> Channel list" where
  "parseV1Channels (t # i1 # i0 # a1 # a0 # b1 # b0 # c1 # c0 # body) =
     \<lparr>ch_ID = be_Uint16 i1 i0, ch_A = be_Uint16 a1 a0, ch_B = be_Uint16 b1 b0,
      ch_C = be_Uint16 c1 c0\<rparr> # parseV1Channels body"
| "parseV1Channels body = []"

fun parseV2Channels :: "u8 list \<Rightarrow> Channel list" where
  "parseV2Channels (i # a1 # a0 # b1 # b0 # c1 # c0 # body) =
     \<lparr>ch_ID = ucast i, ch_A = be_Uint16 a1 a0, ch_B = be_Uint16 b1 b0,
      ch_C = be_Uint16 c1 c0\<rparr> # parseV2Channels body"
| "parseV2Channels body = []"

definition Parse :: "u8 list \<Rightarrow> parse_error + Frame" where
  "Parse b =
     (if length b < 16 then Inl (ShortFrame (length b))
      else if string_of (take 9 b) \<noteq> magic then Inl BadMagic
      else
        let f = \<lparr>fr_Major = b ! 9, fr_Minor = b ! 10, fr_Sequence = b ! 11,
                 fr_ColorSpace = b ! 14, fr_ConfigID = [], fr_Channels = []\<rparr>;
            body = drop 16 b
        in if fr_Major f = 1 then Inr (f\<lparr>fr_Channels := parseV1Channels body\<rparr>)
           else if fr_Major f = 2 then
             (if length body < 36 then Inl (V2TooShort (length body))
              else Inr (f\<lparr>fr_ConfigID := string_of (take 36 body),
                         fr_Channels := parseV2Channels (drop 36 body)\<rparr>))
           else Inl (UnsupportedVersion (fr_Major f) (fr_Minor f)))"

section \<open>The record loops\<close>

abbreviation u16_bytes :: "u16 \<Rightarrow> u8 list" where
  "u16_bytes v \<equiv> [ucast (drop_bit 8 v), ucast v]"

definition v1_record :: "Channel \<Rightarrow> u8 list" where
  "v1_record c = 0 # u16_bytes (ch_ID c) @ u16_bytes (ch_A c) @ u16_bytes (ch_B c) @ u16_bytes (ch_C c)"

definition v2_record :: "Channel \<Rightarrow> u8 list" where
  "v2_record c = ucast (ch_ID c) # u16_bytes (ch_A c) @ u16_bytes (ch_B c) @ u16_bytes (ch_C c)"

abbreviation fits_v2 :: "Channel \<Rightarrow> bool" where
  "fits_v2 c \<equiv> ch_ID c \<le> 255"

lemma encodeV1Channels_eq: "encodeV1Channels b cs = b @ concat (map v1_record cs)"
  by (induction b cs rule: encodeV1Channels.induct) (simp_all add: v1_record_def appendU16_def)

lemma encodeV2Channels_eq:
  "encodeV2Channels b cs = b @ concat (map v2_record (filter fits_v2 cs))"
  by (induction b cs rule: encodeV2Channels.induct)
    (auto simp add: v2_record_def appendU16_def Let_def not_less)

lemma length_v1_record [simp]: "length (v1_record c) = 9"
  by (simp add: v1_record_def)

lemma length_v2_record [simp]: "length (v2_record c) = 7"
  by (simp add: v2_record_def)

lemma length_configIDBytes [simp]: "length (configIDBytes s) = 36"
  by (simp add: configIDBytes_def)

lemma length_encodeHeader [simp]: "length (encodeHeader f) = 16"
  by (simp add: encodeHeader_def magic_def)

lemma parseV1_record: "parseV1Channels (v1_record c @ body) = c # parseV1Channels body"
  by (simp add: v1_record_def)

lemma parseV1_records: "parseV1Channels (concat (map v1_record cs)) = cs"
  by (induction cs) (simp_all add: parseV1_record)

lemma ucast_id_small: "i \<le> 255 \<Longrightarrow> (ucast (ucast i :: u8) :: u16) = i"
proof -
  assume "i \<le> 255"
  then have "unat i < 256" by (simp add: word_le_nat_alt)
  then show ?thesis by (simp add: word_unat_eq_iff unat_ucast_16_8)
qed

lemma parseV2_record: "fits_v2 c \<Longrightarrow> parseV2Channels (v2_record c @ body) = c # parseV2Channels body"
  by (simp add: v2_record_def ucast_id_small)

lemma parseV2_records:
  "\<forall>c \<in> set cs. fits_v2 c \<Longrightarrow> parseV2Channels (concat (map v2_record cs)) = cs"
  by (induction cs) (simp_all add: parseV2_record)


lemma v2_record_parse [simp]:
  "v2_record \<lparr>ch_ID = ucast i, ch_A = be_Uint16 a1 a0, ch_B = be_Uint16 b1 b0,
     ch_C = be_Uint16 c1 c0\<rparr> = [i, a1, a0, b1, b0, c1, c0]"
  by (simp add: v2_record_def)

lemma v1_record_parse [simp]:
  "v1_record \<lparr>ch_ID = be_Uint16 i1 i0, ch_A = be_Uint16 a1 a0, ch_B = be_Uint16 b1 b0,
     ch_C = be_Uint16 c1 c0\<rparr> = [0, i1, i0, a1, a0, b1, b0, c1, c0]"
  by (simp add: v1_record_def)

lemma concat_v2_parse:
  "concat (map v2_record (parseV2Channels body)) = take (7 * (length body div 7)) body"
  by (induction body rule: parseV2Channels.induct) (simp_all add: take_add)

lemma length_parseV1Channels: "length (parseV1Channels body) = length body div 9"
  by (induction body rule: parseV1Channels.induct) simp_all

lemma length_parseV2Channels: "length (parseV2Channels body) = length body div 7"
  by (induction body rule: parseV2Channels.induct) simp_all

lemma parseV2Channels_fit: "c \<in> set (parseV2Channels body) \<Longrightarrow> fits_v2 c"
proof (induction body rule: parseV2Channels.induct)
  case (1 i a1 a0 b1 b0 c1 c0 body)
  have "(ucast i :: u16) \<le> 255"
    using unat_u8_less [of i] by (simp add: word_le_nat_alt)
  with 1 show ?case by auto
qed simp_all

lemma filter_parseV2 [simp]: "filter fits_v2 (parseV2Channels body) = parseV2Channels body"
  by (rule filter_True) (blast dest: parseV2Channels_fit)

section \<open>Datagrams\<close>

lemma Encode_eq:
  "Encode f = encodeHeader f @
     (if fr_Major f = 2
      then configIDBytes (fr_ConfigID f) @ concat (map v2_record (filter fits_v2 (fr_Channels f)))
      else concat (map v1_record (fr_Channels f)))"
  by (simp add: Encode_def Let_def encodeV1Channels_eq encodeV2Channels_eq)

lemma header_nth [simp]:
  "(encodeHeader f @ r) ! 9 = fr_Major f" "(encodeHeader f @ r) ! 10 = fr_Minor f"
  "(encodeHeader f @ r) ! 11 = fr_Sequence f" "(encodeHeader f @ r) ! 14 = fr_ColorSpace f"
  by (simp_all add: encodeHeader_def magic_def nth_append)

lemma header_magic [simp]: "take 9 (encodeHeader f) = bytes_of magic"
  by (simp add: encodeHeader_def magic_def)

lemma string_of_configIDBytes:
  "string_of (configIDBytes s) = take 36 s @ replicate (36 - length s) (CHR 0x00)"
proof -
  have "char_of_byte 0 = CHR 0x00" by (simp add: char_of_byte_def char_of_def)
  then show ?thesis
    by (simp add: configIDBytes_def flip: take_map)
qed

lemma Parse_header:
  "Parse (encodeHeader f @ body) =
     (if fr_Major f = 1 then Inr (f\<lparr>fr_ConfigID := [], fr_Channels := parseV1Channels body\<rparr>)
      else if fr_Major f = 2 then
        (if length body < 36 then Inl (V2TooShort (length body))
         else Inr (f\<lparr>fr_ConfigID := string_of (take 36 body),
                    fr_Channels := parseV2Channels (drop 36 body)\<rparr>))
      else Inl (UnsupportedVersion (fr_Major f) (fr_Minor f)))"
  by (simp add: Parse_def Let_def)

text \<open>
  C27: parsing what \<open>Encode\<close> wrote gives the frame back, for every frame: a v1 frame loses its
  config id (the layout has none), a v2 frame has its config id padded or cut to 36 bytes and
  its channels with an id beyond one byte dropped, any other major version is refused.
\<close>

theorem Parse_Encode:
  "Parse (Encode f) =
     (if fr_Major f = 1 then Inr (f\<lparr>fr_ConfigID := []\<rparr>)
      else if fr_Major f = 2 then
        Inr (f\<lparr>fr_ConfigID := take 36 (fr_ConfigID f) @ replicate (36 - length (fr_ConfigID f)) (CHR 0x00),
              fr_Channels := filter fits_v2 (fr_Channels f)\<rparr>)
      else Inl (UnsupportedVersion (fr_Major f) (fr_Minor f)))"
  by (simp add: Encode_eq Parse_header parseV1_records parseV2_records string_of_configIDBytes)

text \<open>The bytes of a v1 body a frame retains: whole records, with the device type set to 0.\<close>

fun v1_canonical :: "u8 list \<Rightarrow> u8 list" where
  "v1_canonical (t # i1 # i0 # a1 # a0 # b1 # b0 # c1 # c0 # body) =
     0 # i1 # i0 # a1 # a0 # b1 # b0 # c1 # c0 # v1_canonical body"
| "v1_canonical body = []"

lemma concat_v1_parse: "concat (map v1_record (parseV1Channels body)) = v1_canonical body"
  by (induction body rule: parseV1Channels.induct) simp_all

lemma length_v1_canonical [simp]: "length (v1_canonical body) = 9 * (length body div 9)"
  by (induction body rule: v1_canonical.induct) simp_all

lemma Parse_InrD:
  assumes "Parse b = Inr f"
  shows "16 \<le> length b" "bytes_of magic = take 9 b" "fr_Major f = b ! 9" "fr_Minor f = b ! 10"
    "fr_Sequence f = b ! 11" "fr_ColorSpace f = b ! 14"
    "fr_Major f = 1 \<and> fr_ConfigID f = [] \<and> fr_Channels f = parseV1Channels (drop 16 b)
     \<or> fr_Major f = 2 \<and> 52 \<le> length b \<and> fr_ConfigID f = string_of (take 36 (drop 16 b))
        \<and> fr_Channels f = parseV2Channels (drop 52 b)"
proof -
  have "string_of (take 9 b) = magic" using assms by (auto simp: Parse_def split: if_splits)
  then have "bytes_of (string_of (take 9 b)) = bytes_of magic" by simp
  then show "bytes_of magic = take 9 b" by simp
qed (use assms in \<open>auto simp: Parse_def Let_def split: if_splits\<close>)

lemma encodeHeader_Parse:
  assumes "Parse b = Inr f"
  shows "encodeHeader f = take 12 b @ [0, 0, b ! 14, 0]"
proof -
  note p = Parse_InrD [OF assms]
  have "take 12 b = take 9 b @ [b ! 9, b ! 10, b ! 11]"
    using p(1) by (simp add: take_Suc_conv_app_nth eval_nat_numeral)
  then show ?thesis using p by (simp add: encodeHeader_def)
qed

text \<open>
  Re-encoding a parsed datagram reproduces it byte for byte, except that the reserved header
  bytes (and, in v1, the device type of each record) become 0 and an incomplete trailing record
  is dropped: nothing the TV sent in a whole record is lost or reordered.
\<close>

theorem Encode_Parse:
  assumes "Parse b = Inr f"
  shows "Encode f = take 12 b @ [0, 0, b ! 14, 0] @
     (if fr_Major f = 1 then v1_canonical (drop 16 b)
      else take (36 + 7 * ((length b - 52) div 7)) (drop 16 b))"
proof -
  note p = Parse_InrD [OF assms]
  show ?thesis
  proof (cases "fr_Major f = 1")
    case True
    then have "fr_Channels f = parseV1Channels (drop 16 b)" using p(7) by auto
    then show ?thesis using True
      by (simp add: Encode_eq encodeHeader_Parse [OF assms] concat_v1_parse)
  next
    case False
    then have m: "fr_Major f = 2" "52 \<le> length b" "fr_ConfigID f = string_of (take 36 (drop 16 b))"
      "fr_Channels f = parseV2Channels (drop 52 b)" using p(7) by auto
    have "configIDBytes (fr_ConfigID f) = take 36 (drop 16 b)"
      using m(2) by (simp add: m(3) configIDBytes_def)
    with m show ?thesis
      by (simp add: Encode_eq encodeHeader_Parse [OF assms] concat_v2_parse take_add)
  qed
qed

theorem Encode_Parse_witness:
  "Encode \<lparr>fr_Major = 2, fr_Minor = 0, fr_Sequence = 7, fr_ColorSpace = 1,
       fr_ConfigID = replicate 36 (CHR ''a''),
       fr_Channels = [\<lparr>ch_ID = 3, ch_A = 258, ch_B = 0, ch_C = 65535\<rparr>]\<rparr>
     = bytes_of magic @ [2, 0, 7, 0, 0, 1, 0] @ replicate 36 97 @ [3, 1, 2, 0, 0, 255, 255]"
proof -
  let ?b = "bytes_of magic @ [2, 0, 7, 9, 9, 1, 9] @ replicate 36 97 @ [3, 1, 2, 0, 0, 255, 255] @ [1, 2 :: u8]"
  have s: "string_of (replicate 36 97) = replicate 36 (CHR ''a'')"
    by (simp add: map_replicate_trivial) code_simp
  have "Parse ?b = Inr \<lparr>fr_Major = 2, fr_Minor = 0, fr_Sequence = 7, fr_ColorSpace = 1,
       fr_ConfigID = replicate 36 (CHR ''a''),
       fr_Channels = [\<lparr>ch_ID = 3, ch_A = 258, ch_B = 0, ch_C = 65535\<rparr>]\<rparr>"
    using s by (simp add: Parse_def magic_def be_Uint16_def nth_append)
  from Encode_Parse [OF this] show ?thesis
    by (simp add: magic_def nth_append)
qed

end
