(* ===== verification/Convert.thy ===== *)
theory Convert
  imports Huestream
begin

text \<open>
  From a HueStream channel to a CLIP v1 light state (\<open>internal/entertainment/convert.go\<close>):
  \<open>u16ToUnit\<close>, \<open>scaleBri\<close>, \<open>rgbToXYBri\<close> with its gamma curve, and \<open>ToHueV1State\<close>.  The lemmas
  give the ranges the v1 API requires: chromaticity in the unit square and brightness 1..254.
\<close>

definition u16ToUnit :: "u16 \<Rightarrow> real" where
  "u16ToUnit v = real (unat v) / 65535"

definition scaleBri :: "u16 \<Rightarrow> int" where
  "scaleBri v =
     (let bri = trunc (real (unat v) / 65535 * 253) + 1 in
      if bri > 254 then 254 else if bri < 1 then 1 else bri)"

definition srgb_gamma :: "real \<Rightarrow> real" where
  "srgb_gamma c = (if c > 4045 / 100000 then ((c + 55 / 1000) / (1055 / 1000)) powr (24 / 10)
                   else c / (1292 / 100))"

definition rgbToXYBri :: "real \<Rightarrow> real \<Rightarrow> real \<Rightarrow> real \<times> real \<times> int" where
  "rgbToXYBri r g b =
     (let r = srgb_gamma r; g = srgb_gamma g; b = srgb_gamma b;
          X = r * (649926 / 1000000) + g * (103455 / 1000000) + b * (197109 / 1000000);
          Y = r * (234327 / 1000000) + g * (743075 / 1000000) + b * (22598 / 1000000);
          Z = r * 0 + g * (53077 / 1000000) + b * (1035763 / 1000000);
          sum = X + Y + Z
      in if sum = 0 then (0, 0, 1)
         else let bri = trunc (Y * 253) + 1;
                  bri = (if bri > 254 then 254 else bri)
              in (X / sum, Y / sum, bri))"

definition ToHueV1State :: "u8 \<Rightarrow> Channel \<Rightarrow> obj" where
  "ToHueV1State colorSpace c =
     (let state = [(''on'', GBool True)] in
      if colorSpace = ColorSpaceXY then
        mput ''bri'' (GInt (scaleBri (ch_C c)))
          (mput ''xy'' (GFloats [u16ToUnit (ch_A c), u16ToUnit (ch_B c)]) state)
      else
        (case rgbToXYBri (u16ToUnit (ch_A c)) (u16ToUnit (ch_B c)) (u16ToUnit (ch_C c)) of
           (x, y, bri) \<Rightarrow> mput ''bri'' (GInt bri) (mput ''xy'' (GFloats [x, y]) state)))"

section \<open>Ranges\<close>

lemma u16ToUnit_bounds: "0 \<le> u16ToUnit v" "u16ToUnit v \<le> 1"
  by (simp_all add: u16ToUnit_def)

lemma u16ToUnit_mono: "v \<le> w \<Longrightarrow> u16ToUnit v \<le> u16ToUnit w"
  by (simp add: u16ToUnit_def divide_right_mono real_u16_mono)

lemma scaleBri_eq: "scaleBri v = \<lfloor>u16ToUnit v * 253\<rfloor> + 1"
proof -
  have nn: "0 \<le> u16ToUnit v * 253" using u16ToUnit_bounds [of v] by simp
  have "u16ToUnit v * 253 \<le> 253" using u16ToUnit_bounds [of v] by simp
  then have "\<lfloor>u16ToUnit v * 253\<rfloor> \<le> 253" by linarith
  moreover have "0 \<le> \<lfloor>u16ToUnit v * 253\<rfloor>" using nn by simp
  moreover have "scaleBri v = (let bri = trunc (u16ToUnit v * 253) + 1 in
      if bri > 254 then 254 else if bri < 1 then 1 else bri)"
    unfolding scaleBri_def u16ToUnit_def ..
  ultimately show ?thesis using nn by (simp add: Let_def)
qed

lemma scaleBri_bounds: "1 \<le> scaleBri v" "scaleBri v \<le> 254"
  by (simp_all add: scaleBri_def Let_def)

lemma scaleBri_mono: "v \<le> w \<Longrightarrow> scaleBri v \<le> scaleBri w"
  by (simp add: scaleBri_eq floor_mono u16ToUnit_mono)

lemma srgb_gamma_bounds:
  assumes "0 \<le> c" "c \<le> 1" shows "0 \<le> srgb_gamma c" "srgb_gamma c \<le> 1"
proof -
  have "((c + 55 / 1000) / (1055 / 1000)) powr (24 / 10) \<le> 1"
    using assms by (intro powr_le1) auto
  then show "srgb_gamma c \<le> 1" using assms by (simp add: srgb_gamma_def)
  show "0 \<le> srgb_gamma c" using assms by (simp add: srgb_gamma_def)
qed

lemma xyz_bounds:
  fixes r g b :: real
  assumes "0 \<le> r" "r \<le> 1" "0 \<le> g" "g \<le> 1" "0 \<le> b" "b \<le> 1"
  shows "0 \<le> r * (234327 / 1000000) + g * (743075 / 1000000) + b * (22598 / 1000000)"
    and "r * (234327 / 1000000) + g * (743075 / 1000000) + b * (22598 / 1000000) \<le> 1"
    and "0 \<le> r * (649926 / 1000000) + g * (103455 / 1000000) + b * (197109 / 1000000)"
    and "0 \<le> r * 0 + g * (53077 / 1000000) + b * (1035763 / 1000000)"
  using assms by linarith+

lemma share_bounds:
  fixes a b c :: real
  assumes "0 \<le> a" "0 \<le> b" "0 \<le> c" "a + b + c \<noteq> 0"
  shows "0 \<le> a / (a + b + c)" "a / (a + b + c) \<le> 1" "0 \<le> b / (a + b + c)" "b / (a + b + c) \<le> 1"
  using assms by (auto simp: divide_le_eq_1)

lemma rgbToXYBri_bounds:
  assumes "0 \<le> r" "r \<le> 1" "0 \<le> g" "g \<le> 1" "0 \<le> b" "b \<le> 1" and eq: "rgbToXYBri r g b = (x, y, bri)"
  shows "0 \<le> x \<and> x \<le> 1 \<and> 0 \<le> y \<and> y \<le> 1 \<and> 1 \<le> bri \<and> bri \<le> 254"
proof -
  let ?r = "srgb_gamma r" and ?g = "srgb_gamma g" and ?b = "srgb_gamma b"
  define X where "X = ?r * (649926 / 1000000) + ?g * (103455 / 1000000) + ?b * (197109 / 1000000)"
  define Y where "Y = ?r * (234327 / 1000000) + ?g * (743075 / 1000000) + ?b * (22598 / 1000000)"
  define Z where "Z = ?r * 0 + ?g * (53077 / 1000000) + ?b * (1035763 / 1000000)"
  note bb = xyz_bounds [OF srgb_gamma_bounds [OF assms(1,2)] srgb_gamma_bounds [OF assms(3,4)]
      srgb_gamma_bounds [OF assms(5,6)], folded X_def Y_def Z_def]
  have eq': "(if X + Y + Z = 0 then (0, 0, 1)
     else (X / (X + Y + Z), Y / (X + Y + Z),
           if trunc (Y * 253) + 1 > 254 then 254 else trunc (Y * 253) + 1)) = (x, y, bri)"
    using eq unfolding rgbToXYBri_def Let_def X_def Y_def Z_def .
  show ?thesis
  proof (cases "X + Y + Z = 0")
    case True
    with eq' show ?thesis by simp
  next
    case False
    have "0 \<le> trunc (Y * 253)" using bb(1) by simp
    with eq' False share_bounds [OF bb(3) bb(1) bb(4) False] show ?thesis by auto
  qed
qed

text \<open>
  The light state made from any decoded channel, in either colour space, switches the light
  on and carries a chromaticity in the unit square and a brightness in the v1 range 1..254.
\<close>

theorem ToHueV1State_in_range:
  "\<exists>x y bri. ToHueV1State cs c = [(''on'', GBool True), (''xy'', GFloats [x, y]), (''bri'', GInt bri)]
     \<and> 0 \<le> x \<and> x \<le> 1 \<and> 0 \<le> y \<and> y \<le> 1 \<and> 1 \<le> bri \<and> bri \<le> 254"
proof (cases "cs = ColorSpaceXY")
  case True
  then show ?thesis using u16ToUnit_bounds scaleBri_bounds by (simp add: ToHueV1State_def)
next
  case False
  obtain x y bri where
    eq: "rgbToXYBri (u16ToUnit (ch_A c)) (u16ToUnit (ch_B c)) (u16ToUnit (ch_C c)) = (x, y, bri)"
    by (metis prod_cases3)
  with rgbToXYBri_bounds [OF u16ToUnit_bounds u16ToUnit_bounds u16ToUnit_bounds eq] False
  show ?thesis by (simp add: ToHueV1State_def)
qed

lemma ToHueV1State_keys: "mkeys (ToHueV1State cs c) = [''on'', ''xy'', ''bri'']"
  by (simp add: ToHueV1State_def Let_def split: prod.splits)

text \<open>Its shape: three members, whatever the frame.\<close>

lemma ToHueV1State_shape:
  "\<exists>x y bri. ToHueV1State cs c = [(''on'', GBool True), (''xy'', GFloats [x, y]), (''bri'', GInt bri)]"
  by (simp add: ToHueV1State_def Let_def split: prod.splits)

end
