(* ===== verification/Smoothing.thy ===== *)
theory Smoothing
  imports Huestream "HOL-Library.Multiset"
begin

text \<open>
  The colour filters of the DTLS send path (\<open>internal/entertainment/streamer.go\<close>): the
  exponential easing (\<open>alphaForTau\<close>, \<open>smoothComponent\<close>, \<open>smoothToward\<close>) and the gated median
  spike filter (\<open>medianComponent\<close>, \<open>gatedMedian\<close>, \<open>SetMedianFilter\<close>).

  The lemmas show that easing stays between the current and the target value (so the
  conversion to 16 bits never wraps), contracts the distance geometrically and reaches the target
  exactly, for the weights of every time constant up to ten seconds; that beyond it easing can
  stall short of the target; that the median is a median; and when the gate passes, bounds and
  replaces a sample.
\<close>

section \<open>Easing\<close>

definition sendInterval :: duration where
  "sendInterval = 20 * millisecond"

definition DefaultSmoothTau :: duration where
  "DefaultSmoothTau = 40 * millisecond"

definition snapColorDelta :: int where
  "snapColorDelta = 256"

definition alphaForTau :: "duration \<Rightarrow> real" where
  "alphaForTau tau =
     (if tau \<le> 0 then 1 else 1 - exp (- real_of_int sendInterval / real_of_int tau))"

definition defaultSmoothAlpha :: real where
  "defaultSmoothAlpha = alphaForTau DefaultSmoothTau"

definition smoothComponent :: "u16 \<Rightarrow> u16 \<Rightarrow> real \<Rightarrow> u16" where
  "smoothComponent cur tgt alpha =
     (let d = uint tgt - uint cur in
      if d \<le> snapColorDelta \<and> d \<ge> - snapColorDelta then tgt
      else word_of_int (uint cur + math_Round (alpha * real_of_int d)))"

definition smoothToward :: "Channel \<Rightarrow> Channel \<Rightarrow> real \<Rightarrow> Channel" where
  "smoothToward current target alpha =
     \<lparr>ch_ID = ch_ID target,
      ch_A = smoothComponent (ch_A current) (ch_A target) alpha,
      ch_B = smoothComponent (ch_B current) (ch_B target) alpha,
      ch_C = smoothComponent (ch_C current) (ch_C target) alpha\<rparr>"

lemma alphaForTau_bounds: "0 < alphaForTau tau" "alphaForTau tau \<le> 1"
proof -
  have "exp (- real_of_int sendInterval / real_of_int tau) < 1" if "0 < tau"
    using that by (simp add: sendInterval_def millisecond_def)
  then show "0 < alphaForTau tau" by (auto simp: alphaForTau_def)
qed (simp add: alphaForTau_def)

lemma one_minus_exp_bounds:
  fixes x :: real assumes "0 < x" shows "x / (1 + x) \<le> 1 - exp (- x)" "1 - exp (- x) \<le> x"
proof -
  have "1 + x \<le> exp x" by (rule exp_ge_add_one_self)
  then have "1 / exp x \<le> 1 / (1 + x)" using assms by (intro divide_left_mono) auto
  then have "exp (- x) \<le> 1 / (1 + x)" by (simp add: exp_minus inverse_eq_divide)
  then show "x / (1 + x) \<le> 1 - exp (- x)" using assms by (simp add: field_simps)
  show "1 - exp (- x) \<le> x" using exp_ge_add_one_self [of "- x"] by simp
qed

lemma alphaForTau_lower:
  assumes "tau \<le> 10000 * millisecond" shows "1 / 512 \<le> alphaForTau tau"
proof (cases "tau \<le> 0")
  case False
  let ?x = "real_of_int sendInterval / real_of_int tau"
  have t: "0 < real_of_int tau" "real_of_int tau \<le> 10000000000"
    using False assms by (simp_all add: millisecond_def)
  then have x: "1 / 500 \<le> ?x" by (simp add: sendInterval_def millisecond_def field_simps)
  then have pos: "0 < ?x" by linarith
  have "1 / 501 \<le> ?x / (1 + ?x)"
  proof -
    have "(1 / 501) * (1 + ?x) \<le> ?x" using x by argo
    moreover have "0 < 1 + ?x" using pos by linarith
    ultimately show ?thesis by (simp only: pos_le_divide_eq)
  qed
  also have "\<dots> \<le> alphaForTau tau"
    using one_minus_exp_bounds(1) [OF pos] False by (simp add: alphaForTau_def)
  finally show ?thesis by simp
qed (simp add: alphaForTau_def)

lemma alphaForTau_upper:
  assumes "0 < tau" shows "alphaForTau tau \<le> real_of_int sendInterval / real_of_int tau"
proof -
  have "0 < real_of_int sendInterval / real_of_int tau"
    using assms by (simp add: sendInterval_def millisecond_def)
  from one_minus_exp_bounds(2) [OF this] show ?thesis using assms by (simp add: alphaForTau_def)
qed

text \<open>The distance of a component to its target, and one step of easing outside the snap zone.\<close>

definition gap :: "u16 \<Rightarrow> u16 \<Rightarrow> int" where
  "gap cur tgt = \<bar>uint tgt - uint cur\<bar>"

lemma gap_0_iff [simp]: "gap cur tgt = 0 \<longleftrightarrow> cur = tgt"
  by (auto simp: gap_def word_uint_eq_iff)

lemma gap_self [simp]: "gap t t = 0"
  by (simp add: gap_def)

lemma smoothComponent_snap: "gap cur tgt \<le> snapColorDelta \<Longrightarrow> smoothComponent cur tgt alpha = tgt"
  by (auto simp: smoothComponent_def gap_def Let_def)

lemma round_step:
  fixes d :: int and alpha :: real
  assumes "0 < alpha" "alpha \<le> 1"
  shows "0 \<le> d \<Longrightarrow> 0 \<le> math_Round (alpha * d) \<and> math_Round (alpha * d) \<le> d"
    and "d \<le> 0 \<Longrightarrow> d \<le> math_Round (alpha * d) \<and> math_Round (alpha * d) \<le> 0"
proof -
  have pos: "0 \<le> math_Round (alpha * e) \<and> math_Round (alpha * e) \<le> e" if "0 \<le> e" for e :: int
  proof -
    have a: "0 \<le> alpha * e" using that assms by simp
    have "alpha * e \<le> 1 * real_of_int e" using that assms by (intro mult_right_mono) auto
    then have "alpha * e \<le> real_of_int e" by simp
    with a math_Round_mono_bound show ?thesis by blast
  qed
  show "0 \<le> d \<Longrightarrow> 0 \<le> math_Round (alpha * d) \<and> math_Round (alpha * d) \<le> d" by (rule pos)
  show "d \<le> math_Round (alpha * d) \<and> math_Round (alpha * d) \<le> 0" if "d \<le> 0"
    using pos [of "- d"] that by (simp add: math_Round_neg)
qed

lemma uint_smoothComponent:
  assumes "0 < alpha" "alpha \<le> 1" "snapColorDelta < gap cur tgt"
  shows "uint (smoothComponent cur tgt alpha)
           = uint cur + math_Round (alpha * real_of_int (uint tgt - uint cur))"
proof -
  let ?d = "uint tgt - uint cur" and ?m = "math_Round (alpha * real_of_int (uint tgt - uint cur))"
  have "uint cur + ?m \<in> {min (uint cur) (uint tgt)..max (uint cur) (uint tgt)}"
    using round_step [OF assms(1,2), of ?d] by (cases "0 \<le> ?d") auto
  then have "min (uint cur) (uint tgt) \<le> uint cur + ?m" "uint cur + ?m \<le> max (uint cur) (uint tgt)"
    by (simp_all only: atLeastAtMost_iff)
  moreover have "0 \<le> min (uint cur) (uint tgt)" by simp
  moreover have "max (uint cur) (uint tgt) < 65536"
    using uint_u16_bounds [of cur] uint_u16_bounds [of tgt] by simp
  ultimately have "0 \<le> uint cur + ?m" "uint cur + ?m < 65536" by linarith+
  then have "(uint cur + ?m) mod 2 ^ LENGTH(16) = uint cur + ?m"
    by (intro mod_pos_pos_trivial) simp_all
  then have "uint (word_of_int (uint cur + ?m) :: u16) = uint cur + ?m"
    by (simp only: uint_word_of_int)
  moreover have "smoothComponent cur tgt alpha = word_of_int (uint cur + ?m)"
    using assms(3) by (auto simp: smoothComponent_def gap_def Let_def)
  ultimately show ?thesis by simp
qed

text \<open>
  Easing never overshoots and never wraps around: whatever the current and target values
  and the time constant, the new value lies between them.
\<close>

theorem smoothComponent_between:
  "min cur tgt \<le> smoothComponent cur tgt (alphaForTau tau)
   \<and> smoothComponent cur tgt (alphaForTau tau) \<le> max cur tgt"
proof (cases "gap cur tgt \<le> snapColorDelta")
  case True
  then show ?thesis by (simp add: smoothComponent_snap)
next
  case False
  let ?d = "uint tgt - uint cur"
  note u = uint_smoothComponent [OF alphaForTau_bounds, of cur tgt tau]
  show ?thesis
    using False round_step [OF alphaForTau_bounds [of tau], of ?d] u
    by (cases "0 \<le> ?d") (auto simp: word_le_def min_def max_def)
qed

lemma smoothComponent_gap:
  assumes "0 < alpha" "alpha \<le> 1" "snapColorDelta < gap cur tgt"
  shows "gap (smoothComponent cur tgt alpha) tgt
           = gap cur tgt - math_Round (alpha * real_of_int (gap cur tgt))"
proof -
  let ?d = "uint tgt - uint cur"
  have g: "gap (smoothComponent cur tgt alpha) tgt = \<bar>?d - math_Round (alpha * real_of_int ?d)\<bar>"
    using uint_smoothComponent [OF assms] by (simp add: gap_def)
  show ?thesis
  proof (cases "0 \<le> ?d")
    case True
    then have "gap cur tgt = ?d" by (simp add: gap_def)
    with g True round_step(1) [OF assms(1,2) True] show ?thesis by simp
  next
    case False
    then have e: "gap cur tgt = - ?d" by (simp add: gap_def)
    have "math_Round (alpha * real_of_int (- ?d)) = - math_Round (alpha * real_of_int ?d)"
      using math_Round_neg [of "alpha * real_of_int ?d"] by (simp add: algebra_simps)
    with g e False round_step(2) [OF assms(1,2), of ?d] show ?thesis by simp
  qed
qed

text \<open>
  One tick of easing contracts the distance to the target by the factor \<open>1 - alpha\<close>, up to
  half a unit of rounding, for every time constant.
\<close>

theorem smoothComponent_contracts:
  "real_of_int (gap (smoothComponent cur tgt (alphaForTau tau)) tgt)
     \<le> (1 - alphaForTau tau) * real_of_int (gap cur tgt) + 1 / 2"
proof (cases "gap cur tgt \<le> snapColorDelta")
  case True
  have "0 \<le> (1 - alphaForTau tau) * real_of_int (gap cur tgt)"
    using alphaForTau_bounds [of tau] by (simp add: gap_def)
  with True show ?thesis by (simp add: smoothComponent_snap gap_def)
next
  case False
  with smoothComponent_gap [OF alphaForTau_bounds, of cur tgt tau]
    math_Round_bounds [of "alphaForTau tau * real_of_int (gap cur tgt)"]
  show ?thesis by (simp add: algebra_simps)
qed

lemma smoothComponent_progress:
  assumes "1 / 512 \<le> alpha" "alpha \<le> 1" "cur \<noteq> tgt"
  shows "gap (smoothComponent cur tgt alpha) tgt < gap cur tgt"
proof (cases "gap cur tgt \<le> snapColorDelta")
  case True
  have "0 < gap cur tgt" using assms(3) by (simp add: gap_def word_uint_eq_iff)
  moreover have "gap (smoothComponent cur tgt alpha) tgt = 0" using True by (simp add: smoothComponent_snap)
  ultimately show ?thesis by simp
next
  case False
  then have "257 \<le> real_of_int (gap cur tgt)" by (simp add: snapColorDelta_def)
  with assms(1) have "1 / 512 * 257 \<le> alpha * real_of_int (gap cur tgt)"
    by (intro mult_mono) auto
  then have "1 \<le> math_Round (alpha * real_of_int (gap cur tgt))" by (intro math_Round_pos) linarith
  with False assms smoothComponent_gap [of alpha cur tgt] show ?thesis by simp
qed

lemma smoothComponent_iterate:
  assumes "1 / 512 \<le> alpha" "alpha \<le> 1" "gap cur tgt \<le> int n"
  shows "((\<lambda>c. smoothComponent c tgt alpha) ^^ n) cur = tgt"
  using assms(3)
proof (induction n arbitrary: cur)
  case 0
  have "gap cur tgt = 0" using 0 by (simp add: gap_def)
  then show ?case by simp
next
  case (Suc n)
  have "gap (smoothComponent cur tgt alpha) tgt \<le> int n"
  proof (cases "cur = tgt")
    case True
    then show ?thesis by (simp add: smoothComponent_snap gap_def snapColorDelta_def)
  next
    case False
    with smoothComponent_progress [OF assms(1,2) False] Suc.prems show ?thesis by simp
  qed
  from Suc.IH [OF this] show ?case by (simp add: funpow_Suc_right del: funpow.simps)
qed

text \<open>
  A static target is reached exactly, not only approached: with a time constant of at most
  ten seconds (the default is 40 ms), \<open>n\<close> ticks bring any two values at distance at most \<open>n\<close>
  together, and so 65535 ticks any two values.
\<close>

theorem smoothComponent_reaches:
  assumes "tau \<le> 10000 * millisecond" "gap cur tgt \<le> int n"
  shows "((\<lambda>c. smoothComponent c tgt (alphaForTau tau)) ^^ n) cur = tgt"
  using alphaForTau_lower [OF assms(1)] alphaForTau_bounds(2) assms(2) by (rule smoothComponent_iterate)

theorem smoothComponent_reaches_witness:
  "((\<lambda>c. smoothComponent c 65535 (alphaForTau DefaultSmoothTau)) ^^ 65535) 0 = 65535"
  by (rule smoothComponent_reaches) (simp_all add: DefaultSmoothTau_def millisecond_def gap_def)

text \<open>
  Beyond that range the snap zone does not catch every tail: with a time constant of more
  than \<open>2 * d\<close> send intervals a channel \<open>d\<close> away from its target never moves at all, for any
  distance \<open>d\<close> outside the snap zone (for one minute, every distance from 257 to 1499).
\<close>

theorem smoothComponent_stalls:
  assumes "snapColorDelta < gap cur tgt" "2 * gap cur tgt * sendInterval < tau"
  shows "((\<lambda>c. smoothComponent c tgt (alphaForTau tau)) ^^ n) cur = cur"
proof -
  let ?g = "real_of_int (gap cur tgt)" and ?a = "alphaForTau tau"
  have g: "0 < ?g" "0 < tau" using assms by (auto simp: snapColorDelta_def sendInterval_def millisecond_def)
  have "?a * ?g \<le> real_of_int sendInterval / real_of_int tau * ?g"
    using alphaForTau_upper [OF g(2)] g(1) by (intro mult_right_mono) auto
  also have "\<dots> < 1 / 2"
  proof -
    have "real_of_int (2 * gap cur tgt * sendInterval) < real_of_int tau"
      using assms(2) by (simp only: of_int_less_iff)
    with g show ?thesis by (simp add: field_simps)
  qed
  finally have less: "?a * ?g < 1 / 2" .
  moreover have "0 \<le> ?a * ?g" using alphaForTau_bounds(1) [of tau] g(1) by simp
  ultimately have "math_Round (?a * ?g) = 0" by (simp add: math_Round_def floor_eq_iff)
  moreover have "uint (smoothComponent cur tgt ?a) = uint cur + math_Round (?a * real_of_int (uint tgt - uint cur))"
    by (rule uint_smoothComponent [OF alphaForTau_bounds assms(1)])
  moreover have "\<bar>math_Round (?a * real_of_int (uint tgt - uint cur))\<bar> = math_Round (?a * ?g)"
  proof (cases "0 \<le> uint tgt - uint cur")
    case True
    then have "gap cur tgt = uint tgt - uint cur" by (simp add: gap_def)
    with \<open>math_Round (?a * ?g) = 0\<close> show ?thesis by (simp only: abs_zero)
  next
    case False
    then have "uint tgt - uint cur = - gap cur tgt" by (simp add: gap_def)
    then have "?a * real_of_int (uint tgt - uint cur) = - (?a * ?g)" by (simp only: of_int_minus mult_minus_right)
    then have "math_Round (?a * real_of_int (uint tgt - uint cur)) = 0"
      using \<open>math_Round (?a * ?g) = 0\<close> by (simp only: math_Round_neg minus_zero)
    with \<open>math_Round (?a * ?g) = 0\<close> show ?thesis by (simp only: abs_zero)
  qed
  ultimately have "smoothComponent cur tgt ?a = cur" by (simp add: word_uint_eq_iff)
  then show ?thesis by (induction n) simp_all
qed

theorem smoothComponent_stalls_witness:
  "((\<lambda>c. smoothComponent c 1000 (alphaForTau (60 * second))) ^^ 1000000) 0 = 0"
  by (rule smoothComponent_stalls) (simp_all add: gap_def snapColorDelta_def sendInterval_def
      millisecond_def second_def)

section \<open>The gated median filter\<close>

definition DefaultMedianThreshold :: int where
  "DefaultMedianThreshold = 8000"

definition medianComponent :: "u16 list \<Rightarrow> u16" where
  "medianComponent samples = (if samples = [] then 0 else sort samples ! (length samples div 2))"

text \<open>\<open>pick\<close>, the closure of \<open>gatedMedian\<close>, for one colour component.\<close>

definition pick :: "Channel list \<Rightarrow> u16 \<Rightarrow> (Channel \<Rightarrow> u16) \<Rightarrow> u16 \<Rightarrow> u16 \<times> bool" where
  "pick history threshold sel cur =
     (let med = medianComponent (map sel history);
          d = uint cur - uint med
      in if d > uint threshold \<or> d < - uint threshold then (med, True) else (cur, False))"

definition gatedMedian :: "Channel list \<Rightarrow> Channel \<Rightarrow> u16 \<Rightarrow> Channel \<times> bool" where
  "gatedMedian history newest threshold =
     (let (a, da) = pick history threshold ch_A (ch_A newest);
          (b, db) = pick history threshold ch_B (ch_B newest);
          (c, dc) = pick history threshold ch_C (ch_C newest)
      in (\<lparr>ch_ID = ch_ID newest, ch_A = a, ch_B = b, ch_C = c\<rparr>, da \<or> db \<or> dc))"

definition SetMedianFilter_window :: "int \<Rightarrow> int" where
  "SetMedianFilter_window window = (if window > 1 \<and> even window then window + 1 else window)"

lemma length_filter_sort: "length (filter P (sort xs)) = length (filter P xs)" for xs :: "u16 list"
proof -
  have "mset (filter P (sort xs)) = mset (filter P xs)" by (simp add: mset_filter)
  then show ?thesis by (rule mset_eq_length)
qed

lemma filter_prefix_length:
  assumes "i < length ys" "\<And>j. j \<le> i \<Longrightarrow> P (ys ! j)" shows "Suc i \<le> length (filter P ys)"
proof -
  have "filter P (take (Suc i) ys) = take (Suc i) ys"
    using assms by (intro filter_True) (auto simp: in_set_conv_nth)
  then have "length (filter P (take (Suc i) ys)) = Suc i" using assms(1) by simp
  moreover have "filter P ys = filter P (take (Suc i) ys) @ filter P (drop (Suc i) ys)"
    by (simp flip: filter_append)
  ultimately show ?thesis by simp
qed

lemma filter_suffix_length:
  assumes "\<And>j. i \<le> j \<Longrightarrow> j < length ys \<Longrightarrow> P (ys ! j)"
  shows "length ys - i \<le> length (filter P ys)"
proof -
  have "filter P (drop i ys) = drop i ys"
    using assms by (intro filter_True) (auto simp: in_set_conv_nth)
  then have "length (filter P (drop i ys)) = length ys - i" by simp
  moreover have "filter P ys = filter P (take i ys) @ filter P (drop i ys)"
    by (simp flip: filter_append)
  ultimately show ?thesis by simp
qed

text \<open>
  \<open>medianComponent\<close> returns a median: it is one of the samples, more than half of the samples
  are at most it and at least half of them are at least it.
\<close>

theorem medianComponent_median:
  assumes "samples \<noteq> []"
  shows "medianComponent samples \<in> set samples
     \<and> length samples < 2 * length (filter (\<lambda>s. s \<le> medianComponent samples) samples)
     \<and> length samples \<le> 2 * length (filter (\<lambda>s. medianComponent samples \<le> s) samples)"
proof -
  let ?ys = "sort samples" and ?i = "length samples div 2" and ?m = "medianComponent samples"
  have i: "?i < length ?ys" using assms by simp
  have m: "?m = ?ys ! ?i" using assms by (simp add: medianComponent_def)
  then have "?m \<in> set ?ys" using i by (simp del: set_sort)
  moreover have "Suc ?i \<le> length (filter (\<lambda>s. s \<le> ?m) ?ys)"
    using i by (intro filter_prefix_length) (simp_all add: m sorted_nth_mono)
  moreover have "length ?ys - ?i \<le> length (filter (\<lambda>s. ?m \<le> s) ?ys)"
    by (intro filter_suffix_length) (simp add: m sorted_nth_mono)
  ultimately have "?m \<in> set samples"
    "Suc ?i \<le> length (filter (\<lambda>s. s \<le> ?m) samples)"
    "length samples - ?i \<le> length (filter (\<lambda>s. ?m \<le> s) samples)"
    by (simp_all add: length_filter_sort)
  then show ?thesis by (intro conjI) (assumption, arith+)
qed

theorem medianComponent_median_witness:
  "medianComponent [7, 60000, 9] = 9 \<and> medianComponent [7, 60000, 9] \<in> set [7, 60000, 9]"
  using medianComponent_median [of "[7, 60000, 9]"] by (simp add: medianComponent_def)

lemma medianComponent_mem: "samples \<noteq> [] \<Longrightarrow> medianComponent samples \<in> set samples"
  unfolding medianComponent_def by (metis div_less_dividend length_greater_0_conv length_sort
    nth_mem one_less_numeral_iff semiring_norm(76) set_sort)

lemma medianComponent_majority:
  assumes maj: "length samples < 2 * length (filter (\<lambda>s. s = v) samples)"
  shows "medianComponent samples = v"
proof (rule ccontr)
  let ?m = "medianComponent samples" and ?ys = "sort samples" and ?i = "length samples div 2"
  assume ne: "?m \<noteq> v"
  have nonempty: "samples \<noteq> []" using maj by auto
  then have i: "?i < length ?ys" and m: "?m = ?ys ! ?i" by (simp_all add: medianComponent_def)
  have bound: "length (filter (\<lambda>s. s = v) samples) + length (filter P samples) \<le> length samples"
    if "\<And>s. P s \<Longrightarrow> s \<noteq> v" for P
  proof -
    have "length (filter P samples) \<le> length (filter (\<lambda>s. \<not> s = v) samples)"
      by (rule length_filter_mono) (use that in auto)
    then show ?thesis using sum_length_filter_compl [of "\<lambda>s. s = v" samples] by simp
  qed
  show False
  proof (cases "v < ?m")
    case True
    have "length ?ys - ?i \<le> length (filter (\<lambda>s. ?m \<le> s) ?ys)"
      by (intro filter_suffix_length) (simp add: m sorted_nth_mono)
    then have "length samples - ?i \<le> length (filter (\<lambda>s. ?m \<le> s) samples)"
      by (simp add: length_filter_sort)
    moreover have "length (filter (\<lambda>s. s = v) samples) + length (filter (\<lambda>s. ?m \<le> s) samples)
        \<le> length samples" using True by (intro bound) auto
    ultimately show False using maj by arith
  next
    case False
    then have "?m < v" using ne by simp
    have "Suc ?i \<le> length (filter (\<lambda>s. s \<le> ?m) ?ys)"
      using i by (intro filter_prefix_length) (simp_all add: m sorted_nth_mono)
    then have "Suc ?i \<le> length (filter (\<lambda>s. s \<le> ?m) samples)" by (simp add: length_filter_sort)
    moreover have "length (filter (\<lambda>s. s = v) samples) + length (filter (\<lambda>s. s \<le> ?m) samples)
        \<le> length samples" using \<open>?m < v\<close> by (intro bound) auto
    ultimately show False using maj by arith
  qed
qed

text \<open>The component that leaves the gate is never further than the threshold from the median.\<close>

lemma pick_within:
  "\<bar>uint (fst (pick history threshold sel cur)) - uint (medianComponent (map sel history))\<bar> \<le> uint threshold"
  by (auto simp: pick_def Let_def)

lemma pick_verbatim:
  assumes "history \<noteq> []" "\<And>h. h \<in> set history \<Longrightarrow> \<bar>uint cur - uint (sel h)\<bar> \<le> uint threshold"
  shows "pick history threshold sel cur = (cur, False)"
proof -
  have "medianComponent (map sel history) \<in> sel ` set history"
    using medianComponent_mem [of "map sel history"] assms(1) by simp
  then have "\<bar>uint cur - uint (medianComponent (map sel history))\<bar> \<le> uint threshold"
    using assms(2) by auto
  then show ?thesis by (auto simp: pick_def Let_def)
qed

lemma pick_spike:
  assumes "length history < 2 * length (filter (\<lambda>h. sel h = v) history)"
    "\<bar>uint cur - uint v\<bar> > uint threshold"
  shows "pick history threshold sel cur = (v, True)"
proof -
  have "length (map sel history) < 2 * length (filter (\<lambda>s. s = v) (map sel history))"
    using assms(1) by (simp add: filter_map o_def)
  then have "medianComponent (map sel history) = v" by (rule medianComponent_majority)
  with assms(2) show ?thesis by (auto simp: pick_def Let_def)
qed

text \<open>
  Content that stays within the threshold passes the filter unchanged: if no recent sample
  is further than the threshold from the newest one in any component, the newest channel is
  returned verbatim and no suppression is counted.
\<close>

theorem gatedMedian_verbatim:
  assumes "history \<noteq> []"
    and "\<forall>h \<in> set history. \<bar>uint (ch_A newest) - uint (ch_A h)\<bar> \<le> uint threshold
           \<and> \<bar>uint (ch_B newest) - uint (ch_B h)\<bar> \<le> uint threshold
           \<and> \<bar>uint (ch_C newest) - uint (ch_C h)\<bar> \<le> uint threshold"
  shows "gatedMedian history newest threshold = (newest, False)"
proof -
  have "pick history threshold ch_A (ch_A newest) = (ch_A newest, False)"
    "pick history threshold ch_B (ch_B newest) = (ch_B newest, False)"
    "pick history threshold ch_C (ch_C newest) = (ch_C newest, False)"
    using assms by (auto intro!: pick_verbatim)
  then show ?thesis by (simp add: gatedMedian_def)
qed

theorem gatedMedian_verbatim_witness:
  "gatedMedian [\<lparr>ch_ID = 1, ch_A = 100, ch_B = 200, ch_C = 300\<rparr>, \<lparr>ch_ID = 1, ch_A = 5000, ch_B = 0, ch_C = 8000\<rparr>]
     \<lparr>ch_ID = 1, ch_A = 5000, ch_B = 0, ch_C = 8000\<rparr> 8000
   = (\<lparr>ch_ID = 1, ch_A = 5000, ch_B = 0, ch_C = 8000\<rparr>, False)"
  by (rule gatedMedian_verbatim) simp_all

text \<open>
  A crass spike in any component is replaced by the value the majority of the window had: the
  filter drops it and reports the suppression.
\<close>

theorem gatedMedian_drops_spike:
  assumes "length history < 2 * length (filter (\<lambda>h. ch_A h = a \<and> ch_B h = b \<and> ch_C h = c) history)"
    and "\<bar>uint (ch_A newest) - uint a\<bar> > uint threshold"
    and "\<bar>uint (ch_B newest) - uint b\<bar> > uint threshold"
    and "\<bar>uint (ch_C newest) - uint c\<bar> > uint threshold"
  shows "gatedMedian history newest threshold
     = (\<lparr>ch_ID = ch_ID newest, ch_A = a, ch_B = b, ch_C = c\<rparr>, True)"
proof -
  have maj: "length history < 2 * length (filter P history)"
    if "\<And>h. ch_A h = a \<and> ch_B h = b \<and> ch_C h = c \<Longrightarrow> P h" for P
    by (rule less_le_trans [OF assms(1)]) (auto intro!: length_filter_mono that)
  have "pick history threshold ch_A (ch_A newest) = (a, True)"
    "pick history threshold ch_B (ch_B newest) = (b, True)"
    "pick history threshold ch_C (ch_C newest) = (c, True)"
    using assms(2-4) by (auto intro!: pick_spike maj)
  then show ?thesis by (simp add: gatedMedian_def)
qed

theorem gatedMedian_drops_spike_witness:
  "gatedMedian [\<lparr>ch_ID = 4, ch_A = 10, ch_B = 20, ch_C = 30\<rparr>, \<lparr>ch_ID = 4, ch_A = 10, ch_B = 20, ch_C = 30\<rparr>,
       \<lparr>ch_ID = 4, ch_A = 60000, ch_B = 60000, ch_C = 60000\<rparr>]
     \<lparr>ch_ID = 4, ch_A = 60000, ch_B = 60000, ch_C = 60000\<rparr> 8000
   = (\<lparr>ch_ID = 4, ch_A = 10, ch_B = 20, ch_C = 30\<rparr>, True)"
  using gatedMedian_drops_spike [where a = 10 and b = 20 and c = 30 and threshold = 8000
    and newest = "\<lparr>ch_ID = 4, ch_A = 60000, ch_B = 60000, ch_C = 60000\<rparr>"
    and history = "[\<lparr>ch_ID = 4, ch_A = 10, ch_B = 20, ch_C = 30\<rparr>, \<lparr>ch_ID = 4, ch_A = 10, ch_B = 20, ch_C = 30\<rparr>,
       \<lparr>ch_ID = 4, ch_A = 60000, ch_B = 60000, ch_C = 60000\<rparr>]"]
  by simp

lemma SetMedianFilter_window_odd: "1 < window \<Longrightarrow> odd (SetMedianFilter_window window)"
  by (simp add: SetMedianFilter_window_def)

end
