(* ===== verification/JsonDecode.thy ===== *)
theory JsonDecode
  imports GoStrings
begin

text \<open>
  What \<open>encoding/json\<close> does when it decodes a JSON value into the structs of the program: member
  names match case-insensitively, a missing member or \<open>null\<close> leaves the zero value, a value of
  another JSON type is an error (\<open>None\<close>), a pointer field is nil exactly when the member is
  missing or \<open>null\<close>.  Numbers are the reals they denote, so an integer field accepts \<open>3\<close> however
  it was written; of several members with one name the last counts.
\<close>

fun jfield :: "obj \<Rightarrow> string \<Rightarrow> gval" where
  "jfield [] name = GNil"
| "jfield ((k, v) # o') name =
     (if EqualFold k name \<and> \<not> list_ex (\<lambda>(k', _). EqualFold k' name) o' then v
      else jfield o' name)"

definition dec_string :: "gval \<Rightarrow> string option" where
  "dec_string v = (case v of GNil \<Rightarrow> Some [] | GStr s \<Rightarrow> Some s | _ \<Rightarrow> None)"

definition dec_bool :: "gval \<Rightarrow> bool option" where
  "dec_bool v = (case v of GNil \<Rightarrow> Some False | GBool b \<Rightarrow> Some b | _ \<Rightarrow> None)"

definition dec_float :: "gval \<Rightarrow> real option" where
  "dec_float v = (case v of GNil \<Rightarrow> Some 0 | GFloat x \<Rightarrow> Some x | _ \<Rightarrow> None)"

definition dec_int :: "gval \<Rightarrow> int option" where
  "dec_int v = (case v of GNil \<Rightarrow> Some 0
     | GFloat x \<Rightarrow> if x = of_int \<lfloor>x\<rfloor> \<and> int_in_range \<lfloor>x\<rfloor> then Some \<lfloor>x\<rfloor> else None
     | _ \<Rightarrow> None)"

text \<open>A struct: an object, or \<open>null\<close> for the zero struct.\<close>

definition dec_struct :: "(obj \<Rightarrow> 'a option) \<Rightarrow> gval \<Rightarrow> 'a option" where
  "dec_struct f v = (case v of GNil \<Rightarrow> f [] | GObj o' \<Rightarrow> f o' | _ \<Rightarrow> None)"

definition dec_ptr :: "(gval \<Rightarrow> 'a option) \<Rightarrow> gval \<Rightarrow> 'a option option" where
  "dec_ptr f v = (case v of GNil \<Rightarrow> Some None | _ \<Rightarrow> map_option Some (f v))"

fun dec_all :: "(gval \<Rightarrow> 'a option) \<Rightarrow> gval list \<Rightarrow> 'a list option" where
  "dec_all f [] = Some []"
| "dec_all f (v # vs) =
     (case f v of None \<Rightarrow> None
      | Some x \<Rightarrow> (case dec_all f vs of None \<Rightarrow> None | Some xs \<Rightarrow> Some (x # xs)))"

definition dec_slice :: "(gval \<Rightarrow> 'a option) \<Rightarrow> gval \<Rightarrow> 'a list option" where
  "dec_slice f v = (case v of GNil \<Rightarrow> Some [] | GArr vs \<Rightarrow> dec_all f vs | _ \<Rightarrow> None)"

lemmas dec_defs = dec_string_def dec_bool_def dec_float_def dec_int_def dec_struct_def dec_ptr_def
  dec_slice_def

lemma dec_all_length: "dec_all f vs = Some xs \<Longrightarrow> length xs = length vs"
  by (induction vs arbitrary: xs) (auto split: option.splits)

lemma dec_all_map: "(\<And>x. x \<in> set xs \<Longrightarrow> f (g x) = Some x) \<Longrightarrow> dec_all f (map g xs) = Some xs"
  by (induction xs) auto

text \<open>A decode error in any element is an error of the whole array.\<close>

lemma dec_all_None: "dec_all f vs = None \<longleftrightarrow> (\<exists>v \<in> set vs. f v = None)"
  by (induction vs) (auto split: option.splits)

lemma jfield_missing: "\<not> list_ex (\<lambda>(k, _). EqualFold k name) o' \<Longrightarrow> jfield o' name = GNil"
  by (induction o') auto

section \<open>Maps and encoded structs\<close>

text \<open>A Go map: every member of the object is stored under its exact name, the last one counts.\<close>

fun dec_entries :: "(gval \<Rightarrow> 'a option) \<Rightarrow> obj \<Rightarrow> (string, 'a) gomap \<Rightarrow> (string, 'a) gomap option" where
  "dec_entries f [] m = Some m"
| "dec_entries f ((k, v) # o') m =
     (case f v of None \<Rightarrow> None | Some x \<Rightarrow> dec_entries f o' (mput k x m))"

definition dec_map :: "(gval \<Rightarrow> 'a option) \<Rightarrow> gval \<Rightarrow> (string, 'a) gomap option" where
  "dec_map f v = (case v of GNil \<Rightarrow> Some [] | GObj o' \<Rightarrow> dec_entries f o' [] | _ \<Rightarrow> None)"

definition bind_opt :: "'a option \<Rightarrow> ('a \<Rightarrow> 'b option) \<Rightarrow> 'b option" where
  "bind_opt x f = (case x of None \<Rightarrow> None | Some y \<Rightarrow> f y)"

lemma bind_opt_simps [simp]: "bind_opt None f = None" "bind_opt (Some x) f = f x"
  by (simp_all add: bind_opt_def)

lemma bind_opt_Some: "bind_opt x f = Some y \<longleftrightarrow> (\<exists>z. x = Some z \<and> f z = Some y)"
  by (cases x) auto

text \<open>A member with \<open>omitempty\<close>.\<close>

definition opt_str :: "string \<Rightarrow> string \<Rightarrow> obj" where
  "opt_str k s = (if s = [] then [] else [(k, GStr s)])"

lemma mput_new: "k \<notin> set (mkeys m) \<Longrightarrow> mput k v m = m @ [(k, v)]"
  by (induction m) auto

lemma dec_entries_map:
  assumes "\<And>k x. (k, x) \<in> set m \<Longrightarrow> f (g x) = Some x"
  shows "distinct (mkeys (acc @ m)) \<Longrightarrow> dec_entries f (map (\<lambda>(k, x). (k, g x)) m) acc = Some (acc @ m)"
  using assms
proof (induction m arbitrary: acc)
  case (Cons a m)
  obtain k x where a: "a = (k, x)" by fastforce
  have "k \<notin> set (mkeys acc)" using Cons.prems(1) a by auto
  moreover have "dec_entries f (map (\<lambda>(k, x). (k, g x)) m) (acc @ [(k, x)]) = Some ((acc @ [(k, x)]) @ m)"
    using Cons.prems a by (intro Cons.IH) auto
  ultimately show ?case using Cons.prems(2) [of k x] a by (simp add: mput_new)
qed simp

lemma jfield_append:
  "jfield (a @ b) n = (if list_ex (\<lambda>(k, _). EqualFold k n) b then jfield b n else jfield a n)"
proof (induction a)
  case Nil
  then show ?case using jfield_missing [of n b] by auto
next
  case (Cons p a)
  then show ?case by (cases p) (auto simp: list_ex_iff)
qed

lemma jfield_opt_str: "jfield (opt_str k s) n = (if EqualFold k n \<and> s \<noteq> [] then GStr s else GNil)"
  by (simp add: opt_str_def)

lemma list_ex_opt_str [simp]: "list_ex (\<lambda>(k', _). EqualFold k' n) (opt_str k s) \<longleftrightarrow> s \<noteq> [] \<and> EqualFold k n"
  by (simp add: opt_str_def)

lemma dec_string_opt [simp]: "dec_string (if b \<and> s \<noteq> [] then GStr s else GNil) = Some (if b then s else [])"
  by (auto simp: dec_string_def)

end
