(* ===== verification/Netutil.thy ===== *)
theory Netutil
  imports GoStrings
begin

text \<open>
  Network helpers (\<open>internal/netutil/netutil.go\<close>): the host's interfaces are a list of records as
  \<open>net.Interfaces\<close> returns them (\<open>None\<close> when the call fails), IPv4 addresses are four bytes.  IPv6
  text is not parsed: an IPv6 advertise IP has no interface in the model.
\<close>

record Interface =
  if_Index :: int
  if_Name :: string
  if_HardwareAddr :: "nat list"
  if_FlagUp :: bool
  if_FlagLoopback :: bool
  if_FlagMulticast :: bool
  if_Addrs :: "(u8 list \<times> u8 list) list option"

section \<open>IPv4 text\<close>

text \<open>\<open>net.ParseIP\<close> on a dotted quad: four decimal fields without leading zeros, each below 256.\<close>

fun split_char :: "char \<Rightarrow> string \<Rightarrow> string list" where
  "split_char a [] = [[]]"
| "split_char a (x # s) =
     (if x = a then [] # split_char a s
      else (case split_char a s of [] \<Rightarrow> [[x]] | l # ls \<Rightarrow> (x # l) # ls))"

definition ip_field :: "string \<Rightarrow> u8 option" where
  "ip_field s = (case atoi_digits s of None \<Rightarrow> None
     | Some n \<Rightarrow> if n < 256 \<and> length s \<le> 3 \<and> (length s = 1 \<or> hd s \<noteq> CHR ''0'') then Some (of_nat n) else None)"

definition ParseIPv4 :: "string \<Rightarrow> u8 list option" where
  "ParseIPv4 s = (let fs = map ip_field (split_char (CHR ''.'') s) in
     if length fs = 4 \<and> None \<notin> set fs then Some (map the fs) else None)"

definition IPv4_String :: "u8 list \<Rightarrow> string" where
  "IPv4_String ip = str_Join (map (\<lambda>b. itoa_nat (unat b)) ip) ''.''"

section \<open>Interfaces\<close>

definition carries :: "Interface \<Rightarrow> u8 list \<Rightarrow> bool" where
  "carries i target \<longleftrightarrow> (case if_Addrs i of None \<Rightarrow> False | Some as \<Rightarrow> list_ex (\<lambda>(ip, _). ip = target) as)"

definition InterfaceForIP :: "Interface list option \<Rightarrow> string \<Rightarrow> Interface option" where
  "InterfaceForIP ifaces ip =
     (case ParseIPv4 ip of None \<Rightarrow> None
      | Some target \<Rightarrow>
          (case ifaces of None \<Rightarrow> None
           | Some is \<Rightarrow> find (\<lambda>i. if_FlagMulticast i \<and> if_FlagUp i \<and> carries i target) is))"

definition virtualPrefixes :: "string list" where
  "virtualPrefixes = [''lo'', ''docker'', ''veth'', ''br-'', ''virbr'', ''tun'', ''tap'', ''wg'',
     ''tailscale'', ''utun'']"

definition isVirtualName :: "string \<Rightarrow> bool" where
  "isVirtualName name \<longleftrightarrow> list_ex (\<lambda>p. length name \<ge> length p \<and> take (length p) name = p) virtualPrefixes"

definition mac_candidate :: "Interface \<Rightarrow> bool" where
  "mac_candidate f \<longleftrightarrow> \<not> (\<not> if_FlagUp f \<or> if_FlagLoopback f \<or> length (if_HardwareAddr f) \<noteq> 6) \<and> \<not> isVirtualName (if_Name f)"

fun best_mac :: "Interface option \<Rightarrow> Interface list \<Rightarrow> Interface option" where
  "best_mac best [] = best"
| "best_mac best (f # fs) =
     (if \<not> mac_candidate f then best_mac best fs
      else case best of
        None \<Rightarrow> best_mac (Some f) fs
      | Some b \<Rightarrow> if if_Index f < if_Index b then best_mac (Some f) fs else best_mac best fs)"

definition primaryMAC :: "Interface list \<Rightarrow> nat list option" where
  "primaryMAC ifaces = map_option if_HardwareAddr (best_mac None ifaces)"

definition PrimaryMAC :: "Interface list option \<Rightarrow> nat list option" where
  "PrimaryMAC ifaces = (case ifaces of None \<Rightarrow> None | Some is \<Rightarrow> primaryMAC is)"

lemma best_mac_Some:
  "best_mac (Some b) fs = Some r \<Longrightarrow> (r = b \<or> r \<in> set fs \<and> mac_candidate r) \<and> if_Index r \<le> if_Index b
     \<and> (\<forall>f \<in> set fs. mac_candidate f \<longrightarrow> if_Index r \<le> if_Index f)"
proof (induction fs arbitrary: b)
  case (Cons f fs)
  show ?case
  proof (cases "mac_candidate f \<and> if_Index f < if_Index b")
    case True
    with Cons.prems Cons.IH [of f] show ?thesis by force
  next
    case False
    with Cons.prems Cons.IH [of b] show ?thesis by (force split: if_splits)
  qed
qed simp

lemma best_mac_None_iff [simp]: "best_mac (Some b) fs \<noteq> None"
  by (induction fs arbitrary: b) auto

text \<open>The primary MAC belongs to an eligible interface of lowest index, and exists when one does.\<close>

lemma best_mac_None:
  "best_mac None fs = None \<longleftrightarrow> (\<forall>f \<in> set fs. \<not> mac_candidate f)"
  by (induction fs) auto

lemma best_mac_lowest:
  "best_mac None fs = Some r \<Longrightarrow> r \<in> set fs \<and> mac_candidate r \<and> (\<forall>f \<in> set fs. mac_candidate f \<longrightarrow> if_Index r \<le> if_Index f)"
proof (induction fs)
  case (Cons f fs)
  show ?case
  proof (cases "mac_candidate f")
    case True
    with Cons.prems best_mac_Some [of f fs r] show ?thesis by auto
  qed (use Cons in auto)
qed simp

lemma primaryMAC_length: "primaryMAC fs = Some mac \<Longrightarrow> length mac = 6"
  using best_mac_lowest by (fastforce simp: primaryMAC_def mac_candidate_def)

section \<open>The mDNS library's log\<close>

datatype log_level = LevelDebug | LevelInfo | LevelWarn | LevelError

definition TrimRightNL :: "string \<Rightarrow> string" where
  "TrimRightNL s = rev (dropWhile (\<lambda>c. c = char_of (10 :: nat)) (rev s))"

text \<open>What \<open>mdnsLogFilter.Write\<close> forwards: nothing, or the line at a level.\<close>

definition mdnsLogFilter_Write :: "string \<Rightarrow> (log_level \<times> string) option" where
  "mdnsLogFilter_Write p = (let line = TrimRightNL p in
     if Contains line ''Closing client'' then None
     else if Contains line ''Failed to bind'' then Some (LevelWarn, line)
     else Some (LevelDebug, line))"

end
