(* ===== verification/ConfigStore.thy ===== *)
theory ConfigStore
  imports JsonDecode Netutil Systems
begin

text \<open>
  The persistent state (\<open>internal/config/config.go\<close>): the fake bridge's identity, the paired TV
  clients, the Hue Bridge Pro pairing, and when they reach the disk.

  The file is \<open>file_state\<close>: absent, unreadable, or the JSON value its bytes decode to.  Writing it is
  \<open>fsx.WriteFileAtomic\<close>, which is not part of the repository: a parameter \<open>write\<close> of the operations
  that save, with the documented behaviour \<open>atomic_writes\<close> as a hypothesis where it matters.  The host
  MAC and the random bytes are arguments too.  Strings are valid UTF-8 (all of them come from decoded
  JSON), and a paired client is never the \<open>null\<close> only a hand-edited file could hold.
\<close>

section \<open>Identity\<close>

record Identity =
  id_Serial :: string

fun pairs_of :: "string \<Rightarrow> string list" where
  "pairs_of (a # b # s) = [a, b] # pairs_of s"
| "pairs_of _ = []"

definition MAC :: "Identity \<Rightarrow> string" where
  "MAC i = str_Join (pairs_of (id_Serial i)) '':''"

text \<open>\<open>s[:6]\<close> panics on a shorter serial: \<open>None\<close>.\<close>

definition BridgeID :: "Identity \<Rightarrow> string option" where
  "BridgeID i = (let s = id_Serial i in
     if length s < 6 then None else Some (ToUpper (take 6 s @ ''fffe'' @ drop 6 s)))"

definition UUID :: "Identity \<Rightarrow> string" where
  "UUID i = ''2f402f80-da50-11e1-9b23-'' @ id_Serial i"

definition generateSerial :: "nat list option \<Rightarrow> string option" where
  "generateSerial rnd = map_option hex_EncodeToString rnd"

definition deriveSerial :: "nat list option \<Rightarrow> nat list option \<Rightarrow> string option" where
  "deriveSerial mac rnd =
     (case mac of Some m \<Rightarrow> if length m = 6 then Some (hex_EncodeToString m) else generateSerial rnd
      | None \<Rightarrow> generateSerial rnd)"

section \<open>The stored data\<close>

record APIUser =
  au_Username :: string
  au_DeviceType :: string
  au_ClientKey :: string

record BridgePro =
  bp_Host :: string
  bp_AppKey :: string
  bp_ClientKey :: string
  bp_CertSHA256 :: string
  bp_SkipTLSVerify :: bool
  bp_Name :: string
  bp_BridgeID :: string
  bp_DiscoveryID :: string

definition zero_BridgePro :: BridgePro where
  "zero_BridgePro = \<lparr>bp_Host = [], bp_AppKey = [], bp_ClientKey = [], bp_CertSHA256 = [],
     bp_SkipTLSVerify = False, bp_Name = [], bp_BridgeID = [], bp_DiscoveryID = []\<rparr>"

text \<open>The log attributes of a Pro: name and id when known, always the host.\<close>

definition BridgePro_LogValue :: "BridgePro option \<Rightarrow> (string \<times> string) list" where
  "BridgePro_LogValue p =
     (case p of None \<Rightarrow> [(''pro'', ''<none>'')]
      | Some q \<Rightarrow> (if bp_Name q \<noteq> [] then [(''name'', bp_Name q)] else [])
          @ (if bp_BridgeID q \<noteq> [] then [(''id'', bp_BridgeID q)] else [])
          @ [(''host'', bp_Host q)])"

definition CurrentSchemaVersion :: int where
  "CurrentSchemaVersion = 1"

record Config =
  cf_SchemaVersion :: int
  cf_Identity :: Identity
  cf_APIUsers :: "(string, APIUser) gomap"
  cf_Pro :: "BridgePro option"
  cf_EntConfigID :: string
  cf_path :: string
  cf_persist :: bool
  cf_firstRun :: bool

section \<open>The JSON form\<close>

text \<open>What \<open>json.MarshalIndent\<close> writes, as the value the text decodes to.\<close>

definition enc_user :: "APIUser \<Rightarrow> gval" where
  "enc_user u = GObj ([(''username'', GStr (au_Username u)), (''deviceType'', GStr (au_DeviceType u))]
     @ opt_str ''clientKey'' (au_ClientKey u))"

definition enc_pro :: "BridgePro \<Rightarrow> gval" where
  "enc_pro p = GObj ([(''host'', GStr (bp_Host p)), (''appKey'', GStr (bp_AppKey p)),
       (''clientKey'', GStr (bp_ClientKey p))]
     @ opt_str ''certSha256'' (bp_CertSHA256 p)
     @ [(''skipTlsVerify'', GBool (bp_SkipTLSVerify p))]
     @ opt_str ''name'' (bp_Name p) @ opt_str ''bridgeId'' (bp_BridgeID p)
     @ opt_str ''discoveryId'' (bp_DiscoveryID p))"

definition enc_config :: "Config \<Rightarrow> gval" where
  "enc_config c = GObj ([(''schemaVersion'', GFloat (of_int (cf_SchemaVersion c))),
       (''identity'', GObj [(''serial'', GStr (id_Serial (cf_Identity c)))]),
       (''apiUsers'', GObj (map (\<lambda>(k, u). (k, enc_user u)) (cf_APIUsers c)))]
     @ (case cf_Pro c of None \<Rightarrow> [] | Some p \<Rightarrow> [(''bridgePro'', enc_pro p)])
     @ opt_str ''entConfigId'' (cf_EntConfigID c))"

definition dec_user :: "gval \<Rightarrow> APIUser option" where
  "dec_user = dec_struct (\<lambda>o'.
     bind_opt (dec_string (jfield o' ''username'')) (\<lambda>n.
     bind_opt (dec_string (jfield o' ''deviceType'')) (\<lambda>d.
     bind_opt (dec_string (jfield o' ''clientKey'')) (\<lambda>k.
       Some \<lparr>au_Username = n, au_DeviceType = d, au_ClientKey = k\<rparr>))))"

definition dec_pro :: "gval \<Rightarrow> BridgePro option" where
  "dec_pro = dec_struct (\<lambda>o'.
     bind_opt (dec_string (jfield o' ''host'')) (\<lambda>h.
     bind_opt (dec_string (jfield o' ''appKey'')) (\<lambda>a.
     bind_opt (dec_string (jfield o' ''clientKey'')) (\<lambda>k.
     bind_opt (dec_string (jfield o' ''certSha256'')) (\<lambda>f.
     bind_opt (dec_bool (jfield o' ''skipTlsVerify'')) (\<lambda>b.
     bind_opt (dec_string (jfield o' ''name'')) (\<lambda>n.
     bind_opt (dec_string (jfield o' ''bridgeId'')) (\<lambda>i.
     bind_opt (dec_string (jfield o' ''discoveryId'')) (\<lambda>d.
       Some \<lparr>bp_Host = h, bp_AppKey = a, bp_ClientKey = k, bp_CertSHA256 = f, bp_SkipTLSVerify = b,
             bp_Name = n, bp_BridgeID = i, bp_DiscoveryID = d\<rparr>)))))))))"

definition dec_identity :: "gval \<Rightarrow> Identity option" where
  "dec_identity = dec_struct (\<lambda>o'. bind_opt (dec_string (jfield o' ''serial'')) (\<lambda>s. Some \<lparr>id_Serial = s\<rparr>))"

definition dec_config :: "string \<Rightarrow> gval \<Rightarrow> Config option" where
  "dec_config path = dec_struct (\<lambda>o'.
     bind_opt (dec_int (jfield o' ''schemaVersion'')) (\<lambda>v.
     bind_opt (dec_identity (jfield o' ''identity'')) (\<lambda>i.
     bind_opt (dec_map dec_user (jfield o' ''apiUsers'')) (\<lambda>us.
     bind_opt (dec_ptr dec_pro (jfield o' ''bridgePro'')) (\<lambda>p.
     bind_opt (dec_string (jfield o' ''entConfigId'')) (\<lambda>e.
       Some \<lparr>cf_SchemaVersion = v, cf_Identity = i, cf_APIUsers = us, cf_Pro = p,
             cf_EntConfigID = e, cf_path = path, cf_persist = False, cf_firstRun = False\<rparr>))))))"

text \<open>The member names are pairwise different, also up to case.\<close>

lemma config_names [simp]:
  "\<not> EqualFold ''username'' ''deviceType''" "\<not> EqualFold ''username'' ''clientKey''"
  "\<not> EqualFold ''deviceType'' ''username''" "\<not> EqualFold ''deviceType'' ''clientKey''"
  "\<not> EqualFold ''clientKey'' ''username''" "\<not> EqualFold ''clientKey'' ''deviceType''"
  "\<not> EqualFold ''host'' ''appKey''" "\<not> EqualFold ''host'' ''clientKey''"
  "\<not> EqualFold ''host'' ''certSha256''" "\<not> EqualFold ''host'' ''skipTlsVerify''"
  "\<not> EqualFold ''host'' ''bridgeId''" "\<not> EqualFold ''host'' ''discoveryId''"
  "\<not> EqualFold ''appKey'' ''host''" "\<not> EqualFold ''appKey'' ''clientKey''"
  "\<not> EqualFold ''appKey'' ''certSha256''" "\<not> EqualFold ''appKey'' ''skipTlsVerify''"
  "\<not> EqualFold ''appKey'' ''name''" "\<not> EqualFold ''appKey'' ''bridgeId''"
  "\<not> EqualFold ''appKey'' ''discoveryId''" "\<not> EqualFold ''clientKey'' ''host''"
  "\<not> EqualFold ''clientKey'' ''appKey''" "\<not> EqualFold ''clientKey'' ''certSha256''"
  "\<not> EqualFold ''clientKey'' ''skipTlsVerify''" "\<not> EqualFold ''clientKey'' ''name''"
  "\<not> EqualFold ''clientKey'' ''bridgeId''" "\<not> EqualFold ''clientKey'' ''discoveryId''"
  "\<not> EqualFold ''certSha256'' ''host''" "\<not> EqualFold ''certSha256'' ''appKey''"
  "\<not> EqualFold ''certSha256'' ''clientKey''"
  "\<not> EqualFold ''certSha256'' ''skipTlsVerify''" "\<not> EqualFold ''certSha256'' ''name''"
  "\<not> EqualFold ''certSha256'' ''bridgeId''" "\<not> EqualFold ''certSha256'' ''discoveryId''"
  "\<not> EqualFold ''skipTlsVerify'' ''host''" "\<not> EqualFold ''skipTlsVerify'' ''appKey''"
  "\<not> EqualFold ''skipTlsVerify'' ''clientKey''"
  "\<not> EqualFold ''skipTlsVerify'' ''certSha256''" "\<not> EqualFold ''skipTlsVerify'' ''name''"
  "\<not> EqualFold ''skipTlsVerify'' ''bridgeId''"
  "\<not> EqualFold ''skipTlsVerify'' ''discoveryId''" "\<not> EqualFold ''name'' ''appKey''"
  "\<not> EqualFold ''name'' ''clientKey''" "\<not> EqualFold ''name'' ''certSha256''"
  "\<not> EqualFold ''name'' ''skipTlsVerify''" "\<not> EqualFold ''name'' ''bridgeId''"
  "\<not> EqualFold ''name'' ''discoveryId''" "\<not> EqualFold ''bridgeId'' ''host''"
  "\<not> EqualFold ''bridgeId'' ''appKey''" "\<not> EqualFold ''bridgeId'' ''clientKey''"
  "\<not> EqualFold ''bridgeId'' ''certSha256''" "\<not> EqualFold ''bridgeId'' ''skipTlsVerify''"
  "\<not> EqualFold ''bridgeId'' ''name''" "\<not> EqualFold ''bridgeId'' ''discoveryId''"
  "\<not> EqualFold ''discoveryId'' ''host''" "\<not> EqualFold ''discoveryId'' ''appKey''"
  "\<not> EqualFold ''discoveryId'' ''clientKey''" "\<not> EqualFold ''discoveryId'' ''certSha256''"
  "\<not> EqualFold ''discoveryId'' ''skipTlsVerify''" "\<not> EqualFold ''discoveryId'' ''name''"
  "\<not> EqualFold ''discoveryId'' ''bridgeId''" "\<not> EqualFold ''schemaVersion'' ''identity''"
  "\<not> EqualFold ''schemaVersion'' ''apiUsers''"
  "\<not> EqualFold ''schemaVersion'' ''bridgePro''"
  "\<not> EqualFold ''schemaVersion'' ''entConfigId''"
  "\<not> EqualFold ''identity'' ''schemaVersion''" "\<not> EqualFold ''identity'' ''bridgePro''"
  "\<not> EqualFold ''identity'' ''entConfigId''" "\<not> EqualFold ''apiUsers'' ''schemaVersion''"
  "\<not> EqualFold ''apiUsers'' ''bridgePro''" "\<not> EqualFold ''apiUsers'' ''entConfigId''"
  "\<not> EqualFold ''bridgePro'' ''schemaVersion''" "\<not> EqualFold ''bridgePro'' ''identity''"
  "\<not> EqualFold ''bridgePro'' ''apiUsers''" "\<not> EqualFold ''bridgePro'' ''entConfigId''"
  "\<not> EqualFold ''entConfigId'' ''schemaVersion''"
  "\<not> EqualFold ''entConfigId'' ''identity''" "\<not> EqualFold ''entConfigId'' ''apiUsers''"
  "\<not> EqualFold ''entConfigId'' ''bridgePro''"
  by (simp_all add: EqualFold_length)

lemma config_names_same_length [simp]:
  "\<not> EqualFold ''host'' ''name''" "\<not> EqualFold ''name'' ''host''"
  "\<not> EqualFold ''identity'' ''apiUsers''" "\<not> EqualFold ''apiUsers'' ''identity''"
  by code_simp+

lemma dec_ptr_GNil [simp]: "dec_ptr f GNil = Some None"
  by (simp add: dec_ptr_def)

lemma dec_string_GStr [simp]: "dec_string (GStr s) = Some s" "dec_string GNil = Some []"
  by (simp_all add: dec_string_def)

lemma dec_bool_GBool [simp]: "dec_bool (GBool b) = Some b"
  by (simp add: dec_bool_def)

lemma dec_user_enc [simp]: "dec_user (enc_user u) = Some u"
  by (cases "au_ClientKey u = []")
    (simp_all add: dec_user_def enc_user_def dec_struct_def opt_str_def)

lemma dec_pro_enc [simp]: "dec_pro (enc_pro p) = Some p"
proof -
  let ?o = "[(''host'', GStr (bp_Host p)), (''appKey'', GStr (bp_AppKey p)), (''clientKey'', GStr (bp_ClientKey p))]
     @ opt_str ''certSha256'' (bp_CertSHA256 p) @ [(''skipTlsVerify'', GBool (bp_SkipTLSVerify p))]
     @ opt_str ''name'' (bp_Name p) @ opt_str ''bridgeId'' (bp_BridgeID p)
     @ opt_str ''discoveryId'' (bp_DiscoveryID p)"
  have "dec_string (jfield ?o ''host'') = Some (bp_Host p)"
    "dec_string (jfield ?o ''appKey'') = Some (bp_AppKey p)"
    "dec_string (jfield ?o ''clientKey'') = Some (bp_ClientKey p)"
    "dec_string (jfield ?o ''certSha256'') = Some (bp_CertSHA256 p)"
    "dec_bool (jfield ?o ''skipTlsVerify'') = Some (bp_SkipTLSVerify p)"
    "dec_string (jfield ?o ''name'') = Some (bp_Name p)"
    "dec_string (jfield ?o ''bridgeId'') = Some (bp_BridgeID p)"
    "dec_string (jfield ?o ''discoveryId'') = Some (bp_DiscoveryID p)"
    by (simp_all add: jfield_append jfield_opt_str)
  then show ?thesis by (simp add: dec_pro_def enc_pro_def dec_struct_def)
qed

lemma dec_identity_enc: "dec_identity (GObj [(''serial'', GStr (id_Serial i))]) = Some i"
  by (simp add: dec_identity_def dec_struct_def)

lemma dec_int_GFloat: "int_in_range n \<Longrightarrow> dec_int (GFloat (of_int n)) = Some n"
  by (simp add: dec_int_def)

lemma dec_users_enc:
  "distinct (mkeys us) \<Longrightarrow> dec_map dec_user (GObj (map (\<lambda>(k, u). (k, enc_user u)) us)) = Some us"
  using dec_entries_map [of us dec_user enc_user "[]"] by (simp add: dec_map_def)

lemma dec_config_enc:
  assumes "int_in_range (cf_SchemaVersion c)" "gomap_ok (cf_APIUsers c)"
  shows "dec_config path (enc_config c) = Some (c\<lparr>cf_path := path, cf_persist := False, cf_firstRun := False\<rparr>)"
proof -
  note simps = dec_config_def enc_config_def dec_struct_def dec_int_GFloat dec_identity_enc dec_users_enc
    jfield_append jfield_opt_str
  have d: "distinct (mkeys (cf_APIUsers c))" using assms(2) by (simp add: gomap_ok_def)
  show ?thesis
  proof (cases "cf_Pro c")
    case None
    with d assms(1) show ?thesis by (simp add: simps)
  next
    case (Some p)
    have g: "\<exists>x. enc_pro p = GObj x" by (simp add: enc_pro_def)
    then have "dec_ptr dec_pro (enc_pro p) = Some (Some p)"
      using dec_pro_enc [of p] by (auto simp: dec_ptr_def simp del: dec_pro_enc)
    with Some d assms(1) show ?thesis by (simp add: simps)
  qed
qed

section \<open>Operations\<close>

datatype config_error = ErrSerial | ErrRead | ErrParse | ErrNewerSchema int | ErrWrite

datatype file_state = FileAbsent | FileUnreadable | File json_body

type_synonym writer = "gval \<Rightarrow> file_state \<Rightarrow> bool \<times> file_state"

text \<open>A write either succeeds, or fails and leaves the old or the new file, never a partial one.\<close>

definition atomic_writes :: "writer \<Rightarrow> bool" where
  "atomic_writes write \<longleftrightarrow>
     (\<forall>v f. write v f = (True, File (Some v)) \<or> write v f = (False, f) \<or> write v f = (False, File (Some v)))"

text \<open>The temporary files of a crashed save: the names \<open>removeTempFiles\<close> deletes next to \<open>base\<close>.\<close>

definition is_temp_name :: "string \<Rightarrow> string \<Rightarrow> bool" where
  "is_temp_name base n \<longleftrightarrow> n = base @ ''.tmp'' \<or> HasPrefix n (''.'' @ base @ ''.tmp-'')"

definition removeTempFiles :: "string \<Rightarrow> string list \<Rightarrow> string list" where
  "removeTempFiles base names = filter (\<lambda>n. \<not> is_temp_name base n) names"

lemma removeTempFiles_keeps_config: "base \<in> set names \<Longrightarrow> base \<in> set (removeTempFiles base names)"
  by (auto simp: removeTempFiles_def is_temp_name_def HasPrefix_def dest: arg_cong [where f = length])

definition Load :: "string \<Rightarrow> file_state \<Rightarrow> nat list option \<Rightarrow> nat list option \<Rightarrow> config_error + Config" where
  "Load path file mac rnd =
     (case file of
        FileAbsent \<Rightarrow>
          (case deriveSerial mac rnd of
             None \<Rightarrow> Inl ErrSerial
           | Some serial \<Rightarrow>
               Inr \<lparr>cf_SchemaVersion = CurrentSchemaVersion, cf_Identity = \<lparr>id_Serial = serial\<rparr>,
                    cf_APIUsers = [], cf_Pro = None, cf_EntConfigID = [], cf_path = path,
                    cf_persist = False, cf_firstRun = True\<rparr>)
      | FileUnreadable \<Rightarrow> Inl ErrRead
      | File body \<Rightarrow>
          (case bind_opt body (dec_config path) of
             None \<Rightarrow> Inl ErrParse
           | Some c \<Rightarrow>
               if cf_SchemaVersion c > CurrentSchemaVersion then Inl (ErrNewerSchema (cf_SchemaVersion c))
               else Inr (c\<lparr>cf_persist := True\<rparr>)))"

definition save :: "writer \<Rightarrow> Config \<Rightarrow> file_state \<Rightarrow> config_error option \<times> file_state" where
  "save write c file =
     (if cf_path c = [] then (None, file)
      else if \<not> cf_persist c then (None, file)
      else (case write (enc_config c) file of (ok, file') \<Rightarrow> (if ok then None else Some ErrWrite, file')))"

text \<open>A mutating method changes the memory first and then saves; a failed save leaves the change.\<close>

type_synonym saved = "config_error option \<times> Config \<times> file_state"

definition saving :: "writer \<Rightarrow> Config \<Rightarrow> file_state \<Rightarrow> saved" where
  "saving write c file = (case save write c file of (err, file') \<Rightarrow> (err, c, file'))"

definition Commit :: "writer \<Rightarrow> Config \<Rightarrow> file_state \<Rightarrow> saved" where
  "Commit write c file = saving write (c\<lparr>cf_persist := True\<rparr>) file"

definition Committed :: "Config \<Rightarrow> bool" where
  "Committed c = cf_persist c"

definition FirstRun :: "Config \<Rightarrow> bool" where
  "FirstRun c = cf_firstRun c"

definition AddAPIUser :: "writer \<Rightarrow> APIUser \<Rightarrow> Config \<Rightarrow> file_state \<Rightarrow> saved" where
  "AddAPIUser write u c file = saving write (c\<lparr>cf_APIUsers := mput (au_Username u) u (cf_APIUsers c)\<rparr>) file"

definition PairedDeviceTypes :: "Config \<Rightarrow> string list" where
  "PairedDeviceTypes c = sort (map (\<lambda>(_, u). au_DeviceType u) (cf_APIUsers c))"

definition APIUsersSnapshot :: "Config \<Rightarrow> APIUser list" where
  "APIUsersSnapshot c = sort_key au_Username
     (map (\<lambda>(_, u). \<lparr>au_Username = au_Username u, au_DeviceType = au_DeviceType u, au_ClientKey = []\<rparr>) (cf_APIUsers c))"

definition PSKForUser :: "Config \<Rightarrow> string \<Rightarrow> nat list option" where
  "PSKForUser c username =
     (case mget (cf_APIUsers c) username of
        None \<Rightarrow> None
      | Some u \<Rightarrow> if au_ClientKey u = [] then None else hex_DecodeString (au_ClientKey u))"

definition HasAPIUser :: "Config \<Rightarrow> string \<Rightarrow> bool" where
  "HasAPIUser c username \<longleftrightarrow> mget (cf_APIUsers c) username \<noteq> None"

definition APIUserByDeviceType :: "Config \<Rightarrow> string \<Rightarrow> APIUser option" where
  "APIUserByDeviceType c deviceType =
     map_option snd (find (\<lambda>(_, u). au_DeviceType u = deviceType) (cf_APIUsers c))"

definition GetPro :: "Config \<Rightarrow> BridgePro option" where
  "GetPro c = cf_Pro c"

definition SetPro :: "writer \<Rightarrow> BridgePro option \<Rightarrow> Config \<Rightarrow> file_state \<Rightarrow> saved" where
  "SetPro write p c file = saving write (c\<lparr>cf_Pro := p\<rparr>) file"

definition LoadEntConfigID :: "Config \<Rightarrow> string" where
  "LoadEntConfigID c = cf_EntConfigID c"

definition SaveEntConfigID :: "writer \<Rightarrow> string \<Rightarrow> Config \<Rightarrow> file_state \<Rightarrow> saved" where
  "SaveEntConfigID write i c file =
     (if cf_EntConfigID c = i then (None, c, file)
      else saving write (c\<lparr>cf_EntConfigID := i\<rparr>) file)"

lemmas config_ops = Commit_def AddAPIUser_def SetPro_def SaveEntConfigID_def saving_def save_def

section \<open>Well-formed configurations\<close>

text \<open>Every user is stored under its own name, once, and the schema version is one this build reads.\<close>

definition config_ok :: "Config \<Rightarrow> bool" where
  "config_ok c \<longleftrightarrow> gomap_ok (cf_APIUsers c) \<and> int_in_range (cf_SchemaVersion c)
     \<and> cf_SchemaVersion c \<le> CurrentSchemaVersion"

lemma config_ok_update [simp]:
  "config_ok (c\<lparr>cf_persist := b\<rparr>) = config_ok c" "config_ok (c\<lparr>cf_Pro := p\<rparr>) = config_ok c"
  "config_ok (c\<lparr>cf_EntConfigID := i\<rparr>) = config_ok c"
  "config_ok c \<Longrightarrow> config_ok (c\<lparr>cf_APIUsers := mput k u (cf_APIUsers c)\<rparr>)"
  by (simp_all add: config_ok_def)

lemma dec_entries_ok: "dec_entries f o' m = Some m' \<Longrightarrow> gomap_ok m \<Longrightarrow> gomap_ok m'"
  by (induction f o' m rule: dec_entries.induct) (auto split: option.splits)

lemma dec_map_ok: "dec_map f v = Some m \<Longrightarrow> gomap_ok m"
  by (auto simp: dec_map_def split: gval.splits intro: dec_entries_ok)

lemma dec_int_range: "dec_int v = Some n \<Longrightarrow> int_in_range n"
  by (auto simp: dec_int_def int_in_range_def split: gval.splits if_splits)

lemma Load_ok: "Load path file mac rnd = Inr c \<Longrightarrow> config_ok c \<and> cf_path c = path"
  by (auto simp: Load_def config_ok_def CurrentSchemaVersion_def int_in_range_def dec_config_def
      dec_struct_def bind_opt_Some
      split: file_state.splits option.splits if_splits gval.splits dest: dec_map_ok dec_int_range)

lemma Load_enc:
  assumes "config_ok c"
  shows "Load path (File (Some (enc_config c))) mac rnd
           = Inr (c\<lparr>cf_path := path, cf_persist := True, cf_firstRun := False\<rparr>)"
  using assms by (simp add: Load_def dec_config_enc config_ok_def)

text \<open>Every operation that saves keeps the memory well-formed and the disk old or new.\<close>

lemma saving_cases:
  assumes "atomic_writes write" "saving write c f = (err, c', f')"
  shows "c' = c \<and> (f' = f \<or> cf_persist c \<and> cf_path c \<noteq> [] \<and> f' = File (Some (enc_config c)))
    \<and> (err = None \<longrightarrow> cf_persist c \<longrightarrow> cf_path c \<noteq> [] \<longrightarrow> f' = File (Some (enc_config c)))"
proof -
  have "write (enc_config c) f = (True, File (Some (enc_config c))) \<or> write (enc_config c) f = (False, f)
      \<or> write (enc_config c) f = (False, File (Some (enc_config c)))"
    using assms(1) unfolding atomic_writes_def by blast
  with assms(2) show ?thesis by (auto simp: saving_def save_def split: if_splits prod.splits)
qed

section \<open>The life of the configuration\<close>

datatype config_event = EvCommit | EvAddAPIUser APIUser | EvSetPro "BridgePro option" | EvSaveEntConfigID string

text \<open>The file system decides at every save anew whether it succeeds.\<close>

inductive config_step :: "Config \<times> file_state \<Rightarrow> config_event \<Rightarrow> Config \<times> file_state \<Rightarrow> bool" where
  "atomic_writes w \<Longrightarrow> Commit w c f = (err, c', f') \<Longrightarrow> config_step (c, f) EvCommit (c', f')"
| "atomic_writes w \<Longrightarrow> AddAPIUser w u c f = (err, c', f') \<Longrightarrow> config_step (c, f) (EvAddAPIUser u) (c', f')"
| "atomic_writes w \<Longrightarrow> SetPro w p c f = (err, c', f') \<Longrightarrow> config_step (c, f) (EvSetPro p) (c', f')"
| "atomic_writes w \<Longrightarrow> SaveEntConfigID w i c f = (err, c', f') \<Longrightarrow> config_step (c, f) (EvSaveEntConfigID i) (c', f')"

inductive_cases config_stepE: "config_step (c, f) e s"

definition config_init :: "Config \<times> file_state \<Rightarrow> bool" where
  "config_init s \<longleftrightarrow> (\<exists>path mac rnd. path \<noteq> [] \<and> Load path (snd s) mac rnd = Inr (fst s))"

text \<open>A file that a restart accepts, with the identity the TV has seen.\<close>

definition restart_ok :: "Config \<Rightarrow> file_state \<Rightarrow> bool" where
  "restart_ok c f \<longleftrightarrow> (\<exists>c'. (\<forall>mac rnd. Load (cf_path c) f mac rnd = Inr c') \<and> cf_Identity c' = cf_Identity c \<and> cf_persist c')"

definition config_inv :: "Config \<times> file_state \<Rightarrow> bool" where
  "config_inv s \<longleftrightarrow> (case s of (c, f) \<Rightarrow>
     config_ok c \<and> cf_path c \<noteq> [] \<and> (\<not> cf_persist c \<longrightarrow> f = FileAbsent) \<and> (f = FileAbsent \<or> restart_ok c f))"

lemma restart_ok_update [simp]:
  "restart_ok (c\<lparr>cf_persist := b\<rparr>) f = restart_ok c f" "restart_ok (c\<lparr>cf_Pro := p\<rparr>) f = restart_ok c f"
  "restart_ok (c\<lparr>cf_EntConfigID := i\<rparr>) f = restart_ok c f" "restart_ok (c\<lparr>cf_APIUsers := us\<rparr>) f = restart_ok c f"
  by (simp_all add: restart_ok_def)

lemma restart_ok_saved: "config_ok c \<Longrightarrow> restart_ok c (File (Some (enc_config c)))"
  by (simp add: restart_ok_def Load_enc)

lemma config_inv_init: "config_init s \<Longrightarrow> config_inv s"
proof -
  assume "config_init s"
  then obtain path mac rnd where p: "path \<noteq> []" and l: "Load path (snd s) mac rnd = Inr (fst s)"
    by (auto simp: config_init_def)
  from Load_ok [OF l] have ok: "config_ok (fst s)" "cf_path (fst s) = path" by auto
  show ?thesis
  proof (cases "snd s")
    case FileAbsent
    then show ?thesis using ok p by (cases s) (simp add: config_inv_def)
  next
    case FileUnreadable
    then show ?thesis using l by (simp add: Load_def)
  next
    case (File body)
    then have "\<forall>mac rnd. Load path (snd s) mac rnd = Inr (fst s)"
        "\<exists>c0. fst s = c0\<lparr>cf_persist := True\<rparr>"
      using l by (auto simp: Load_def split: option.splits if_splits) metis
    then have "\<forall>mac rnd. Load path (snd s) mac rnd = Inr (fst s)" "cf_persist (fst s)"
      by auto
    then show ?thesis using ok p by (cases s) (auto simp: config_inv_def restart_ok_def)
  qed
qed

lemma config_inv_saving:
  "atomic_writes w \<Longrightarrow> saving w c f = (err, c', f') \<Longrightarrow> config_inv (c, f) \<Longrightarrow> config_inv (c', f')"
  by (drule (1) saving_cases) (auto simp: config_inv_def restart_ok_saved)

lemma config_inv_update:
  assumes "config_inv (c, f)"
  shows "config_inv (c\<lparr>cf_persist := True\<rparr>, f)" "config_inv (c\<lparr>cf_Pro := p\<rparr>, f)"
    "config_inv (c\<lparr>cf_EntConfigID := i\<rparr>, f)" "config_inv (c\<lparr>cf_APIUsers := mput k u (cf_APIUsers c)\<rparr>, f)"
  using assms by (simp_all add: config_inv_def)

lemma config_inv_step:
  assumes "config_inv s" "config_step s e s'" shows "config_inv s'"
  using assms(2)
proof (cases rule: config_step.cases)
  case (1 w c f err c' f')
  then show ?thesis using config_inv_saving [OF 1(4)] config_inv_update(1) assms(1)
    by (simp add: Commit_def)
next
  case (2 w u c f err c' f')
  then show ?thesis using config_inv_saving [OF 2(4)] config_inv_update(4) assms(1)
    by (simp add: AddAPIUser_def)
next
  case (3 w p c f err c' f')
  then show ?thesis using config_inv_saving [OF 3(4)] config_inv_update(2) assms(1)
    by (simp add: SetPro_def)
next
  case (4 w i c f err c' f')
  then show ?thesis using config_inv_saving [OF 4(4)] config_inv_update(3) assms(1)
    by (simp add: SaveEntConfigID_def split: if_splits)
qed

interpretation config: invariant_system config_init config_step config_inv
  by unfold_locales (auto intro: config_inv_init config_inv_step)

section \<open>Properties\<close>

text \<open>
  C26: saving and loading are inverse.  When a commit of a well-formed configuration succeeds, a
  restart reads back exactly what was in memory: identity, clients with their keys, Pro pairing and
  entertainment configuration; the loaded state is committed and no longer a first run.
\<close>

theorem Load_Commit:
  assumes "atomic_writes write" "config_ok c" "cf_path c \<noteq> []" "Commit write c file = (None, c', file')"
  shows "Load (cf_path c) file' mac rnd = Inr (c\<lparr>cf_persist := True, cf_firstRun := False\<rparr>)"
proof -
  have "file' = File (Some (enc_config (c\<lparr>cf_persist := True\<rparr>)))"
    using saving_cases [OF assms(1), of "c\<lparr>cf_persist := True\<rparr>" "file" None c' "file'"] assms(3,4)
    by (auto simp: Commit_def)
  then show ?thesis using Load_enc [of "c\<lparr>cf_persist := True\<rparr>"] assms(2) by simp
qed

text \<open>The writer of a healthy file system, and a configuration with everything set.\<close>

definition sure_write :: writer where
  "sure_write v f = (True, File (Some v))"

lemma sure_write_atomic: "atomic_writes sure_write"
  by (simp add: atomic_writes_def sure_write_def)

definition demo_config :: Config where
  "demo_config = \<lparr>cf_SchemaVersion = 1, cf_Identity = \<lparr>id_Serial = ''2c4d54ea2832''\<rparr>,
     cf_APIUsers = [(''u1'', \<lparr>au_Username = ''u1'', au_DeviceType = ''tv'', au_ClientKey = ''AB''\<rparr>)],
     cf_Pro = Some (zero_BridgePro\<lparr>bp_Host := ''10.0.0.5'', bp_AppKey := ''k'', bp_Name := ''Pro''\<rparr>),
     cf_EntConfigID = ''cfg-1'', cf_path = ''/data/config.json'', cf_persist = False, cf_firstRun = True\<rparr>"

lemma demo_config_ok: "config_ok demo_config"
  by (simp add: config_ok_def demo_config_def gomap_ok_def int_in_range_def CurrentSchemaVersion_def)

lemma Load_Commit_witness:
  "Load ''/data/config.json'' (snd (snd (Commit sure_write demo_config FileAbsent))) None None
     = Inr (demo_config\<lparr>cf_persist := True, cf_firstRun := False\<rparr>)"
proof -
  have p: "cf_path demo_config = ''/data/config.json''" by (simp add: demo_config_def)
  have "Commit sure_write demo_config FileAbsent
      = (None, demo_config\<lparr>cf_persist := True\<rparr>, File (Some (enc_config (demo_config\<lparr>cf_persist := True\<rparr>))))"
    by (simp add: config_ops sure_write_def p)
  from Load_Commit [OF sure_write_atomic demo_config_ok _ this] show ?thesis
    by (simp add: p config_ops sure_write_def)
qed

text \<open>
  C25: a crash at any moment is harmless.  Whatever sequence of operations ran since the start, with
  any saves failing, the disk holds either no file or one that a restart accepts and that carries
  the identity the TV already knows; and while the setup is uncommitted there is no file at all.
\<close>

theorem config_crash_safe:
  assumes "config_init s0" "run config_step s0 es (c, f)"
  shows "(f = FileAbsent \<or> restart_ok c f) \<and> (\<not> Committed c \<longrightarrow> f = FileAbsent)"
proof -
  have "config_inv (c, f)" using config.reachable_inv assms by blast
  then show ?thesis by (simp add: config_inv_def Committed_def)
qed

text \<open>A fresh setup: the TV pairs, then the setup commits.\<close>

definition demo_user :: APIUser where
  "demo_user = \<lparr>au_Username = ''u1'', au_DeviceType = ''tv'', au_ClientKey = ''AB''\<rparr>"

definition demo_fresh :: Config where
  "demo_fresh = demo_config\<lparr>cf_APIUsers := [], cf_Pro := None, cf_EntConfigID := []\<rparr>"

definition demo_paired :: Config where
  "demo_paired = demo_fresh\<lparr>cf_APIUsers := mput ''u1'' demo_user []\<rparr>"

lemma demo_config_init: "config_init (demo_fresh, FileAbsent)"
  unfolding config_init_def
  by (rule exI [of _ "''/data/config.json''"], rule exI [of _ "Some [0x2c, 0x4d, 0x54, 0xea, 0x28, 0x32]"], rule exI [of _ None])
    code_simp

lemma demo_config_run:
  "run config_step (demo_fresh, FileAbsent) [EvAddAPIUser demo_user, EvCommit]
     (demo_paired\<lparr>cf_persist := True\<rparr>, File (Some (enc_config (demo_paired\<lparr>cf_persist := True\<rparr>))))"
proof (rule run_Cons [OF _ run_single])
  show "config_step (demo_fresh, FileAbsent) (EvAddAPIUser demo_user) (demo_paired, FileAbsent)"
    by (rule config_step.intros(2) [OF sure_write_atomic, where err = None])
      (simp add: config_ops demo_paired_def demo_fresh_def demo_config_def demo_user_def)
  show "config_step (demo_paired, FileAbsent) EvCommit
      (demo_paired\<lparr>cf_persist := True\<rparr>, File (Some (enc_config (demo_paired\<lparr>cf_persist := True\<rparr>))))"
    by (rule config_step.intros(1) [OF sure_write_atomic, where err = None])
      (simp add: config_ops sure_write_def demo_paired_def demo_fresh_def demo_config_def)
qed

lemma config_crash_safe_witness:
  "restart_ok (demo_paired\<lparr>cf_persist := True\<rparr>) (File (Some (enc_config (demo_paired\<lparr>cf_persist := True\<rparr>))))"
  using config_crash_safe [OF demo_config_init demo_config_run] by simp

text \<open>The shape of the fake bridge's identity.\<close>

lemma BridgeID_shape:
  "length (id_Serial i) = 12 \<Longrightarrow> \<exists>b. BridgeID i = Some b \<and> length b = 16 \<and> take 4 (drop 6 b) = ''FFFE''"
  by (simp add: BridgeID_def Let_def ToUpper_append ToUpper_drop [symmetric])
    (simp add: ToUpper_def upper_char_def, code_simp)

lemma BridgeID_panics_iff: "BridgeID i = None \<longleftrightarrow> length (id_Serial i) < 6"
  by (simp add: BridgeID_def Let_def)

lemma fresh_serial_length:
  "Load path FileAbsent mac rnd = Inr c \<Longrightarrow> (\<And>r. rnd = Some r \<Longrightarrow> length r = 6) \<Longrightarrow>
   length (id_Serial (cf_Identity c)) = 12"
  by (auto simp: Load_def deriveSerial_def generateSerial_def split: option.splits if_splits)

text \<open>The stored clientkey gives back the key bytes the server generated.\<close>

lemma PSKForUser_generated:
  assumes "list_all (\<lambda>b. b < 256) key" "key \<noteq> []"
    and "mget (cf_APIUsers c) u = Some \<lparr>au_Username = u, au_DeviceType = d,
           au_ClientKey = ToUpper (hex_EncodeToString key)\<rparr>"
  shows "PSKForUser c u = Some key"
proof -
  have "ToUpper (hex_EncodeToString key) \<noteq> []"
    using assms(2) by (cases key) (simp_all add: ToUpper_def)
  then show ?thesis using assms(1,3) by (simp add: PSKForUser_def hex_Decode_ToUpper hex_Decode_Encode)
qed

lemma LoadEntConfigID_Save: "SaveEntConfigID write i c f = (err, c', f') \<Longrightarrow> LoadEntConfigID c' = i"
  by (auto simp: SaveEntConfigID_def saving_def LoadEntConfigID_def split: if_splits prod.splits)

end
