(* ===== verification/HueClient.thy ===== *)
theory HueClient
  imports ConfigStore
begin

text \<open>
  The client of the Hue Bridge Pro (\<open>internal/bridgepro\<close>): the resources it reads, the error
  taxonomy of its HTTP calls, certificate pinning, pairing, the link-button loop and mDNS
  discovery.

  The Pro itself is not part of the repository: \<open>transport\<close>, the function the HTTP client runs a
  request through, is a parameter of the definitions, with a state \<open>'s\<close> of its own.  It returns
  \<open>None\<close> when the round trip fails.  SHA-256 is a parameter too.
\<close>

section \<open>Resources\<close>

record LightColor =
  lc_X :: real
  lc_Y :: real

record Light =
  lt_ID :: string
  lt_Name :: string
  lt_On :: bool
  lt_Dimming :: "real option"
  lt_Color :: "LightColor option"
  lt_ColorTemperature :: "int option"
  lt_OwnerRID :: string

definition HasColor :: "Light \<Rightarrow> bool" where
  "HasColor l \<longleftrightarrow> lt_Color l \<noteq> None"

definition HasColorTemperature :: "Light \<Rightarrow> bool" where
  "HasColorTemperature l \<longleftrightarrow> lt_ColorTemperature l \<noteq> None"

definition HasDimming :: "Light \<Rightarrow> bool" where
  "HasDimming l \<longleftrightarrow> lt_Dimming l \<noteq> None"

record EntertainmentService =
  es_ID :: string
  es_OwnerRID :: string

record EntertainmentConfig =
  ec_ID :: string
  ec_Name :: string
  ec_Status :: string

text \<open>A channel of a configuration: its id and the service rids of its members.\<close>

record EntChannel =
  en_ChannelID :: int
  en_Members :: "string list"

record EntertainmentConfigFull =
  ef_ID :: string
  ef_Name :: string
  ef_Status :: string
  ef_Channels :: "EntChannel list"

record ConfigMember =
  cm_ServiceRID :: string
  cm_X :: real
  cm_Y :: real
  cm_Z :: real

section \<open>Decoding the resources\<close>

definition dec_rid :: "gval \<Rightarrow> string option" where
  "dec_rid = dec_struct (\<lambda>o'. dec_string (jfield o' ''rid''))"

definition dec_name :: "gval \<Rightarrow> string option" where
  "dec_name = dec_struct (\<lambda>o'. dec_string (jfield o' ''name''))"

definition dec_color :: "gval \<Rightarrow> LightColor option" where
  "dec_color = dec_struct (\<lambda>o'. dec_struct (\<lambda>p.
     bind_opt (dec_float (jfield p ''x'')) (\<lambda>x.
     bind_opt (dec_float (jfield p ''y'')) (\<lambda>y. Some \<lparr>lc_X = x, lc_Y = y\<rparr>))) (jfield o' ''xy''))"

definition dec_light :: "gval \<Rightarrow> Light option" where
  "dec_light = dec_struct (\<lambda>o'.
     bind_opt (dec_string (jfield o' ''id'')) (\<lambda>i.
     bind_opt (dec_string (jfield o' ''id_v1'')) (\<lambda>_.
     bind_opt (dec_name (jfield o' ''metadata'')) (\<lambda>n.
     bind_opt (dec_struct (\<lambda>p. dec_bool (jfield p ''on'')) (jfield o' ''on'')) (\<lambda>on.
     bind_opt (dec_ptr (dec_struct (\<lambda>p. dec_float (jfield p ''brightness''))) (jfield o' ''dimming'')) (\<lambda>d.
     bind_opt (dec_ptr dec_color (jfield o' ''color'')) (\<lambda>c.
     bind_opt (dec_ptr (dec_struct (\<lambda>p. dec_int (jfield p ''mirek''))) (jfield o' ''color_temperature'')) (\<lambda>t.
     bind_opt (dec_rid (jfield o' ''owner'')) (\<lambda>w.
       Some \<lparr>lt_ID = i, lt_Name = n, lt_On = on, lt_Dimming = d, lt_Color = c,
             lt_ColorTemperature = t, lt_OwnerRID = w\<rparr>)))))))))"

text \<open>The reference \<open>{"rid": ..., "rtype": ...}\<close>; only the rid is used.\<close>

definition dec_ref :: "gval \<Rightarrow> string option" where
  "dec_ref = dec_struct (\<lambda>o'.
     bind_opt (dec_string (jfield o' ''rid'')) (\<lambda>r.
     bind_opt (dec_string (jfield o' ''rtype'')) (\<lambda>_. Some r)))"

definition dec_service :: "gval \<Rightarrow> EntertainmentService option" where
  "dec_service = dec_struct (\<lambda>o'.
     bind_opt (dec_string (jfield o' ''id'')) (\<lambda>i.
     bind_opt (dec_ref (jfield o' ''owner'')) (\<lambda>w.
     bind_opt (dec_bool (jfield o' ''renderer'')) (\<lambda>_. Some \<lparr>es_ID = i, es_OwnerRID = w\<rparr>))))"

definition dec_ent_config :: "gval \<Rightarrow> EntertainmentConfig option" where
  "dec_ent_config = dec_struct (\<lambda>o'.
     bind_opt (dec_string (jfield o' ''id'')) (\<lambda>i.
     bind_opt (dec_name (jfield o' ''metadata'')) (\<lambda>n.
     bind_opt (dec_string (jfield o' ''status'')) (\<lambda>s.
       Some \<lparr>ec_ID = i, ec_Name = n, ec_Status = s\<rparr>))))"

definition dec_member :: "gval \<Rightarrow> string option" where
  "dec_member = dec_struct (\<lambda>o'.
     bind_opt (dec_ref (jfield o' ''service'')) (\<lambda>r.
     bind_opt (dec_int (jfield o' ''index'')) (\<lambda>_. Some r)))"

definition dec_channel :: "gval \<Rightarrow> EntChannel option" where
  "dec_channel = dec_struct (\<lambda>o'.
     bind_opt (dec_int (jfield o' ''channel_id'')) (\<lambda>i.
     bind_opt (dec_slice dec_member (jfield o' ''members'')) (\<lambda>ms.
       Some \<lparr>en_ChannelID = i, en_Members = ms\<rparr>)))"

definition dec_ent_config_full :: "gval \<Rightarrow> EntertainmentConfigFull option" where
  "dec_ent_config_full = dec_struct (\<lambda>o'.
     bind_opt (dec_string (jfield o' ''id'')) (\<lambda>i.
     bind_opt (dec_name (jfield o' ''metadata'')) (\<lambda>n.
     bind_opt (dec_string (jfield o' ''status'')) (\<lambda>s.
     bind_opt (dec_slice dec_channel (jfield o' ''channels'')) (\<lambda>cs.
       Some \<lparr>ef_ID = i, ef_Name = n, ef_Status = s, ef_Channels = cs\<rparr>)))))"

text \<open>
  The envelope \<open>{"data": [...]}\<close> of every CLIP v2 list; the list types also declare \<open>errors\<close> as an
  array of anything.
\<close>

definition dec_data :: "(gval \<Rightarrow> 'a option) \<Rightarrow> gval \<Rightarrow> 'a list option" where
  "dec_data f = dec_struct (\<lambda>o'. dec_slice f (jfield o' ''data''))"

definition dec_list :: "(gval \<Rightarrow> 'a option) \<Rightarrow> gval \<Rightarrow> 'a list option" where
  "dec_list f = dec_struct (\<lambda>o'.
     bind_opt (dec_slice Some (jfield o' ''errors'')) (\<lambda>_. dec_slice f (jfield o' ''data'')))"

section \<open>HTTP calls and the error taxonomy\<close>

datatype http_method = GET | POST | PUT | DELETE

record http_request =
  hq_method :: http_method
  hq_host :: string
  hq_path :: string
  hq_appKey :: string
  hq_body :: gval

record http_response =
  hr_status :: int
  hr_body :: json_body

type_synonym 's transport = "http_request \<Rightarrow> 's \<Rightarrow> http_response option \<times> 's"

datatype pro_error =
    ErrUnreachable http_method string
  | ErrQueueFull http_method string
  | ErrDomain http_method string string
  | ErrStatus http_method string int
  | ErrDecode http_method string
  | ErrNoResourceID string
  | ErrConfigNotFound string
  | ErrNoBridgeResource

text \<open>\<open>errors.Is\<close> against the three sentinels.\<close>

fun isUnreachable :: "pro_error \<Rightarrow> bool" where
  "isUnreachable (ErrUnreachable _ _) = True" | "isUnreachable _ = False"

fun isQueueFull :: "pro_error \<Rightarrow> bool" where
  "isQueueFull (ErrQueueFull _ _) = True" | "isQueueFull _ = False"

fun isDomain :: "pro_error \<Rightarrow> bool" where
  "isDomain (ErrDomain _ _ _) = True" | "isDomain _ = False"

record Client =
  cl_host :: string
  cl_appKey :: string

definition dec_description :: "gval \<Rightarrow> string option" where
  "dec_description = dec_struct (\<lambda>o'. dec_string (jfield o' ''description''))"

text \<open>\<open>decodeCLIPErrors\<close>: the joined descriptions of a non-empty \<open>errors\<close> array, else nothing.\<close>

definition decodeCLIPErrors :: "json_body \<Rightarrow> string option" where
  "decodeCLIPErrors raw =
     (case raw of None \<Rightarrow> None
      | Some v \<Rightarrow>
         (case dec_struct (\<lambda>o'. dec_slice dec_description (jfield o' ''errors'')) v of
            None \<Rightarrow> None
          | Some descs \<Rightarrow> if descs \<noteq> [] then Some (str_Join descs ''; '') else None))"

definition client_request :: "Client \<Rightarrow> http_method \<Rightarrow> string \<Rightarrow> gval \<Rightarrow> http_request" where
  "client_request c m path body =
     \<lparr>hq_method = m, hq_host = cl_host c, hq_path = path, hq_appKey = cl_appKey c, hq_body = body\<rparr>"

definition client_get ::
  "'s transport \<Rightarrow> Client \<Rightarrow> string \<Rightarrow> (gval \<Rightarrow> 'a option) \<Rightarrow> 's \<Rightarrow> (pro_error + 'a) \<times> 's" where
  "client_get tr c path dec s =
     (case tr (client_request c GET path GNil) s of
        (None, s') \<Rightarrow> (Inl (ErrUnreachable GET path), s')
      | (Some resp, s') \<Rightarrow>
          (if hr_status resp = 503 then Inl (ErrQueueFull GET path)
           else if hr_status resp \<noteq> 200 then Inl (ErrStatus GET path (hr_status resp))
           else (case bind_opt (hr_body resp) dec of
                   None \<Rightarrow> Inl (ErrDecode GET path) | Some v \<Rightarrow> Inr v), s'))"

definition client_post ::
  "'s transport \<Rightarrow> Client \<Rightarrow> string \<Rightarrow> gval \<Rightarrow> 's \<Rightarrow> (pro_error + string) \<times> 's" where
  "client_post tr c path payload s =
     (case tr (client_request c POST path payload) s of
        (None, s') \<Rightarrow> (Inl (ErrUnreachable POST path), s')
      | (Some resp, s') \<Rightarrow>
          (if hr_status resp = 503 then Inl (ErrQueueFull POST path)
           else if hr_status resp \<ge> 400 then Inl (ErrStatus POST path (hr_status resp))
           else case decodeCLIPErrors (hr_body resp) of
             Some descs \<Rightarrow> Inl (ErrDomain POST path descs)
           | None \<Rightarrow>
               (case bind_opt (hr_body resp) (dec_data dec_rid) of
                  None \<Rightarrow> Inl (ErrDecode POST path)
                | Some [] \<Rightarrow> Inl (ErrNoResourceID path)
                | Some (rid # _) \<Rightarrow> Inr rid), s'))"

definition client_put ::
  "'s transport \<Rightarrow> Client \<Rightarrow> string \<Rightarrow> gval \<Rightarrow> 's \<Rightarrow> (pro_error + unit) \<times> 's" where
  "client_put tr c path payload s =
     (case tr (client_request c PUT path payload) s of
        (None, s') \<Rightarrow> (Inl (ErrUnreachable PUT path), s')
      | (Some resp, s') \<Rightarrow>
          (if hr_status resp = 503 then Inl (ErrQueueFull PUT path)
           else if hr_status resp \<ge> 400 then Inl (ErrStatus PUT path (hr_status resp))
           else case decodeCLIPErrors (hr_body resp) of
             Some descs \<Rightarrow> Inl (ErrDomain PUT path descs)
           | None \<Rightarrow> Inr (), s'))"

definition client_del :: "'s transport \<Rightarrow> Client \<Rightarrow> string \<Rightarrow> 's \<Rightarrow> (pro_error + unit) \<times> 's" where
  "client_del tr c path s =
     (case tr (client_request c DELETE path GNil) s of
        (None, s') \<Rightarrow> (Inl (ErrUnreachable DELETE path), s')
      | (Some resp, s') \<Rightarrow>
          (if hr_status resp = 503 then Inl (ErrQueueFull DELETE path)
           else if hr_status resp \<ge> 400 then Inl (ErrStatus DELETE path (hr_status resp))
           else case decodeCLIPErrors (hr_body resp) of
             Some descs \<Rightarrow> Inl (ErrDomain DELETE path descs)
           | None \<Rightarrow> Inr (), s'))"

section \<open>Resource operations\<close>

text \<open>
  \<open>sort.Slice\<close> by id; the ids are unique on a bridge, so its instability does not show and a
  stable sort gives the same list.
\<close>

definition Lights :: "'s transport \<Rightarrow> Client \<Rightarrow> 's \<Rightarrow> (pro_error + Light list) \<times> 's" where
  "Lights tr c s =
     (case client_get tr c ''/clip/v2/resource/light'' (dec_list dec_light) s of
        (Inl e, s') \<Rightarrow> (Inl e, s')
      | (Inr ls, s') \<Rightarrow> (Inr (sort_key lt_ID ls), s'))"

definition EntertainmentConfigs ::
  "'s transport \<Rightarrow> Client \<Rightarrow> 's \<Rightarrow> (pro_error + EntertainmentConfig list) \<times> 's" where
  "EntertainmentConfigs tr c s =
     (case client_get tr c ''/clip/v2/resource/entertainment_configuration'' (dec_list dec_ent_config) s of
        (Inl e, s') \<Rightarrow> (Inl e, s')
      | (Inr cs, s') \<Rightarrow> (Inr (sort_key ec_ID cs), s'))"

definition EntertainmentServices ::
  "'s transport \<Rightarrow> Client \<Rightarrow> 's \<Rightarrow> (pro_error + EntertainmentService list) \<times> 's" where
  "EntertainmentServices tr c s = client_get tr c ''/clip/v2/resource/entertainment'' (dec_list dec_service) s"

definition GetEntertainmentConfig ::
  "'s transport \<Rightarrow> Client \<Rightarrow> string \<Rightarrow> 's \<Rightarrow> (pro_error + EntertainmentConfigFull) \<times> 's" where
  "GetEntertainmentConfig tr c i s =
     (case client_get tr c (''/clip/v2/resource/entertainment_configuration/'' @ i) (dec_list dec_ent_config_full) s of
        (Inl e, s') \<Rightarrow> (Inl e, s')
      | (Inr [], s') \<Rightarrow> (Inl (ErrConfigNotFound i), s')
      | (Inr (d # _), s') \<Rightarrow> (Inr d, s'))"

definition location_payload :: "ConfigMember \<Rightarrow> gval" where
  "location_payload m = GObj
     [(''service'', GObj [(''rid'', GStr (cm_ServiceRID m)), (''rtype'', GStr ''entertainment'')]),
      (''positions'', GArr [GObj [(''x'', GFloat (cm_X m)), (''y'', GFloat (cm_Y m)), (''z'', GFloat (cm_Z m))]]),
      (''equalization_factor'', GFloat 1)]"

definition config_payload :: "string \<Rightarrow> ConfigMember list \<Rightarrow> gval" where
  "config_payload name members = GObj
     [(''type'', GStr ''entertainment_configuration''),
      (''metadata'', GObj [(''name'', GStr name)]),
      (''configuration_type'', GStr ''screen''),
      (''stream_proxy'', GObj [(''mode'', GStr ''auto'')]),
      (''locations'', GObj [(''service_locations'', GArr (map location_payload members))])]"

definition CreateEntertainmentConfig ::
  "'s transport \<Rightarrow> Client \<Rightarrow> string \<Rightarrow> ConfigMember list \<Rightarrow> 's \<Rightarrow> (pro_error + string) \<times> 's" where
  "CreateEntertainmentConfig tr c name members s =
     client_post tr c ''/clip/v2/resource/entertainment_configuration'' (config_payload name members) s"

definition StartStream :: "'s transport \<Rightarrow> Client \<Rightarrow> string \<Rightarrow> 's \<Rightarrow> (pro_error + unit) \<times> 's" where
  "StartStream tr c i s =
     client_put tr c (''/clip/v2/resource/entertainment_configuration/'' @ i) (GObj [(''action'', GStr ''start'')]) s"

definition StopStream :: "'s transport \<Rightarrow> Client \<Rightarrow> string \<Rightarrow> 's \<Rightarrow> (pro_error + unit) \<times> 's" where
  "StopStream tr c i s =
     client_put tr c (''/clip/v2/resource/entertainment_configuration/'' @ i) (GObj [(''action'', GStr ''stop'')]) s"

definition DeleteEntertainmentConfig :: "'s transport \<Rightarrow> Client \<Rightarrow> string \<Rightarrow> 's \<Rightarrow> (pro_error + unit) \<times> 's" where
  "DeleteEntertainmentConfig tr c i s =
     client_del tr c (''/clip/v2/resource/entertainment_configuration/'' @ i) s"

definition SetLight :: "'s transport \<Rightarrow> Client \<Rightarrow> string \<Rightarrow> obj \<Rightarrow> 's \<Rightarrow> (pro_error + unit) \<times> 's" where
  "SetLight tr c uuid v2body s = client_put tr c (''/clip/v2/resource/light/'' @ uuid) (GObj v2body) s"

definition SetGroupedLight :: "'s transport \<Rightarrow> Client \<Rightarrow> string \<Rightarrow> obj \<Rightarrow> 's \<Rightarrow> (pro_error + unit) \<times> 's" where
  "SetGroupedLight tr c uuid v2body s = client_put tr c (''/clip/v2/resource/grouped_light/'' @ uuid) (GObj v2body) s"

text \<open>The bridge resource: its id and the device that owns it.\<close>

definition dec_bridge :: "gval \<Rightarrow> (string \<times> string) option" where
  "dec_bridge = dec_struct (\<lambda>o'.
     bind_opt (dec_string (jfield o' ''id'')) (\<lambda>_.
     bind_opt (dec_string (jfield o' ''bridge_id'')) (\<lambda>b.
     bind_opt (dec_rid (jfield o' ''owner'')) (\<lambda>w. Some (b, w)))))"

definition dec_device :: "gval \<Rightarrow> string option" where
  "dec_device = dec_struct (\<lambda>o'.
     bind_opt (dec_string (jfield o' ''id'')) (\<lambda>_. dec_name (jfield o' ''metadata'')))"

definition BridgeInfo :: "'s transport \<Rightarrow> Client \<Rightarrow> 's \<Rightarrow> (pro_error + string \<times> string) \<times> 's" where
  "BridgeInfo tr c s =
     (case client_get tr c ''/clip/v2/resource/bridge'' (dec_data dec_bridge) s of
        (Inl e, s1) \<Rightarrow> (Inl e, s1)
      | (Inr [], s1) \<Rightarrow> (Inl ErrNoBridgeResource, s1)
      | (Inr ((bridgeID, owner) # _), s1) \<Rightarrow>
          if owner = [] then (Inr ([], bridgeID), s1)
          else (case client_get tr c (''/clip/v2/resource/device/'' @ owner) (dec_data dec_device) s1 of
                  (Inl e, s2) \<Rightarrow> (Inr ([], bridgeID), s2)
                | (Inr [], s2) \<Rightarrow> (Inr ([], bridgeID), s2)
                | (Inr (name # _), s2) \<Rightarrow> (Inr (name, bridgeID), s2)))"

section \<open>Certificate pinning\<close>

type_synonym cert = "nat list"

datatype pin_error = PinNoCertificate | PinMismatch string string

text \<open>
  A TLS connection as the client sees it: the peer certificates (of the original handshake, when
  the session is resumed).  \<open>VerifyPeerCertificate\<close> runs on full handshakes only,
  \<open>VerifyConnection\<close> on both.
\<close>

definition pin :: "(cert \<Rightarrow> nat list) \<Rightarrow> string \<Rightarrow> cert list \<Rightarrow> pin_error option" where
  "pin sha256 want rawCerts =
     (case rawCerts of [] \<Rightarrow> Some PinNoCertificate
      | leaf # _ \<Rightarrow> (let got = hex_EncodeToString (sha256 leaf) in
          if got \<noteq> want then Some (PinMismatch want got) else None))"

record tls_config =
  tc_VerifyPeerCertificate :: "(cert list \<Rightarrow> pin_error option) option"
  tc_VerifyConnection :: "(cert list \<Rightarrow> pin_error option) option"

definition newHTTPClient :: "(cert \<Rightarrow> nat list) \<Rightarrow> string \<Rightarrow> bool \<Rightarrow> tls_config" where
  "newHTTPClient sha256 certSHA256 skipVerify =
     (if \<not> skipVerify \<and> certSHA256 \<noteq> []
      then \<lparr>tc_VerifyPeerCertificate = Some (pin sha256 certSHA256), tc_VerifyConnection = Some (pin sha256 certSHA256)\<rparr>
      else \<lparr>tc_VerifyPeerCertificate = None, tc_VerifyConnection = None\<rparr>)"

definition run_hook :: "(cert list \<Rightarrow> pin_error option) option \<Rightarrow> cert list \<Rightarrow> pin_error option" where
  "run_hook h certs = (case h of None \<Rightarrow> None | Some f \<Rightarrow> f certs)"

definition tls_accepts :: "tls_config \<Rightarrow> bool \<Rightarrow> cert list \<Rightarrow> bool" where
  "tls_accepts t resumed certs \<longleftrightarrow>
     (resumed \<or> run_hook (tc_VerifyPeerCertificate t) certs = None)
   \<and> run_hook (tc_VerifyConnection t) certs = None"

definition NewClient :: "BridgePro \<Rightarrow> Client" where
  "NewClient p = \<lparr>cl_host = bp_Host p, cl_appKey = bp_AppKey p\<rparr>"

definition HTTPClientFor :: "(cert \<Rightarrow> nat list) \<Rightarrow> BridgePro \<Rightarrow> tls_config" where
  "HTTPClientFor sha256 p = newHTTPClient sha256 (bp_CertSHA256 p) (bp_SkipTLSVerify p)"

text \<open>The fingerprint pinned at setup: that of the leaf certificate presented (\<open>None\<close>: no connection).\<close>

definition FetchLeafFingerprint :: "(cert \<Rightarrow> nat list) \<Rightarrow> cert list option \<Rightarrow> string option" where
  "FetchLeafFingerprint sha256 conn =
     (case conn of None \<Rightarrow> None | Some [] \<Rightarrow> None | Some (leaf # _) \<Rightarrow> Some (hex_EncodeToString (sha256 leaf)))"

section \<open>Pairing\<close>

record PairResult =
  pr_AppKey :: string
  pr_ClientKey :: string

datatype pair_error = PairRequest | PairParse | PairEmpty | PairBridge string | PairUnexpected

definition dec_pair_success :: "gval \<Rightarrow> PairResult option" where
  "dec_pair_success = dec_struct (\<lambda>o'.
     bind_opt (dec_string (jfield o' ''username'')) (\<lambda>u.
     bind_opt (dec_string (jfield o' ''clientkey'')) (\<lambda>k. Some \<lparr>pr_AppKey = u, pr_ClientKey = k\<rparr>)))"

definition dec_pair_entry :: "gval \<Rightarrow> (PairResult option \<times> string option) option" where
  "dec_pair_entry = dec_struct (\<lambda>o'.
     bind_opt (dec_ptr dec_pair_success (jfield o' ''success'')) (\<lambda>ok.
     bind_opt (dec_ptr dec_description (jfield o' ''error'')) (\<lambda>err. Some (ok, err))))"

definition pair_request :: "string \<Rightarrow> string \<Rightarrow> http_request" where
  "pair_request host deviceType = \<lparr>hq_method = POST, hq_host = host, hq_path = ''/api'', hq_appKey = [],
     hq_body = GObj [(''devicetype'', GStr deviceType), (''generateclientkey'', GBool True)]\<rparr>"

definition Pair :: "'s transport \<Rightarrow> string \<Rightarrow> string \<Rightarrow> 's \<Rightarrow> (pair_error + PairResult) \<times> 's" where
  "Pair tr host deviceType s =
     (case tr (pair_request host deviceType) s of
        (None, s') \<Rightarrow> (Inl PairRequest, s')
      | (Some resp, s') \<Rightarrow>
          (case bind_opt (hr_body resp) (dec_slice dec_pair_entry) of
             None \<Rightarrow> Inl PairParse
           | Some [] \<Rightarrow> Inl PairEmpty
           | Some ((_, Some d) # _) \<Rightarrow> Inl (PairBridge d)
           | Some ((None, None) # _) \<Rightarrow> Inl PairUnexpected
           | Some ((Some r, None) # _) \<Rightarrow> Inr r, s'))"

text \<open>
  The link-button loop.  \<open>'w\<close> is everything it looks at: \<open>attemptPair\<close> makes one pairing request,
  \<open>clock\<close> is \<open>time.Now\<close>, \<open>sleep\<close> is \<open>run.Sleep\<close> (\<open>False\<close> when the context is cancelled).  The loop has no
  bound of its own, so not returning is the value \<open>None\<close>.  The second component of the result lists
  the attempts reported to \<open>onAttempt\<close>.
\<close>

datatype wait_error = WaitDeadline pair_error | WaitCancelled

partial_function (option) wait_loop ::
  "('w \<Rightarrow> (pair_error + PairResult) \<times> 'w) \<Rightarrow> ('w \<Rightarrow> int) \<Rightarrow> ('w \<Rightarrow> bool \<times> 'w) \<Rightarrow> gotime \<Rightarrow> nat list \<Rightarrow> nat \<Rightarrow> 'w
     \<Rightarrow> ((wait_error + PairResult) \<times> nat list \<times> 'w) option" where
  "wait_loop attemptPair clock sleep deadline seen attempt w =
     (case attemptPair w of (r, w1) \<Rightarrow>
        (case r of
           Inr res \<Rightarrow> Some (Inr res, seen, w1)
         | Inl err \<Rightarrow>
             if (case deadline of None \<Rightarrow> False | Some d \<Rightarrow> \<not> clock w1 < d)
             then Some (Inl (WaitDeadline err), seen, w1)
             else (case sleep w1 of (ok, w2) \<Rightarrow>
                     if \<not> ok then Some (Inl WaitCancelled, seen @ [attempt], w2)
                     else wait_loop attemptPair clock sleep deadline (seen @ [attempt]) (Suc attempt) w2)))"

definition capture :: "('w \<Rightarrow> (pro_error + string \<times> string) \<times> 'w) \<Rightarrow> BridgePro \<Rightarrow> 'w \<Rightarrow> BridgePro \<times> 'w" where
  "capture info pro w =
     (case info w of (Inl _, w') \<Rightarrow> (pro, w')
      | (Inr (name, i), w') \<Rightarrow> (pro\<lparr>bp_Name := name, bp_BridgeID := i\<rparr>, w'))"

definition WaitForLinkButton ::
  "('w \<Rightarrow> (pair_error + PairResult) \<times> 'w) \<Rightarrow> ('w \<Rightarrow> (pro_error + string \<times> string) \<times> 'w) \<Rightarrow> ('w \<Rightarrow> int)
     \<Rightarrow> ('w \<Rightarrow> bool \<times> 'w) \<Rightarrow> BridgePro \<Rightarrow> gotime \<Rightarrow> 'w \<Rightarrow> ((wait_error + BridgePro) \<times> nat list \<times> 'w) option" where
  "WaitForLinkButton attemptPair info clock sleep pro deadline w =
     (case wait_loop attemptPair clock sleep deadline [] 0 w of
        None \<Rightarrow> None
      | Some (Inl e, seen, w') \<Rightarrow> Some (Inl e, seen, w')
      | Some (Inr res, seen, w') \<Rightarrow>
          (case capture info (pro\<lparr>bp_AppKey := pr_AppKey res, bp_ClientKey := pr_ClientKey res\<rparr>) w' of
             (pro', w'') \<Rightarrow> Some (Inr pro', seen, w'')))"

section \<open>Discovery\<close>

definition ModelHueBridgePro :: string where
  "ModelHueBridgePro = ''BSB003''"

record ServiceEntry =
  se_AddrV4 :: "string option"
  se_Port :: int
  se_InfoFields :: "string list"

record DiscoveredBridge =
  db_ID :: string
  db_InternalIPAddress :: string
  db_Port :: int
  db_ModelID :: string

fun parseHueTXT_loop :: "string \<times> string \<Rightarrow> string list \<Rightarrow> string \<times> string" where
  "parseHueTXT_loop (b, m) [] = (b, m)"
| "parseHueTXT_loop (b, m) (kv # txt) =
     (case str_Cut kv (CHR ''='') of
        None \<Rightarrow> parseHueTXT_loop (b, m) txt
      | Some (k, v) \<Rightarrow>
          if ToLower (TrimSpace k) = ''bridgeid'' then parseHueTXT_loop (TrimSpace v, m) txt
          else if ToLower (TrimSpace k) = ''modelid'' then parseHueTXT_loop (b, TrimSpace v) txt
          else parseHueTXT_loop (b, m) txt)"

definition parseHueTXT :: "string list \<Rightarrow> string \<times> string" where
  "parseHueTXT txt = parseHueTXT_loop ([], []) txt"

text \<open>The loop over the answers: own announcement and duplicates dropped, first answer kept.\<close>

fun discover_loop :: "string \<Rightarrow> string list \<Rightarrow> ServiceEntry list \<Rightarrow> DiscoveredBridge list" where
  "discover_loop excl seen [] = []"
| "discover_loop excl seen (e # es) =
     (case se_AddrV4 e of
        None \<Rightarrow> discover_loop excl seen es
      | Some ip \<Rightarrow>
          (case parseHueTXT (se_InfoFields e) of (bridgeID, modelID) \<Rightarrow>
             if excl \<noteq> [] \<and> EqualFold bridgeID excl then discover_loop excl seen es
             else let key = (if bridgeID = [] then ip else bridgeID) in
               if key \<in> set seen then discover_loop excl seen es
               else \<lparr>db_ID = bridgeID, db_InternalIPAddress = ip, db_Port = se_Port e, db_ModelID = modelID\<rparr>
                    # discover_loop excl (key # seen) es))"

text \<open>\<open>mdns.Query\<close> is the library's; its answers are the argument, \<open>None\<close> when the query fails.\<close>

definition Discover :: "string \<Rightarrow> ServiceEntry list option \<Rightarrow> DiscoveredBridge list option" where
  "Discover excl entries = map_option (discover_loop excl []) entries"

datatype model_error = ModelFetch | ModelStatus int | ModelParse

definition dec_modelid :: "gval \<Rightarrow> string option" where
  "dec_modelid = dec_struct (\<lambda>o'. dec_string (jfield o' ''modelid''))"

definition FetchModelID :: "'s transport \<Rightarrow> string \<Rightarrow> 's \<Rightarrow> (model_error + string) \<times> 's" where
  "FetchModelID tr host s =
     (case tr \<lparr>hq_method = GET, hq_host = host, hq_path = ''/api/0/config'', hq_appKey = [], hq_body = GNil\<rparr> s of
        (None, s') \<Rightarrow> (Inl ModelFetch, s')
      | (Some resp, s') \<Rightarrow>
          (if hr_status resp \<noteq> 200 then Inl (ModelStatus (hr_status resp))
           else case bind_opt (hr_body resp) dec_modelid of
             None \<Rightarrow> Inl ModelParse | Some m \<Rightarrow> Inr m, s'))"

section \<open>Properties\<close>

text \<open>
  C33: certificate pinning holds on every connection.  Once a fingerprint is pinned and verification
  is not switched off, a connection is accepted, whether its handshake is full or resumed, exactly
  when the peer's leaf certificate has the pinned fingerprint, the one \<open>FetchLeafFingerprint\<close> would
  report for it.
\<close>

theorem pinned_client_accepts:
  assumes "\<not> bp_SkipTLSVerify p" "bp_CertSHA256 p \<noteq> []"
  shows "tls_accepts (HTTPClientFor sha256 p) resumed certs
           \<longleftrightarrow> FetchLeafFingerprint sha256 (Some certs) = Some (bp_CertSHA256 p)"
  using assms
  by (cases certs)
    (auto simp: tls_accepts_def HTTPClientFor_def newHTTPClient_def run_hook_def pin_def
      FetchLeafFingerprint_def Let_def)

definition demo_sha :: "cert \<Rightarrow> nat list" where
  "demo_sha c = [foldl (+) 0 c mod 256]"

definition demo_pro :: BridgePro where
  "demo_pro = zero_BridgePro\<lparr>bp_Host := ''10.0.0.5'', bp_CertSHA256 := hex_EncodeToString [3]\<rparr>"

lemma pinned_client_accepts_witness:
  "tls_accepts (HTTPClientFor demo_sha demo_pro) True [[1, 2]] \<and> \<not> tls_accepts (HTTPClientFor demo_sha demo_pro) True [[9]]"
proof -
  have p: "\<not> bp_SkipTLSVerify demo_pro" "bp_CertSHA256 demo_pro \<noteq> []"
    by (simp_all add: demo_pro_def zero_BridgePro_def)
  have "FetchLeafFingerprint demo_sha (Some [[1, 2]]) = Some (bp_CertSHA256 demo_pro)"
    "FetchLeafFingerprint demo_sha (Some [[9]]) \<noteq> Some (bp_CertSHA256 demo_pro)"
    by code_simp+
  then show ?thesis by (simp add: pinned_client_accepts [OF p])
qed

text \<open>
  C35: pairing ends.  With a deadline, if every sleep moves the clock on by at least one nanosecond and
  pairing requests never move it back, the link-button loop returns; with \<open>n\<close> sleeps of at least
  \<open>i\<close> left before the deadline it makes at most \<open>n\<close> further attempts after the first.
\<close>

lemma wait_loop_returns_aux:
  assumes "\<And>w. clock w \<le> clock (snd (attemptPair w))" "\<And>w. clock w + i \<le> clock (snd (sleep w))"
    and "d \<le> clock w + int n * i"
  shows "\<exists>r seen' w'. wait_loop attemptPair clock sleep (Some d) seen attempt w = Some (r, seen', w')
           \<and> length seen' \<le> length seen + n"
  using assms(3)
proof (induction n arbitrary: seen attempt w)
  case 0
  obtain r w1 where a: "attemptPair w = (r, w1)" by fastforce
  then have "\<not> clock w1 < d" using 0 assms(1) [of w] by simp
  with a show ?case by (subst wait_loop.simps) (simp split: sum.splits)
next
  case (Suc n)
  obtain r w1 where a: "attemptPair w = (r, w1)" by fastforce
  obtain ok w2 where z: "sleep w1 = (ok, w2)" by fastforce
  show ?case
  proof (cases "\<exists>e. r = Inl e \<and> clock w1 < d \<and> ok")
    case True
    have "d \<le> clock w2 + int n * i"
      using Suc.prems assms(1) [of w] assms(2) [of w1] a z by (simp add: algebra_simps)
    from Suc.IH [OF this, of "seen @ [attempt]" "Suc attempt"] True a z show ?thesis
      by (subst wait_loop.simps) auto
  next
    case False
    with a z show ?thesis by (subst wait_loop.simps) (auto split: sum.splits)
  qed
qed

theorem WaitForLinkButton_returns:
  assumes "\<And>w. clock w \<le> clock (snd (attemptPair w))" "\<And>w. clock w + i \<le> clock (snd (sleep w))"
    and "d \<le> clock w + int n * i"
  shows "\<exists>r seen w'. WaitForLinkButton attemptPair info clock sleep pro (Some d) w = Some (r, seen, w')
           \<and> length seen \<le> n"
proof -
  obtain r seen w' where "wait_loop attemptPair clock sleep (Some d) [] 0 w = Some (r, seen, w')" "length seen \<le> n"
    using wait_loop_returns_aux [of clock attemptPair i sleep d w n "[]" 0] assms by auto
  then show ?thesis by (cases r) (auto simp: WaitForLinkButton_def split: prod.splits)
qed

text \<open>A Pro whose button is never pressed, polled every 3 s with one minute to go.\<close>

lemma WaitForLinkButton_returns_witness:
  "\<exists>r seen w'. WaitForLinkButton (\<lambda>w. (Inl (PairBridge ''link button not pressed''), w)) (\<lambda>w. (Inl ErrNoBridgeResource, w))
      (\<lambda>w. w) (\<lambda>w. (True, w + 3 * second)) demo_pro (Some (60 * second)) 0 = Some (r, seen, w') \<and> length seen \<le> 20"
  by (rule WaitForLinkButton_returns [where i = "3 * second"]) (simp_all add: second_def)

lemma wait_loop_success:
  assumes "wait_loop attemptPair clock sleep deadline seen attempt w = Some y"
  shows "\<forall>res. fst y = Inr res \<longrightarrow> (\<exists>u. attemptPair u = (Inr res, snd (snd y)))"
proof -
  have "\<forall>res. fst y = Inr res \<longrightarrow> (\<exists>u. attemptPair u = (Inr res, snd (snd y)))"
  proof (rule wait_loop.raw_induct [where P = "\<lambda>p _ _ _ _ _ _ z. \<forall>res. fst z = Inr res \<longrightarrow> (\<exists>u. p u = (Inr res, snd (snd z)))", OF _ assms])
    fix wl p t sl dl sn at' v z
    assume IH: "\<And>p t sl dl sn at' v z. wl p t sl dl sn at' v = Some z \<Longrightarrow>
        \<forall>res. fst z = Inr res \<longrightarrow> (\<exists>u. p u = (Inr res, snd (snd z)))"
      and body: "(case p v of (r, w1) \<Rightarrow> case r of
          Inl err \<Rightarrow> if (case dl of None \<Rightarrow> False | Some d \<Rightarrow> \<not> t w1 < d)
             then Some (Inl (WaitDeadline err), sn, w1)
             else (case sl w1 of (ok, w2) \<Rightarrow> if \<not> ok then Some (Inl WaitCancelled, sn @ [at'], w2)
               else wl p t sl dl (sn @ [at']) (Suc at') w2)
        | Inr res \<Rightarrow> Some (Inr res, sn, w1)) = Some z"
    obtain r w1 where a: "p v = (r, w1)" by fastforce
    obtain ok w2 where z: "sl w1 = (ok, w2)" by fastforce
    show "\<forall>res. fst z = Inr res \<longrightarrow> (\<exists>u. p u = (Inr res, snd (snd z)))"
      using body a z IH by (cases r) (auto split: if_splits)
  qed
  then show ?thesis .
qed

lemma WaitForLinkButton_result:
  assumes "WaitForLinkButton attemptPair info clock sleep pro deadline w = Some (Inr pro', seen, w')"
  shows "\<exists>u res w''. attemptPair u = (Inr res, w'')
    \<and> bp_AppKey pro' = pr_AppKey res \<and> bp_ClientKey pro' = pr_ClientKey res
    \<and> bp_Host pro' = bp_Host pro \<and> bp_CertSHA256 pro' = bp_CertSHA256 pro
    \<and> bp_SkipTLSVerify pro' = bp_SkipTLSVerify pro \<and> bp_DiscoveryID pro' = bp_DiscoveryID pro"
proof -
  from assms obtain res w1 where l: "wait_loop attemptPair clock sleep deadline [] 0 w = Some (Inr res, seen, w1)"
      and c: "capture info (pro\<lparr>bp_AppKey := pr_AppKey res, bp_ClientKey := pr_ClientKey res\<rparr>) w1 = (pro', w')"
    by (auto simp: WaitForLinkButton_def split: option.splits sum.splits prod.splits)
  from wait_loop_success [OF l] obtain u where u: "attemptPair u = (Inr res, w1)" by auto
  show ?thesis
    by (rule exI [of _ u], rule exI [of _ res], rule exI [of _ w1])
      (use c u in \<open>auto simp: capture_def split: prod.splits sum.splits\<close>)
qed


text \<open>
  Pairing succeeds with what the Pro said: when the loop returns a pairing, the last request
  succeeded, its keys are the ones stored, and the host, the pinned certificate and the verification
  setting the caller chose are untouched.
\<close>

theorem WaitForLinkButton_pairs:
  assumes "WaitForLinkButton attemptPair info clock sleep pro deadline w = Some (Inr pro', seen, w')"
  shows "\<exists>u res w''. attemptPair u = (Inr res, w'')
    \<and> bp_AppKey pro' = pr_AppKey res \<and> bp_ClientKey pro' = pr_ClientKey res
    \<and> bp_Host pro' = bp_Host pro \<and> bp_CertSHA256 pro' = bp_CertSHA256 pro
    \<and> bp_SkipTLSVerify pro' = bp_SkipTLSVerify pro \<and> bp_DiscoveryID pro' = bp_DiscoveryID pro"
  using WaitForLinkButton_result [OF assms] .

definition demo_attempt :: "int \<Rightarrow> (pair_error + PairResult) \<times> int" where
  "demo_attempt w = (if w < 2 then Inl PairEmpty else Inr \<lparr>pr_AppKey = ''k'', pr_ClientKey = ''c''\<rparr>, w)"

definition demo_paired_pro :: BridgePro where
  "demo_paired_pro = demo_pro\<lparr>bp_AppKey := ''k'', bp_ClientKey := ''c'', bp_Name := ''Pro'', bp_BridgeID := ''id''\<rparr>"

lemma demo_wait:
  "WaitForLinkButton demo_attempt (\<lambda>w. (Inr (''Pro'', ''id''), w)) (\<lambda>w. w) (\<lambda>w. (True, w + 1)) demo_pro None 0
      = Some (Inr demo_paired_pro, [0, 1], 2)"
  by (simp add: WaitForLinkButton_def wait_loop.simps [of demo_attempt] demo_attempt_def capture_def demo_paired_pro_def)

lemma WaitForLinkButton_pairs_witness:
  "\<exists>u res w''. demo_attempt u = (Inr res, w'')
    \<and> bp_AppKey demo_paired_pro = pr_AppKey res \<and> bp_ClientKey demo_paired_pro = pr_ClientKey res
    \<and> bp_Host demo_paired_pro = bp_Host demo_pro \<and> bp_CertSHA256 demo_paired_pro = bp_CertSHA256 demo_pro
    \<and> bp_SkipTLSVerify demo_paired_pro = bp_SkipTLSVerify demo_pro
    \<and> bp_DiscoveryID demo_paired_pro = bp_DiscoveryID demo_pro"
  by (rule WaitForLinkButton_pairs [OF demo_wait])

text \<open>What discovery returns: every bridge once, never relume-tv itself.\<close>

definition bridge_key :: "DiscoveredBridge \<Rightarrow> string" where
  "bridge_key b = (if db_ID b = [] then db_InternalIPAddress b else db_ID b)"

lemma discover_loop_keys:
  "distinct (map bridge_key (discover_loop excl seen es))
   \<and> (\<forall>b \<in> set (discover_loop excl seen es). bridge_key b \<notin> set seen)"
proof (induction es arbitrary: seen)
  case (Cons e es)
  obtain b m where p: "parseHueTXT (se_InfoFields e) = (b, m)" by fastforce
  show ?case
  proof (cases "se_AddrV4 e")
    case None
    then show ?thesis using Cons.IH by simp
  next
    case (Some ip)
    define k where "k = (if b = [] then ip else b)"
    define d where "d = \<lparr>db_ID = b, db_InternalIPAddress = ip, db_Port = se_Port e, db_ModelID = m\<rparr>"
    have "bridge_key d = k" by (simp add: d_def k_def bridge_key_def)
    moreover have "discover_loop excl seen (e # es) = discover_loop excl seen es
        \<or> k \<notin> set seen \<and> discover_loop excl seen (e # es) = d # discover_loop excl (k # seen) es"
      using Some p by (auto simp: Let_def k_def d_def)
    ultimately show ?thesis using Cons.IH [of seen] Cons.IH [of "k # seen"]
      by (force simp del: discover_loop.simps)
  qed
qed simp

lemma discover_loop_not_own:
  "excl \<noteq> [] \<Longrightarrow> b \<in> set (discover_loop excl seen es) \<Longrightarrow> \<not> EqualFold (db_ID b) excl"
proof (induction es arbitrary: seen)
  case (Cons e es)
  obtain i m where p: "parseHueTXT (se_InfoFields e) = (i, m)" by fastforce
  with Cons show ?case
    by (cases "se_AddrV4 e") (auto simp: Let_def split: if_splits)
qed simp

end
