(* ===== verification/Translate.thy ===== *)
theory Translate
  imports HueClient Convert
begin

text \<open>
  The translation between the Hue Bridge Pro's CLIP v2 lights and the CLIP v1 view of the TV
  (\<open>internal/translate\<close>): the v1 light list with its stable numeric ids, and the v1 state to v2 body
  conversion of the control path.

  The lemmas show that the v1 ids are exactly 1 to n over the colour-capable lights in the given
  order and name each of them once, that the values of both directions are in range, and that a
  colour the entertainment path produces reaches the v2 body unchanged.
\<close>

section \<open>Lights towards the TV\<close>

definition briFromPercent :: "real \<Rightarrow> int" where
  "briFromPercent pct =
     (if pct \<le> 0 then 1
      else let bri = trunc (pct / 100 * 253) + 1 in if bri > 254 then 254 else bri)"

definition shortID :: "string \<Rightarrow> string" where
  "shortID i = (if length i \<ge> 8 then take 8 i else i)"

definition lightProfile :: "bool \<Rightarrow> bool \<Rightarrow> bool \<Rightarrow> string \<times> string \<times> string" where
  "lightProfile color ct dimmable =
     (if color \<and> ct then (''Extended color light'', ''LCT015'', ''Hue color lamp'')
      else if color then (''Color light'', ''LCT015'', ''Hue color lamp'')
      else if ct then (''Color temperature light'', ''LTW001'', ''Hue ambiance lamp'')
      else if dimmable then (''Dimmable light'', ''LWB010'', ''Hue white lamp'')
      else (''On/Off plug-in unit'', ''LOM001'', ''Hue Smart plug''))"

definition lightState :: "Light \<Rightarrow> obj" where
  "lightState l =
     (let s0 = [(''on'', GBool (lt_On l)), (''alert'', GStr ''none''), (''reachable'', GBool True)];
          s1 = (case lt_Dimming l of None \<Rightarrow> s0 | Some b \<Rightarrow> mput ''bri'' (GInt (briFromPercent b)) s0);
          s2 = (case lt_Color l of None \<Rightarrow> s1
                | Some c \<Rightarrow> if lc_X c \<noteq> 0 \<or> lc_Y c \<noteq> 0
                    then mput ''colormode'' (GStr ''xy'') (mput ''xy'' (GFloats [lc_X c, lc_Y c]) s1) else s1)
      in case lt_ColorTemperature l of None \<Rightarrow> s2
         | Some m \<Rightarrow> if m \<noteq> 0
             then (let s3 = mput ''ct'' (GInt m) s2 in
                   if mget s3 ''xy'' = None then mput ''colormode'' (GStr ''ct'') s3 else s3)
             else s2)"

definition lightV1 :: "Light \<Rightarrow> gval" where
  "lightV1 l =
     (let name = (if lt_Name l = [] then ''Hue light '' @ shortID (lt_ID l) else lt_Name l);
          (typ, modelid, productname) = lightProfile (HasColor l) (HasColorTemperature l) (HasDimming l)
      in GObj [(''state'', GObj (lightState l)), (''type'', GStr typ), (''name'', GStr name),
          (''modelid'', GStr modelid), (''manufacturername'', GStr ''Signify Netherlands B.V.''),
          (''productname'', GStr productname), (''uniqueid'', GStr (lt_ID l)),
          (''swversion'', GStr ''1.122.2'')])"

record LightMap =
  lm_V1 :: "(string, gval) gomap"
  lm_V1ToUUID :: "(string, string) gomap"

fun LightsV1_loop :: "int \<Rightarrow> LightMap \<Rightarrow> Light list \<Rightarrow> LightMap" where
  "LightsV1_loop n lm [] = lm"
| "LightsV1_loop n lm (l # ls) =
     (if \<not> HasColor l then LightsV1_loop n lm ls
      else let sid = Itoa (n + 1) in
        LightsV1_loop (n + 1)
          \<lparr>lm_V1 = mput sid (lightV1 l) (lm_V1 lm), lm_V1ToUUID = mput sid (lt_ID l) (lm_V1ToUUID lm)\<rparr> ls)"

definition LightsV1 :: "Light list \<Rightarrow> LightMap" where
  "LightsV1 lights = LightsV1_loop 0 \<lparr>lm_V1 = [], lm_V1ToUUID = []\<rparr> lights"

section \<open>States towards the Pro\<close>

definition toFloat :: "gval \<Rightarrow> real option" where
  "toFloat v = (case v of GFloat x \<Rightarrow> Some x | GFloat32 x \<Rightarrow> Some x | GInt n \<Rightarrow> Some (of_int n)
     | GInt64 n \<Rightarrow> Some (of_int n) | GInt32 n \<Rightarrow> Some (of_int n) | _ \<Rightarrow> None)"

definition briToPercent :: "real \<Rightarrow> real" where
  "briToPercent bri = (if bri \<le> 1 then 0
     else let pct = (bri - 1) / 253 * 100 in if pct > 100 then 100 else pct)"

definition xyPair :: "gval \<Rightarrow> (real \<times> real) option" where
  "xyPair v = (case v of
       GArr [a, b] \<Rightarrow> (case (toFloat a, toFloat b) of (Some x, Some y) \<Rightarrow> Some (x, y) | _ \<Rightarrow> None)
     | GFloats [x, y] \<Rightarrow> Some (x, y)
     | GFloats32 [x, y] \<Rightarrow> Some (x, y)
     | _ \<Rightarrow> None)"

text \<open>The fields appended when present; every key is new, so a store is an append.\<close>

definition StateV1ToV2 :: "obj \<Rightarrow> obj" where
  "StateV1ToV2 v1 =
     (case oget v1 ''on'' of GBool on \<Rightarrow> [(''on'', GObj [(''on'', GBool on)])] | _ \<Rightarrow> [])
   @ (case toFloat (oget v1 ''bri'') of None \<Rightarrow> []
      | Some bri \<Rightarrow> [(''dimming'', GObj [(''brightness'', GFloat (briToPercent bri))])])
   @ (case xyPair (oget v1 ''xy'') of None \<Rightarrow> []
      | Some (x, y) \<Rightarrow> [(''color'', GObj [(''xy'', GObj [(''x'', GFloat x), (''y'', GFloat y)])])])
   @ (case toFloat (oget v1 ''ct'') of None \<Rightarrow> []
      | Some ct \<Rightarrow> [(''color_temperature'', GObj [(''mirek'', GInt (trunc ct))])])
   @ (case toFloat (oget v1 ''transitiontime'') of None \<Rightarrow> []
      | Some tt \<Rightarrow> [(''dynamics'', GObj [(''duration'', GInt (trunc tt * 100))])])"

section \<open>Lemmas\<close>

lemma briFromPercent_range: "1 \<le> briFromPercent pct \<and> briFromPercent pct \<le> 254"
proof (cases "pct \<le> 0")
  case False
  then have "0 \<le> trunc (pct / 100 * 253)" by simp
  then show ?thesis using False by (simp add: briFromPercent_def Let_def)
qed (simp add: briFromPercent_def)

lemma briToPercent_range: "0 \<le> briToPercent bri \<and> briToPercent bri \<le> 100"
  by (auto simp: briToPercent_def Let_def)

lemma briToPercent_mono: "a \<le> b \<Longrightarrow> briToPercent a \<le> briToPercent b"
  by (auto simp: briToPercent_def Let_def divide_right_mono)

text \<open>The keys and values as lists: the \<open>i\<close>-th colour-capable light is stored under \<open>i + 1\<close>.\<close>

fun number :: "int \<Rightarrow> 'a list \<Rightarrow> (string \<times> 'a) list" where
  "number n [] = []"
| "number n (x # xs) = (Itoa (n + 1), x) # number (n + 1) xs"

lemma number_append: "number n (xs @ ys) = number n xs @ number (n + int (length xs)) ys"
  by (induction xs arbitrary: n) (auto simp: algebra_simps)

lemma number_nth: "number n xs = map (\<lambda>i. (Itoa (n + 1 + int i), xs ! i)) [0..<length xs]"
proof (induction xs arbitrary: n)
  case (Cons x xs)
  then show ?case by (simp add: map_Suc_upt [symmetric] upt_conv_Cons algebra_simps del: upt_Suc) 
qed simp

lemma number_keys: "set (mkeys (number 0 xs)) = {Itoa (int i + 1) | i. i < length xs}"
  by (auto simp: number_nth algebra_simps image_iff)

lemma Itoa_fresh:
  assumes "length pre < 2 ^ 62" shows "Itoa (int (length pre) + 1) \<notin> set (mkeys (number 0 pre))"
proof
  assume "Itoa (int (length pre) + 1) \<in> set (mkeys (number 0 pre))"
  then obtain i where i: "i < length pre" "Itoa (int (length pre) + 1) = Itoa (int i + 1)"
    by (subst (asm) number_keys) blast
  have "int (length pre) < 2 ^ 62" using assms by (metis of_nat_less_iff of_nat_power of_nat_numeral)
  then have "int (length pre) + 1 = int i + 1"
    using i by (intro Itoa_inj) (auto simp: int_in_range_def)
  with i(1) show False by simp
qed

definition numbered :: "Light list \<Rightarrow> LightMap" where
  "numbered ls = \<lparr>lm_V1 = map (\<lambda>(k, l). (k, lightV1 l)) (number 0 ls),
     lm_V1ToUUID = map (\<lambda>(k, l). (k, lt_ID l)) (number 0 ls)\<rparr>"

lemma mkeys_map: "mkeys (map (\<lambda>(k, l). (k, f l)) m) = mkeys m"
  by (induction m) auto

lemma mput_map_new: "k \<notin> set (mkeys m) \<Longrightarrow> mput k v (map (\<lambda>(k, l). (k, f l)) m) = map (\<lambda>(k, l). (k, f l)) m @ [(k, v)]"
  by (rule mput_new) (simp only: mkeys_map not_False_eq_True)

lemma LightsV1_loop_eq:
  "length pre + length ls < 2 ^ 62 \<Longrightarrow>
   LightsV1_loop (int (length pre)) (numbered pre) ls = numbered (pre @ filter HasColor ls)"
proof (induction ls arbitrary: pre)
  case (Cons l ls)
  show ?case
  proof (cases "HasColor l")
    case True
    have "Itoa (int (length pre) + 1) \<notin> set (mkeys (number 0 pre))"
      by (rule Itoa_fresh) (use Cons.prems in simp)
    then have "\<lparr>lm_V1 = mput (Itoa (int (length pre) + 1)) (lightV1 l) (lm_V1 (numbered pre)),
          lm_V1ToUUID = mput (Itoa (int (length pre) + 1)) (lt_ID l) (lm_V1ToUUID (numbered pre))\<rparr>
        = numbered (pre @ [l])"
      by (simp add: numbered_def number_append mput_map_new del: set_map)
    moreover have "int (length pre) + 1 = int (length (pre @ [l]))" by simp
    ultimately show ?thesis using Cons.IH [of "pre @ [l]"] Cons.prems True
      by (simp add: Let_def add.commute)
  next
    case False
    then show ?thesis using Cons by simp
  qed
qed simp

lemma LightsV1_numbered: "length lights < 2 ^ 62 \<Longrightarrow> LightsV1 lights = numbered (filter HasColor lights)"
  using LightsV1_loop_eq [of "[]" lights] by (simp add: LightsV1_def numbered_def)

lemma number_distinct: "length xs < 2 ^ 62 \<Longrightarrow> distinct (mkeys (number 0 xs))"
proof (induction xs rule: rev_induct)
  case (snoc x xs)
  then show ?case using Itoa_fresh [of xs] by (simp add: number_append)
qed simp

text \<open>For any list: the ids are decimal numbers, each stored once.\<close>

lemma LightsV1_loop_keys:
  "(k, u) \<in> set (lm_V1ToUUID (LightsV1_loop n lm ls)) \<Longrightarrow> k \<in> set (mkeys (lm_V1ToUUID lm)) \<or> (\<exists>j. k = Itoa j)"
proof (induction n lm ls rule: LightsV1_loop.induct)
  case (2 n lm l ls)
  then show ?case by (cases "HasColor l") (auto simp: Let_def simp del: set_map)
qed (force simp: image_iff)

lemma LightsV1_loop_ok: "gomap_ok (lm_V1ToUUID lm) \<Longrightarrow> gomap_ok (lm_V1ToUUID (LightsV1_loop n lm ls))"
  by (induction n lm ls rule: LightsV1_loop.induct) (simp_all add: Let_def)

lemma LightsV1_lookup:
  assumes "(k, u) \<in> set (lm_V1ToUUID (LightsV1 ls))" "Atoi k = Some n"
  shows "mget (lm_V1ToUUID (LightsV1 ls)) (Itoa n) = Some u"
proof -
  have "\<exists>j. k = Itoa j" using assms(1) LightsV1_loop_keys by (fastforce simp: LightsV1_def)
  then have "k = Itoa n" using assms(2) Atoi_Itoa_Some by blast
  moreover have "gomap_ok (lm_V1ToUUID (LightsV1 ls))" by (simp add: LightsV1_def LightsV1_loop_ok)
  ultimately show ?thesis using assms(1) by (simp add: gomap_ok_mem)
qed

section \<open>Properties\<close>

text \<open>
  The ids the TV sees: exactly the colour-capable lights are offered, in the order given, under
  the ids \<open>1\<close> to \<open>n\<close>; each id names one light, and a non-colour light has none.
\<close>

theorem LightsV1_ids:
  assumes "length lights < 2 ^ 62"
  shows "mget (lm_V1ToUUID (LightsV1 lights)) s = Some u \<longleftrightarrow>
    (\<exists>i < length (filter HasColor lights). s = Itoa (int i + 1) \<and> u = lt_ID (filter HasColor lights ! i))"
proof -
  let ?cs = "filter HasColor lights"
  have len: "length ?cs < 2 ^ 62" using assms length_filter_le [of HasColor lights] by linarith
  have eq: "lm_V1ToUUID (LightsV1 lights) = map (\<lambda>(k, l). (k, lt_ID l)) (number 0 ?cs)"
    using LightsV1_numbered [OF assms] by (simp add: numbered_def)
  have "gomap_ok (lm_V1ToUUID (LightsV1 lights))"
    using number_distinct [OF len] by (simp only: gomap_ok_def eq mkeys_map)
  then have "mget (lm_V1ToUUID (LightsV1 lights)) s = Some u \<longleftrightarrow> (s, u) \<in> set (lm_V1ToUUID (LightsV1 lights))"
    by (simp add: gomap_ok_mem)
  also have "\<dots> \<longleftrightarrow> (\<exists>i < length ?cs. s = Itoa (int i + 1) \<and> u = lt_ID (?cs ! i))"
    by (auto simp: eq number_nth algebra_simps image_iff)
  finally show ?thesis .
qed

definition demo_lights :: "Light list" where
  "demo_lights = [\<lparr>lt_ID = ''aa'', lt_Name = ''desk'', lt_On = True, lt_Dimming = Some 50, lt_Color = None,
       lt_ColorTemperature = None, lt_OwnerRID = ''d1''\<rparr>,
     \<lparr>lt_ID = ''bb'', lt_Name = ''left'', lt_On = False, lt_Dimming = Some 50,
       lt_Color = Some \<lparr>lc_X = 1/2, lc_Y = 1/4\<rparr>, lt_ColorTemperature = Some 300, lt_OwnerRID = ''d2''\<rparr>]"

lemma LightsV1_ids_witness:
  "mget (lm_V1ToUUID (LightsV1 demo_lights)) ''1'' = Some ''bb''"
proof -
  have "''1'' = Itoa (int 0 + 1)" by code_simp
  then show ?thesis by (subst LightsV1_ids) (auto simp: demo_lights_def HasColor_def)
qed

text \<open>
  No colour is dropped between the two stages: whatever channel the entertainment path decodes,
  in either colour space, the v2 body made from its v1 state switches the light on and carries the
  same chromaticity and a brightness between 0 and 100 percent.
\<close>

theorem StateV1ToV2_ToHueV1State:
  "\<exists>x y b. oget (ToHueV1State cs c) ''xy'' = GFloats [x, y]
     \<and> StateV1ToV2 (ToHueV1State cs c) =
         [(''on'', GObj [(''on'', GBool True)]), (''dimming'', GObj [(''brightness'', GFloat b)]),
          (''color'', GObj [(''xy'', GObj [(''x'', GFloat x), (''y'', GFloat y)])])]
     \<and> 0 \<le> b \<and> b \<le> 100"
proof -
  obtain x y bri where s: "ToHueV1State cs c = [(''on'', GBool True), (''xy'', GFloats [x, y]), (''bri'', GInt bri)]"
    using ToHueV1State_shape by blast
  show ?thesis
    by (rule exI [of _ x], rule exI [of _ y], rule exI [of _ "briToPercent (of_int bri)"])
      (use briToPercent_range in \<open>simp add: s StateV1ToV2_def oget_def toFloat_def xyPair_def\<close>)
qed

end
