(* ===== verification/Receiver.thy ===== *)
theory Receiver
  imports Huestream Systems "HOL-Library.Sublist"
begin

text \<open>
  The TV-facing DTLS receiver (\<open>internal/entertainment/receiver.go\<close>).  DTLS itself (the handshake,
  the decrypted datagrams, the read deadline) is the library's: what the reader sees is a sequence
  of read results.

  Two state machines: the reader with its bounded queue and window statistics, one critical section
  per step; and the sessions, whose registration, waiting, callbacks and cleanup interleave freely.
\<close>

section \<open>Brightness and jumps\<close>

definition nearZeroBri :: u32 where
  "nearZeroBri = 2048"

definition brightness :: "u8 \<Rightarrow> Channel \<Rightarrow> u32" where
  "brightness colorSpace c =
     (if colorSpace = ColorSpaceXY then ucast (ch_C c)
      else let m = ch_A c;
               m = (if ch_B c > m then ch_B c else m);
               m = (if ch_C c > m then ch_C c else m)
           in ucast m)"

definition absDiff :: "u32 \<Rightarrow> u32 \<Rightarrow> u32" where
  "absDiff a b = (if a > b then a - b else b - a)"

lemma unat_absDiff: "int (unat (absDiff a b)) = \<bar>int (unat a) - int (unat b)\<bar>"
proof (cases "b < a")
  case True
  then have e: "unat (a - b) = unat a - unat b" by (intro unat_sub) (simp add: order_less_imp_le)
  have l: "unat b < unat a" using True by (simp add: word_less_nat_alt)
  have "absDiff a b = a - b" using True by (simp add: absDiff_def)
  then have "int (unat (absDiff a b)) = int (unat a) - int (unat b)"
    by (simp only: e of_nat_diff [OF less_imp_le [OF l]])
  then show ?thesis using l by linarith
next
  case False
  then have e: "unat (b - a) = unat b - unat a" by (intro unat_sub) (simp add: not_less)
  have l: "unat a \<le> unat b" using False by (simp add: not_less word_le_nat_alt)
  have "absDiff a b = b - a" using False by (simp add: absDiff_def)
  then have "int (unat (absDiff a b)) = int (unat b) - int (unat a)" by (simp only: e of_nat_diff [OF l])
  then show ?thesis using l by linarith
qed

text \<open>The colour jump between two channels; in xy frames the third component is the brightness.\<close>

definition colorJump :: "u8 \<Rightarrow> Channel \<Rightarrow> Channel \<Rightarrow> u32" where
  "colorJump colorSpace cur prv =
     (let cj = absDiff (ucast (ch_A cur)) (ucast (ch_A prv)) + absDiff (ucast (ch_B cur)) (ucast (ch_B prv))
      in if colorSpace \<noteq> ColorSpaceXY then cj + absDiff (ucast (ch_C cur)) (ucast (ch_C prv)) else cj)"

section \<open>The reader\<close>

record recv_state =
  rc_sink :: bool
  rc_frames :: nat
  rc_dropped :: nat
  rc_last :: "Frame option"
  rc_firstLogged :: bool
  rc_briMin :: u32
  rc_briMax :: u32
  rc_briJump :: u32
  rc_colJump :: u32
  rc_nearZero :: nat
  rc_idleClosed :: bool
  rc_closed :: bool
  rc_queue :: "Frame list"
  rc_forwarded :: "Frame list"
  rc_activity :: nat

definition frameQueueSize :: nat where
  "frameQueueSize = 8"

definition recv_start :: "bool \<Rightarrow> recv_state" where
  "recv_start sink = \<lparr>rc_sink = sink, rc_frames = 0, rc_dropped = 0, rc_last = None, rc_firstLogged = False,
     rc_briMin = 0xFFFF, rc_briMax = 0, rc_briJump = 0, rc_colJump = 0, rc_nearZero = 0,
     rc_idleClosed = False, rc_closed = False, rc_queue = [], rc_forwarded = [], rc_activity = 0\<rparr>"

fun stat_channels :: "u8 \<Rightarrow> Channel list \<Rightarrow> recv_state \<Rightarrow> recv_state" where
  "stat_channels cs [] s = s"
| "stat_channels cs (c # chs) s =
     (let b = brightness cs c;
          s = (if b < rc_briMin s then s\<lparr>rc_briMin := b\<rparr> else s);
          s = (if b > rc_briMax s then s\<lparr>rc_briMax := b\<rparr> else s);
          s = (if b < nearZeroBri then s\<lparr>rc_nearZero := rc_nearZero s + 1\<rparr> else s)
      in stat_channels cs chs s)"

fun stat_jumps :: "Frame \<Rightarrow> Frame \<Rightarrow> Channel list \<Rightarrow> Channel list \<Rightarrow> recv_state \<Rightarrow> recv_state" where
  "stat_jumps f prev (cur # cs) (prv # ps) s =
     (let d = absDiff (brightness (fr_ColorSpace f) cur) (brightness (fr_ColorSpace prev) prv);
          s = (if d > rc_briJump s then s\<lparr>rc_briJump := d\<rparr> else s);
          cj = colorJump (fr_ColorSpace f) cur prv;
          s = (if cj > rc_colJump s then s\<lparr>rc_colJump := cj\<rparr> else s)
      in stat_jumps f prev cs ps s)"
| "stat_jumps f prev _ _ s = s"

text \<open>A non-blocking send to the forwarder: the newest frame is dropped when the queue is full.\<close>

definition enqueue :: "Frame \<Rightarrow> recv_state \<Rightarrow> recv_state" where
  "enqueue f s =
     (if \<not> rc_sink s then s
      else if length (rc_queue s) < frameQueueSize then s\<lparr>rc_queue := rc_queue s @ [f]\<rparr>
      else s\<lparr>rc_dropped := rc_dropped s + 1\<rparr>)"

definition account :: "Frame \<Rightarrow> recv_state \<Rightarrow> recv_state" where
  "account f s =
     (let s = stat_channels (fr_ColorSpace f) (fr_Channels f) s;
          s = (case rc_last s of None \<Rightarrow> s
               | Some prev \<Rightarrow> if length (fr_Channels prev) = length (fr_Channels f)
                   then stat_jumps f prev (fr_Channels f) (fr_Channels prev) s else s)
      in s\<lparr>rc_frames := rc_frames s + 1, rc_last := Some f, rc_firstLogged := True\<rparr>)"

datatype read_result = Datagram "u8 list" | ReadTimeout | ReadError

definition read_step :: "read_result \<Rightarrow> recv_state \<Rightarrow> recv_state" where
  "read_step r s =
     (case r of
        ReadTimeout \<Rightarrow> s\<lparr>rc_idleClosed := True, rc_closed := True\<rparr>
      | ReadError \<Rightarrow> s\<lparr>rc_closed := True\<rparr>
      | Datagram buf \<Rightarrow>
          (case Parse buf of
             Inl _ \<Rightarrow> s
           | Inr f \<Rightarrow> account f (enqueue f (s\<lparr>rc_activity := rc_activity s + 1\<rparr>))))"

text \<open>The forwarder hands the oldest queued frame to \<open>OnFrame\<close>; it drains the queue after the close.\<close>

definition forward_step :: "recv_state \<Rightarrow> recv_state" where
  "forward_step s = (case rc_queue s of [] \<Rightarrow> s
     | f # q \<Rightarrow> s\<lparr>rc_queue := q, rc_forwarded := rc_forwarded s @ [f]\<rparr>)"

text \<open>The 5 s rollup: what \<open>OnWindowStats\<close> is told, and the reset of the window.\<close>

definition rollup :: "recv_state \<Rightarrow> (u32 \<times> u32) \<times> recv_state" where
  "rollup s = ((rc_briJump s, rc_colJump s),
     s\<lparr>rc_briMin := 0xFFFF, rc_briMax := 0, rc_briJump := 0, rc_colJump := 0, rc_nearZero := 0\<rparr>)"

text \<open>The first channel of a frame, scaled to 8 bits, as it is logged.\<close>

definition sample :: "Frame \<Rightarrow> string" where
  "sample f = (case fr_Channels f of [] \<Rightarrow> []
     | c # _ \<Rightarrow> ''ch'' @ itoa_nat (unat (ch_ID c)) @ ''='' @ itoa_nat (unat (drop_bit 8 (ch_A c))) @ ''/''
         @ itoa_nat (unat (drop_bit 8 (ch_B c))) @ ''/'' @ itoa_nat (unat (drop_bit 8 (ch_C c))))"

datatype recv_event = EvRead read_result | EvForward | EvRollup

inductive recv_step :: "recv_state \<Rightarrow> recv_event \<Rightarrow> recv_state \<Rightarrow> bool" where
  "\<not> rc_closed s \<Longrightarrow> recv_step s (EvRead r) (read_step r s)"
| "rc_queue s \<noteq> [] \<Longrightarrow> recv_step s EvForward (forward_step s)"
| "recv_step s EvRollup (snd (rollup s))"

lemma stat_channels_keeps:
  "rc_queue (stat_channels cs chs s) = rc_queue s" "rc_forwarded (stat_channels cs chs s) = rc_forwarded s"
  "rc_dropped (stat_channels cs chs s) = rc_dropped s" "rc_frames (stat_channels cs chs s) = rc_frames s"
  "rc_activity (stat_channels cs chs s) = rc_activity s" "rc_sink (stat_channels cs chs s) = rc_sink s"
  by (induction cs chs s rule: stat_channels.induct) (simp_all add: Let_def)

lemma stat_jumps_keeps:
  "rc_queue (stat_jumps f p cs ps s) = rc_queue s" "rc_forwarded (stat_jumps f p cs ps s) = rc_forwarded s"
  "rc_dropped (stat_jumps f p cs ps s) = rc_dropped s" "rc_frames (stat_jumps f p cs ps s) = rc_frames s"
  "rc_activity (stat_jumps f p cs ps s) = rc_activity s" "rc_sink (stat_jumps f p cs ps s) = rc_sink s"
  by (induction f p cs ps s rule: stat_jumps.induct) (simp_all add: Let_def)

lemmas stat_keeps = stat_channels_keeps stat_jumps_keeps

lemma account_keeps [simp]:
  "rc_queue (account f s) = rc_queue s" "rc_forwarded (account f s) = rc_forwarded s"
  "rc_dropped (account f s) = rc_dropped s" "rc_frames (account f s) = rc_frames s + 1"
  "rc_activity (account f s) = rc_activity s" "rc_sink (account f s) = rc_sink s"
  by (simp_all add: account_def Let_def stat_keeps split: option.splits)

text \<open>The frames that were decoded so far.\<close>

fun decoded :: "recv_event list \<Rightarrow> Frame list" where
  "decoded [] = []"
| "decoded (EvRead (Datagram buf) # es) = (case Parse buf of Inl _ \<Rightarrow> decoded es | Inr f \<Rightarrow> f # decoded es)"
| "decoded (_ # es) = decoded es"

lemma decoded_append: "decoded (es @ fs) = decoded es @ decoded fs"
  by (induction es rule: decoded.induct) (auto split: sum.splits)

definition recv_inv :: "recv_state \<Rightarrow> bool" where
  "recv_inv s \<longleftrightarrow> length (rc_queue s) \<le> frameQueueSize \<and> rc_activity s = rc_frames s
     \<and> (rc_sink s \<longrightarrow> rc_frames s = length (rc_forwarded s) + length (rc_queue s) + rc_dropped s)"

definition recv_hist :: "recv_state \<Rightarrow> recv_event list \<Rightarrow> recv_state \<Rightarrow> bool" where
  "recv_hist s0 es s \<longleftrightarrow> rc_sink s = rc_sink s0 \<and> rc_frames s = length (decoded es)
     \<and> subseq (rc_forwarded s @ rc_queue s) (decoded es)"

lemma recv_inv_step: "recv_step s e s' \<Longrightarrow> recv_inv s \<Longrightarrow> recv_inv s'"
  by (induction rule: recv_step.induct)
    (auto simp: recv_inv_def read_step_def enqueue_def forward_step_def rollup_def
      split: read_result.splits sum.splits list.splits)

lemma recv_hist_step: "recv_step s e s' \<Longrightarrow> recv_hist s0 es s \<Longrightarrow> recv_hist s0 (es @ [e]) s'"
proof (induction rule: recv_step.induct)
  case (1 s r)
  show ?case
  proof (cases "\<exists>buf f. r = Datagram buf \<and> Parse buf = Inr f")
    case True
    then obtain buf f where r: "r = Datagram buf" "Parse buf = Inr f" by blast
    have sub: "subseq (rc_forwarded s @ rc_queue s) (decoded es)" using 1 by (simp add: recv_hist_def)
    have "subseq (rc_forwarded s @ rc_queue s) (decoded es @ [f])"
      "subseq ((rc_forwarded s @ rc_queue s) @ [f]) (decoded es @ [f])"
      using list_emb_append_mono [OF sub, of "[f]" "[f]"] list_emb_prefix [OF sub] by auto
    then show ?thesis using 1 r
      by (simp add: recv_hist_def read_step_def enqueue_def decoded_append)
  next
    case False
    then show ?thesis using 1
      by (cases r) (auto simp: recv_hist_def read_step_def decoded_append split: sum.splits)
  qed
qed (auto simp: recv_hist_def forward_step_def rollup_def decoded_append split: list.splits)

definition recv_init :: "recv_state \<Rightarrow> bool" where
  "recv_init s \<longleftrightarrow> (\<exists>b. s = recv_start b)"

lemma recv_init: "recv_init s \<Longrightarrow> recv_inv s \<and> recv_hist s [] s"
  by (auto simp: recv_init_def recv_start_def recv_inv_def recv_hist_def)

interpretation recv: history_system recv_init recv_step recv_inv recv_hist
  by unfold_locales (auto intro: recv_inv_step recv_hist_step dest: recv_init)

text \<open>
  C30: no frame is lost silently.  At any moment every frame decoded so far has been forwarded, is in
  the queue of at most eight, or is counted as dropped; what is forwarded comes in the order the TV
  sent it; and every decoded frame was reported as activity.
\<close>

theorem receiver_accounts:
  assumes "run recv_step (recv_start True) es s"
  shows "length (decoded es) = length (rc_forwarded s) + length (rc_queue s) + rc_dropped s
    \<and> subseq (rc_forwarded s @ rc_queue s) (decoded es)
    \<and> length (rc_queue s) \<le> frameQueueSize \<and> rc_activity s = length (decoded es)"
proof -
  have i: "recv_init (recv_start True)" by (auto simp: recv_init_def)
  from recv.reachable_inv [OF i assms] recv.reachable_hist [OF assms i] show ?thesis
    by (simp add: recv_inv_def recv_hist_def recv_start_def)
qed

text \<open>Two frames read, one forwarded, one still queued.\<close>

definition demo_datagram :: "u8 list" where
  "demo_datagram = Encode \<lparr>fr_Major = 1, fr_Minor = 0, fr_Sequence = 7, fr_ColorSpace = ColorSpaceXY,
     fr_ConfigID = [], fr_Channels = [\<lparr>ch_ID = 3, ch_A = 100, ch_B = 200, ch_C = 300\<rparr>]\<rparr>"

abbreviation demo_reads :: "recv_event list" where
  "demo_reads \<equiv> [EvRead (Datagram demo_datagram), EvRead (Datagram [1, 2]), EvForward, EvRead (Datagram demo_datagram)]"

definition demo_recv :: recv_state where
  "demo_recv = read_step (Datagram demo_datagram) (forward_step (read_step (Datagram [1, 2])
     (read_step (Datagram demo_datagram) (recv_start True))))"

lemma demo_recv_run: "run recv_step (recv_start True) demo_reads demo_recv"
proof -
  let ?s1 = "read_step (Datagram demo_datagram) (recv_start True)"
  let ?s2 = "read_step (Datagram [1, 2]) ?s1"
  have o: "\<not> rc_closed (recv_start True)" "\<not> rc_closed ?s1" "rc_queue ?s2 \<noteq> []" "\<not> rc_closed (forward_step ?s2)"
    by code_simp+
  show ?thesis unfolding demo_recv_def
    by (rule run_Cons [where step = recv_step], rule recv_step.intros(1) [OF o(1)],
        rule run_Cons [where step = recv_step], rule recv_step.intros(1) [OF o(2)],
        rule run_Cons [where step = recv_step], rule recv_step.intros(2) [OF o(3)],
        rule run_single [where step = recv_step], rule recv_step.intros(1) [OF o(4)])
qed

lemma receiver_accounts_witness:
  "length (decoded demo_reads) = length (rc_forwarded demo_recv) + length (rc_queue demo_recv) + rc_dropped demo_recv
    \<and> subseq (rc_forwarded demo_recv @ rc_queue demo_recv) (decoded demo_reads)
    \<and> length (rc_queue demo_recv) \<le> frameQueueSize \<and> rc_activity demo_recv = length (decoded demo_reads)"
  by (rule receiver_accounts [OF demo_recv_run])

section \<open>Sessions\<close>

text \<open>
  A session is one accepted connection, named by a number.  Its handler registers itself as the
  current session (replacing the one registered before), waits until a replaced session's handler
  is done, gives up if it was itself replaced meanwhile, else brackets its stream with the two
  callbacks, and deregisters.  The taking of \<open>sessMu\<close>, the wait on \<open>done\<close> and each callback are
  separate steps.  \<open>ses_order\<close>, the sessions in the order of registration (newest first), and
  \<open>ses_log\<close>, the callbacks so far, are ghost state.
\<close>

datatype ses_phase =
    Accepted
  | Waiting "nat option"
  | Ready
  | Superseded
  | Streaming
  | Stopped
  | Finished

datatype callback = CbStart nat | CbStop nat

record ses_sys =
  ses_cur :: "nat option"
  ses_phase :: "nat \<Rightarrow> ses_phase"
  ses_order :: "nat list"
  ses_log :: "callback list"

datatype ses_event = Register nat | Proceed nat | StreamStart nat | StreamStop nat | Cleanup nat

fun ses_next :: "ses_sys \<Rightarrow> ses_event \<Rightarrow> ses_sys option" where
  "ses_next y (Register i) =
     (if ses_phase y i = Accepted
      then Some (y\<lparr>ses_cur := Some i, ses_phase := (ses_phase y)(i := Waiting (ses_cur y)), ses_order := i # ses_order y\<rparr>)
      else None)"
| "ses_next y (Proceed i) =
     (case ses_phase y i of
        Waiting None \<Rightarrow> Some (y\<lparr>ses_phase := (ses_phase y)(i := Ready)\<rparr>)
      | Waiting (Some j) \<Rightarrow>
          if ses_phase y j = Finished
          then Some (y\<lparr>ses_phase := (ses_phase y)(i := (if ses_cur y \<noteq> Some i then Superseded else Ready))\<rparr>)
          else None
      | _ \<Rightarrow> None)"
| "ses_next y (StreamStart i) =
     (if ses_phase y i = Ready
      then Some (y\<lparr>ses_phase := (ses_phase y)(i := Streaming), ses_log := ses_log y @ [CbStart i]\<rparr>) else None)"
| "ses_next y (StreamStop i) =
     (if ses_phase y i = Streaming
      then Some (y\<lparr>ses_phase := (ses_phase y)(i := Stopped), ses_log := ses_log y @ [CbStop i]\<rparr>) else None)"
| "ses_next y (Cleanup i) =
     (if ses_phase y i = Stopped \<or> ses_phase y i = Superseded
      then Some (y\<lparr>ses_phase := (ses_phase y)(i := Finished),
                   ses_cur := (if ses_cur y = Some i then None else ses_cur y)\<rparr>)
      else None)"

definition ses_step :: "ses_sys \<Rightarrow> ses_event \<Rightarrow> ses_sys \<Rightarrow> bool" where
  "ses_step y e y' \<longleftrightarrow> ses_next y e = Some y'"

definition ses_start :: ses_sys where
  "ses_start = \<lparr>ses_cur = None, ses_phase = (\<lambda>_. Accepted), ses_order = [], ses_log = []\<rparr>"

text \<open>Reading the callbacks: the session whose stream is open, or an error when they interleave.\<close>

fun serial :: "callback list \<Rightarrow> nat option \<Rightarrow> nat option option" where
  "serial [] a = Some a"
| "serial (CbStart i # cs) None = serial cs (Some i)"
| "serial (CbStop i # cs) (Some j) = (if i = j then serial cs None else None)"
| "serial _ _ = None"

lemma serial_snoc: "serial cs a = Some b \<Longrightarrow> serial (cs @ [c]) a = serial [c] b"
  by (induction cs a rule: serial.induct) (auto split: if_splits)

text \<open>Everything registered before a session that no longer waits is finished.\<close>

fun chain_ok :: "(nat \<Rightarrow> ses_phase) \<Rightarrow> nat list \<Rightarrow> bool" where
  "chain_ok p [] \<longleftrightarrow> True"
| "chain_ok p (i # is) \<longleftrightarrow> chain_ok p is
     \<and> (case p i of
          Accepted \<Rightarrow> False
        | Waiting None \<Rightarrow> (\<forall>j \<in> set is. p j = Finished)
        | Waiting (Some j) \<Rightarrow> is \<noteq> [] \<and> hd is = j
        | _ \<Rightarrow> (\<forall>j \<in> set is. p j = Finished))"

definition ses_inv :: "ses_sys \<Rightarrow> bool" where
  "ses_inv y \<longleftrightarrow> chain_ok (ses_phase y) (ses_order y) \<and> distinct (ses_order y)
     \<and> (\<forall>i. ses_phase y i \<noteq> Accepted \<longleftrightarrow> i \<in> set (ses_order y))
     \<and> (case ses_cur y of None \<Rightarrow> (\<forall>i \<in> set (ses_order y). ses_phase y i = Finished)
        | Some i \<Rightarrow> ses_order y \<noteq> [] \<and> hd (ses_order y) = i)
     \<and> (\<exists>a. serial (ses_log y) None = Some a \<and> (\<forall>i. a = Some i \<longleftrightarrow> ses_phase y i = Streaming))"

fun older :: "nat list \<Rightarrow> nat \<Rightarrow> nat list" where
  "older [] i = []"
| "older (k # ks) i = (if k = i then ks else older ks i)"

text \<open>A session may stream only when the one it replaced, and so every earlier one, is finished.\<close>

definition settled :: "(nat \<Rightarrow> ses_phase) \<Rightarrow> nat \<Rightarrow> bool" where
  "settled p i \<longleftrightarrow> p i \<noteq> Accepted \<and> (\<forall>j. p i = Waiting (Some j) \<longrightarrow> p j = Finished)"

lemma chain_finished: "chain_ok p is \<Longrightarrow> is \<noteq> [] \<Longrightarrow> p (hd is) = Finished \<Longrightarrow> \<forall>j \<in> set is. p j = Finished"
  by (cases "is") auto

lemma chain_older: "chain_ok p is \<Longrightarrow> settled p i \<Longrightarrow> \<forall>j \<in> set (older is i). p j = Finished"
proof (induction "is")
  case (Cons k ks)
  show ?case
  proof (cases "k = i")
    case True
    then show ?thesis using Cons.prems chain_finished [of p ks]
      by (cases "p i") (auto simp: settled_def split: option.splits)
  qed (use Cons in auto)
qed simp

lemma chain_upd:
  "chain_ok p is \<Longrightarrow> distinct is \<Longrightarrow> p i \<noteq> Finished \<Longrightarrow> x \<noteq> Accepted \<Longrightarrow> (\<And>r. x \<noteq> Waiting r) \<Longrightarrow>
   \<forall>j \<in> set (older is i). p j = Finished \<Longrightarrow> chain_ok (p(i := x)) is"
proof (induction "is")
  case (Cons k ks)
  have IH: "chain_ok (p(i := x)) ks"
  proof (cases "k = i")
    case True
    have "chain_ok q ks" if "\<forall>j \<in> set ks. q j = p j" "chain_ok p ks" for q
      using that by (induction ks) (auto split: ses_phase.splits option.splits)
    then show ?thesis using True Cons.prems(1,2) by auto
  next
    case False
    show ?thesis by (rule Cons.IH) (use Cons.prems False in \<open>simp_all\<close>)
  qed
  define q where "q = p(i := x)"
  have q: "q i = x" "\<And>j. j \<noteq> i \<Longrightarrow> q j = p j" by (simp_all add: q_def)
  have IHq: "chain_ok q ks" using IH by (simp only: q_def)
  have fin: "q j = Finished" if "p j = Finished" for j using that Cons.prems(3) q by (cases "j = i") auto
  have "chain_ok q (k # ks)"
  proof (cases "k = i")
    case True
    then have "\<forall>j \<in> set ks. q j = Finished" using Cons.prems(6) fin by auto
    then show ?thesis using IHq True q(1) Cons.prems(4) Cons.prems(5) [of "None"]
        Cons.prems(5) [of "Some j" for j] by (cases x) auto
  next
    case False
    have "case p k of Accepted \<Rightarrow> False | Waiting None \<Rightarrow> (\<forall>j \<in> set ks. q j = Finished)
        | Waiting (Some j) \<Rightarrow> ks \<noteq> [] \<and> hd ks = j | _ \<Rightarrow> (\<forall>j \<in> set ks. q j = Finished)"
      using Cons.prems(1) fin by (cases "p k") (auto split: option.splits)
    then show ?thesis using IHq q(2) [OF False] by simp
  qed
  then show ?case by (simp only: q_def)
qed simp

lemma chain_unique:
  "chain_ok p is \<Longrightarrow> i \<in> set is \<Longrightarrow> k \<in> set is \<Longrightarrow> p i = Streaming \<Longrightarrow> p k = Ready \<or> p k = Streaming \<Longrightarrow> i = k"
  by (induction "is") auto

lemma ses_inv_start: "ses_inv ses_start"
  by (simp add: ses_inv_def ses_start_def)

text \<open>The part of the invariant that a change of one phase has to re-establish.\<close>

lemma ses_inv_upd:
  assumes inv: "ses_inv y" and i: "settled (ses_phase y) i" "ses_phase y i \<noteq> Finished"
    and x: "x \<noteq> Accepted" "\<And>r. x \<noteq> Waiting r"
    and log: "serial lg None = Some a" "\<forall>k. a = Some k \<longleftrightarrow> ((ses_phase y)(i := x)) k = Streaming"
    and cur: "c = ses_cur y \<or> x = Finished \<and> ses_cur y = Some i \<and> c = None"
  shows "ses_inv (y\<lparr>ses_phase := (ses_phase y)(i := x), ses_log := lg, ses_cur := c\<rparr>)"
proof -
  let ?p = "(ses_phase y)(i := x)"
  have c: "chain_ok (ses_phase y) (ses_order y)" "distinct (ses_order y)" using inv by (auto simp: ses_inv_def)
  have old: "\<forall>j \<in> set (older (ses_order y) i). ses_phase y j = Finished" by (rule chain_older [OF c(1) i(1)])
  have ch: "chain_ok ?p (ses_order y)" by (rule chain_upd [OF c i(2) x old])
  have mem: "\<forall>k. ?p k \<noteq> Accepted \<longleftrightarrow> k \<in> set (ses_order y)"
    using inv i(1) x(1) by (auto simp: ses_inv_def settled_def)
  have "case c of None \<Rightarrow> (\<forall>k \<in> set (ses_order y). ?p k = Finished)
      | Some k \<Rightarrow> ses_order y \<noteq> [] \<and> hd (ses_order y) = k"
  proof (cases "c = ses_cur y")
    case True
    have "i \<in> set (ses_order y)" using inv i(1) by (auto simp: ses_inv_def settled_def)
    with True inv i(2) show ?thesis by (auto simp: ses_inv_def split: option.splits)
  next
    case False
    then have "x = Finished" "ses_cur y = Some i" "c = None" using cur by auto
    then show ?thesis using inv chain_finished [OF ch] by (auto simp: ses_inv_def)
  qed
  with ch c(2) mem log show ?thesis by (cases c) (auto simp: ses_inv_def)
qed

lemma ses_inv_step: "ses_inv y \<Longrightarrow> ses_step y e y' \<Longrightarrow> ses_inv y'"
proof (cases e)
  case (Register i)
  assume inv: "ses_inv y" and st: "ses_step y e y'"
  then have i: "ses_phase y i = Accepted" "i \<notin> set (ses_order y)"
    and y': "y' = y\<lparr>ses_cur := Some i, ses_phase := (ses_phase y)(i := Waiting (ses_cur y)), ses_order := i # ses_order y\<rparr>"
    using Register by (auto simp: ses_step_def ses_inv_def split: if_splits)
  let ?p = "(ses_phase y)(i := Waiting (ses_cur y))"
  have "chain_ok ?p ks" if "i \<notin> set ks" "chain_ok (ses_phase y) ks" for ks
    using that by (induction ks) (auto split: ses_phase.splits option.splits)
  then have "chain_ok ?p (ses_order y)" using i(2) inv by (auto simp: ses_inv_def)
  then have "chain_ok ?p (i # ses_order y)"
    using inv i(2) by (auto simp: ses_inv_def split: option.splits)
  then show ?thesis using inv i y' by (fastforce simp: ses_inv_def)
next
  case (Proceed i)
  assume inv: "ses_inv y" and st: "ses_step y e y'"
  obtain x where x: "x = Ready \<or> x = Superseded" and y': "y' = y\<lparr>ses_phase := (ses_phase y)(i := x)\<rparr>"
    and s: "settled (ses_phase y) i" "\<exists>r. ses_phase y i = Waiting r"
    using st Proceed
    by (auto simp: ses_step_def settled_def split: ses_phase.splits option.splits if_splits)
  obtain a where a: "serial (ses_log y) None = Some a" "\<forall>k. a = Some k \<longleftrightarrow> ses_phase y k = Streaming"
    using inv by (auto simp: ses_inv_def)
  have "ses_inv (y\<lparr>ses_phase := (ses_phase y)(i := x), ses_log := ses_log y, ses_cur := ses_cur y\<rparr>)"
    by (rule ses_inv_upd [OF inv s(1) _ _ _ a(1)]) (use x s a in auto)
  then show ?thesis using y' by simp
next
  case (StreamStart i)
  assume inv: "ses_inv y" and st: "ses_step y e y'"
  then have r: "ses_phase y i = Ready"
    and y': "y' = y\<lparr>ses_phase := (ses_phase y)(i := Streaming), ses_log := ses_log y @ [CbStart i]\<rparr>"
    using StreamStart by (auto simp: ses_step_def split: if_splits)
  obtain a where a: "serial (ses_log y) None = Some a" "\<forall>k. a = Some k \<longleftrightarrow> ses_phase y k = Streaming"
    using inv by (auto simp: ses_inv_def)
  have none: "\<And>k. ses_phase y k \<noteq> Streaming"
  proof
    fix k assume k: "ses_phase y k = Streaming"
    have "k = i" by (rule chain_unique [of "ses_phase y" "ses_order y"]) (use inv r k in \<open>auto simp: ses_inv_def\<close>)
    with r k show False by simp
  qed
  then have "a = None" using a(2) by (cases a) auto
  then have log: "serial (ses_log y @ [CbStart i]) None = Some (Some i)" using serial_snoc [OF a(1)] by simp
  have "ses_inv (y\<lparr>ses_phase := (ses_phase y)(i := Streaming), ses_log := ses_log y @ [CbStart i], ses_cur := ses_cur y\<rparr>)"
    by (rule ses_inv_upd [OF inv _ _ _ _ log]) (use r none in \<open>auto simp: settled_def\<close>)
  then show ?thesis using y' by simp
next
  case (StreamStop i)
  assume inv: "ses_inv y" and st: "ses_step y e y'"
  then have r: "ses_phase y i = Streaming"
    and y': "y' = y\<lparr>ses_phase := (ses_phase y)(i := Stopped), ses_log := ses_log y @ [CbStop i]\<rparr>"
    using StreamStop by (auto simp: ses_step_def split: if_splits)
  obtain a where a: "serial (ses_log y) None = Some a" "\<forall>k. a = Some k \<longleftrightarrow> ses_phase y k = Streaming"
    using inv by (auto simp: ses_inv_def)
  then have ai: "a = Some i" using r by auto
  then have log: "serial (ses_log y @ [CbStop i]) None = Some None" using serial_snoc [OF a(1)] by simp
  have rr: "settled (ses_phase y) i" "ses_phase y i \<noteq> Finished" using r by (simp_all add: settled_def)
  have uniq: "ses_phase y k = Streaming \<longleftrightarrow> k = i" for k using a(2) ai by auto
  have "ses_inv (y\<lparr>ses_phase := (ses_phase y)(i := Stopped), ses_log := ses_log y @ [CbStop i], ses_cur := ses_cur y\<rparr>)"
    by (rule ses_inv_upd [OF inv rr _ _ log]) (use uniq in \<open>auto\<close>)
  then show ?thesis using y' by simp
next
  case (Cleanup i)
  assume inv: "ses_inv y" and st: "ses_step y e y'"
  then have r: "ses_phase y i = Stopped \<or> ses_phase y i = Superseded"
    and y': "y' = y\<lparr>ses_phase := (ses_phase y)(i := Finished), ses_cur := (if ses_cur y = Some i then None else ses_cur y)\<rparr>"
    using Cleanup by (auto simp: ses_step_def split: if_splits)
  obtain a where a: "serial (ses_log y) None = Some a" "\<forall>k. a = Some k \<longleftrightarrow> ses_phase y k = Streaming"
    using inv by (auto simp: ses_inv_def)
  have "ses_inv (y\<lparr>ses_phase := (ses_phase y)(i := Finished), ses_log := ses_log y,
      ses_cur := (if ses_cur y = Some i then None else ses_cur y)\<rparr>)"
    by (rule ses_inv_upd [OF inv _ _ _ _ a(1)]) (use r a in \<open>auto simp: settled_def\<close>)
  then show ?thesis using y' by simp
qed

interpretation sessions: invariant_system "\<lambda>y. y = ses_start" ses_step ses_inv
  by unfold_locales (auto intro: ses_inv_start ses_inv_step)

text \<open>
  C31: the streamer sees one stream at a time.  However the handlers of successive TV connections
  interleave, the callbacks are serial: every \<open>OnStreamStart\<close> is followed by the \<open>OnStreamStop\<close> of
  the same session before the next one starts, and at most one session is streaming.
\<close>

theorem stream_callbacks_serial:
  assumes "run ses_step ses_start es y"
  shows "(\<exists>a. serial (ses_log y) None = Some a \<and> (\<forall>i. a = Some i \<longleftrightarrow> ses_phase y i = Streaming))
    \<and> (\<forall>i k. ses_phase y i = Streaming \<longrightarrow> ses_phase y k = Streaming \<longrightarrow> i = k)"
proof -
  have "ses_inv y" using sessions.reachable_inv assms by blast
  then have *: "\<exists>a. serial (ses_log y) None = Some a \<and> (\<forall>i. a = Some i \<longleftrightarrow> ses_phase y i = Streaming)"
    by (simp add: ses_inv_def)
  then have "i = k" if "ses_phase y i = Streaming" "ses_phase y k = Streaming" for i k
    using that by (metis option.inject)
  with * show ?thesis by blast
qed

text \<open>Three sessions, the second superseded while it waits for the first.\<close>

abbreviation demo_sessions :: "ses_event list" where
  "demo_sessions \<equiv> [Register 0, Proceed 0, StreamStart 0, Register 1, Register 2, StreamStop 0, Cleanup 0,
     Proceed 1, Cleanup 1, Proceed 2, StreamStart 2]"

definition demo_ses :: ses_sys where
  "demo_ses = the (exec ses_next ses_start demo_sessions)"

lemma demo_ses_run: "run ses_step ses_start demo_sessions demo_ses"
proof -
  have "exec ses_next ses_start demo_sessions = Some demo_ses" by (simp add: demo_ses_def ses_start_def)
  then show ?thesis by (rule exec_run) (simp add: ses_step_def)
qed

lemma stream_callbacks_serial_witness:
  "serial (ses_log demo_ses) None = Some (Some 2)"
proof -
  have "ses_phase demo_ses 2 = Streaming" by (simp add: demo_ses_def ses_start_def)
  then show ?thesis using stream_callbacks_serial [OF demo_ses_run] by metis
qed

end
