(* ===== verification/Streamer.thy ===== *)
theory Streamer
  imports Translate Smoothing Receiver
begin

text \<open>
  relume-tv's own stream to the Hue Bridge Pro (\<open>internal/entertainment/streamer.go\<close>): finding or
  creating its entertainment configuration, starting and tearing down the stream, routing the TV's
  frames, and building the frames that are sent.

  What is not in the repository is gathered in the record \<open>net\<close>, a parameter: the HTTP transport to
  the Pro, the DTLS dialer and connection, and the configuration store wired in by \<open>main\<close>.  The
  state \<open>'s\<close> is theirs.  A connection is a number.  The Pro target \<open>resolve\<close> returns is an argument of
  each call that resolves it.  \<open>st.mu\<close> guards every access of the stream state, so each operation
  below is atomic; \<open>establish\<close> and \<open>ensureConfig\<close> run in the one run goroutine.
\<close>

section \<open>State\<close>

record 's net =
  nt_transport :: "'s transport"
  nt_dial :: "string \<Rightarrow> int \<Rightarrow> string \<Rightarrow> nat list \<Rightarrow> 's \<Rightarrow> nat option \<times> 's"
  nt_write :: "nat \<Rightarrow> u8 list \<Rightarrow> 's \<Rightarrow> bool \<times> 's"
  nt_close :: "nat \<Rightarrow> 's \<Rightarrow> 's"
  nt_loadCfgID :: "('s \<Rightarrow> string) option"
  nt_saveCfgID :: "(string \<Rightarrow> 's \<Rightarrow> 's) option"

record ProTarget =
  pt_client :: Client
  pt_host :: string
  pt_appKey :: string
  pt_clientKey :: "nat list"

record ProStreamer =
  ps_smoothAlpha :: real
  ps_medianWindow :: int
  ps_medianThreshold :: u16
  ps_port :: int
  ps_running :: bool
  st_conn :: "nat option"
  st_pro :: "Client option"
  st_configID :: string
  st_colorSpace :: u8
  st_remap :: "(u16, u8) gomap"
  st_latest :: "(u8, Channel) gomap"
  st_current :: "(u8, Channel) gomap"
  st_history :: "(u8, Channel list) gomap"
  st_spikesSuppressed :: nat
  st_seq :: u8
  st_path :: string
  st_cachedConfigID :: string
  st_requested :: "(u16, bool) gomap option"

definition configName :: string where
  "configName = ''relume-tv''"

definition NewProStreamer :: ProStreamer where
  "NewProStreamer = \<lparr>ps_smoothAlpha = defaultSmoothAlpha, ps_medianWindow = 0, ps_medianThreshold = 0,
     ps_port = 0, ps_running = False, st_conn = None, st_pro = None, st_configID = [], st_colorSpace = 0,
     st_remap = [], st_latest = [], st_current = [], st_history = [], st_spikesSuppressed = 0,
     st_seq = 0, st_path = [], st_cachedConfigID = [], st_requested = None\<rparr>"

text \<open>The static resolver of the constructor: usable with a client and a non-empty key.\<close>

definition static_resolve :: "Client option \<Rightarrow> string \<Rightarrow> string \<Rightarrow> nat list \<Rightarrow> ProTarget option" where
  "static_resolve pro host appKey clientKey =
     (case pro of None \<Rightarrow> None
      | Some c \<Rightarrow> if clientKey \<noteq> []
          then Some \<lparr>pt_client = c, pt_host = host, pt_appKey = appKey, pt_clientKey = clientKey\<rparr> else None)"

definition SetSmoothTau :: "duration \<Rightarrow> ProStreamer \<Rightarrow> ProStreamer" where
  "SetSmoothTau tau s = s\<lparr>ps_smoothAlpha := alphaForTau tau\<rparr>"

definition SetMedianFilter :: "int \<Rightarrow> u16 \<Rightarrow> ProStreamer \<Rightarrow> ProStreamer" where
  "SetMedianFilter window threshold s =
     s\<lparr>ps_medianWindow := SetMedianFilter_window window, ps_medianThreshold := threshold\<rparr>"

definition alpha :: "ProStreamer \<Rightarrow> real" where
  "alpha s = (if ps_smoothAlpha s = 0 then defaultSmoothAlpha else ps_smoothAlpha s)"

definition SetRequestedMembers :: "u16 list \<Rightarrow> ProStreamer \<Rightarrow> ProStreamer" where
  "SetRequestedMembers v1ids s = (if v1ids = [] then s else s\<lparr>st_requested := Some (set_of_ids v1ids)\<rparr>)"

definition Path :: "ProStreamer \<Rightarrow> string" where
  "Path s = (if st_path s = [] then ''rest'' else st_path s)"

definition setPath :: "string \<Rightarrow> ProStreamer \<Rightarrow> ProStreamer" where
  "setPath p s = s\<lparr>st_path := p\<rparr>"

text \<open>The filter on the TV's declared subset: with none declared every light passes.\<close>

definition in_subset :: "(u16, bool) gomap option \<Rightarrow> u16 \<Rightarrow> bool" where
  "in_subset requested v1 \<longleftrightarrow> (case requested of None \<Rightarrow> True | Some m \<Rightarrow> setlike m v1)"

section \<open>The entertainment configuration\<close>

definition configCoversServices :: "EntertainmentConfigFull \<Rightarrow> (string, bool) gomap \<Rightarrow> bool" where
  "configCoversServices full desired =
     (let have = set_of_ids (filter (\<lambda>r. r \<noteq> []) (concat (map en_Members (ef_Channels full))))
      in if length have \<noteq> length desired then False
         else list_all (\<lambda>rid. setlike have rid) (mkeys desired))"

fun remap_loop :: "(string, u16) gomap \<Rightarrow> (u16, u8) gomap \<Rightarrow> EntChannel list \<Rightarrow> (u16, u8) gomap" where
  "remap_loop svcToV1 remap [] = remap"
| "remap_loop svcToV1 remap (ch # chs) =
     (case en_Members ch of
        [] \<Rightarrow> remap_loop svcToV1 remap chs
      | m # _ \<Rightarrow>
          (case mget svcToV1 m of
             None \<Rightarrow> remap_loop svcToV1 remap chs
           | Some v1 \<Rightarrow>
               if en_ChannelID ch < 0 \<or> en_ChannelID ch > 255 then remap_loop svcToV1 remap chs
               else remap_loop svcToV1 (mput v1 (word_of_int (en_ChannelID ch)) remap) chs))"

definition remapFromConfig :: "EntertainmentConfigFull \<Rightarrow> (string, u16) gomap \<Rightarrow> (u16, u8) gomap" where
  "remapFromConfig full svcToV1 = remap_loop svcToV1 [] (ef_Channels full)"

definition position :: "nat \<Rightarrow> real" where
  "position i = (let x = -1 + 0.2 * real i in if x > 1 then 1 else x)"

text \<open>The assignment the TV was told, inverted; an id outside 16 bits is skipped.\<close>

definition uuid_to_v1 :: "(string, string) gomap \<Rightarrow> (string, u16) gomap" where
  "uuid_to_v1 V1ToUUID = foldl (\<lambda>m (v1str, uuid).
     case Atoi v1str of
       None \<Rightarrow> m
     | Some n \<Rightarrow> if 0 \<le> n \<and> n \<le> 65535 then mput uuid (word_of_int n) m else m) [] V1ToUUID"

definition dev_to_svc :: "EntertainmentService list \<Rightarrow> (string, string) gomap" where
  "dev_to_svc services = foldl (\<lambda>m svc. mput (es_OwnerRID svc) (es_ID svc) m) [] services"

fun members_loop ::
  "(string, string) gomap \<Rightarrow> (string, u16) gomap \<Rightarrow> (u16, bool) gomap option
     \<Rightarrow> ConfigMember list \<times> (string, u16) gomap \<Rightarrow> Light list \<Rightarrow> ConfigMember list \<times> (string, u16) gomap" where
  "members_loop devToSvc uuidToV1 requested acc [] = acc"
| "members_loop devToSvc uuidToV1 requested (members, svcToV1) (l # ls) =
     (let skip = members_loop devToSvc uuidToV1 requested (members, svcToV1) ls in
      if \<not> HasColor l then skip
      else case mget devToSvc (lt_OwnerRID l) of
        None \<Rightarrow> skip
      | Some svc \<Rightarrow>
          (case mget uuidToV1 (lt_ID l) of
             None \<Rightarrow> skip
           | Some v1 \<Rightarrow>
               if \<not> in_subset requested v1 then skip
               else members_loop devToSvc uuidToV1 requested
                 (members @ [\<lparr>cm_ServiceRID = svc, cm_X = position (length members), cm_Y = 0, cm_Z = 0\<rparr>],
                  mput svc v1 svcToV1) ls))"

datatype ensure_error =
    EnsLights pro_error
  | EnsServices pro_error
  | EnsNoMembers
  | EnsNoChannels
  | EnsConfigs pro_error
  | EnsCandidate string pro_error
  | EnsCreate pro_error
  | EnsGet pro_error

type_synonym ensure_ok = "string \<times> (u16, u8) gomap \<times> bool \<times> nat"

definition setCachedID :: "string \<Rightarrow> ProStreamer \<Rightarrow> ProStreamer" where
  "setCachedID i s = s\<lparr>st_cachedConfigID := i\<rparr>"

definition persistConfigID :: "'s net \<Rightarrow> string \<Rightarrow> 's \<Rightarrow> 's" where
  "persistConfigID net i w = (case nt_saveCfgID net of None \<Rightarrow> w | Some f \<Rightarrow> f i w)"

definition loadConfigID :: "'s net \<Rightarrow> 's \<Rightarrow> string" where
  "loadConfigID net w = (case nt_loadCfgID net of None \<Rightarrow> [] | Some f \<Rightarrow> f w)"

text \<open>The candidate: the persisted id if the Pro still lists it, else the first of our name.\<close>

definition pick_candidate :: "string \<Rightarrow> EntertainmentConfig list \<Rightarrow> string" where
  "pick_candidate persisted configs =
     (case find (\<lambda>c. persisted \<noteq> [] \<and> ec_ID c = persisted) configs of
        Some c \<Rightarrow> ec_ID c
      | None \<Rightarrow> (case find (\<lambda>c. ec_Name c = configName) configs of None \<Rightarrow> [] | Some d \<Rightarrow> ec_ID d))"

text \<open>The tail of \<open>ensureConfig\<close>: create a configuration and read back its channels.\<close>

definition create_config ::
  "'s net \<Rightarrow> Client \<Rightarrow> ConfigMember list \<Rightarrow> (string, u16) gomap \<Rightarrow> ProStreamer \<Rightarrow> 's
     \<Rightarrow> (ensure_error + ensure_ok) \<times> ProStreamer \<times> 's" where
  "create_config net pro members svcToV1 s w =
     (case CreateEntertainmentConfig (nt_transport net) pro configName members w of
        (Inl e, w1) \<Rightarrow> (Inl (EnsCreate e), s, w1)
      | (Inr i, w1) \<Rightarrow>
          (case GetEntertainmentConfig (nt_transport net) pro i w1 of
             (Inl e, w2) \<Rightarrow> (Inl (EnsGet e), s, w2)
           | (Inr full, w2) \<Rightarrow>
               (let remap = remapFromConfig full svcToV1 in
                if remap = [] then (Inl EnsNoChannels, s, w2)
                else (Inr (i, remap, False, length remap), setCachedID i s, persistConfigID net i w2))))"

text \<open>The slow path: the Pro's list is authoritative; a stale candidate is stopped and deleted.\<close>

definition ensure_listed ::
  "'s net \<Rightarrow> Client \<Rightarrow> ConfigMember list \<Rightarrow> (string, u16) gomap \<Rightarrow> (string, bool) gomap \<Rightarrow> ProStreamer \<Rightarrow> 's
     \<Rightarrow> (ensure_error + ensure_ok) \<times> ProStreamer \<times> 's" where
  "ensure_listed net pro members svcToV1 desired s w =
     (case EntertainmentConfigs (nt_transport net) pro w of
        (Inl e, w1) \<Rightarrow> (Inl (EnsConfigs e), s, w1)
      | (Inr configs, w1) \<Rightarrow>
          (let i = pick_candidate (loadConfigID net w1) configs in
           if i = [] then create_config net pro members svcToV1 s w1
           else case GetEntertainmentConfig (nt_transport net) pro i w1 of
             (Inl e, w2) \<Rightarrow> (Inl (EnsCandidate i e), s, w2)
           | (Inr full, w2) \<Rightarrow>
               if configCoversServices full desired
               then (let remap = remapFromConfig full svcToV1 in
                     if remap = [] then (Inl EnsNoChannels, s, w2)
                     else (Inr (i, remap, True, length remap), setCachedID i s, persistConfigID net i w2))
               else (let w3 = snd (StopStream (nt_transport net) pro i w2);
                         w4 = snd (DeleteEntertainmentConfig (nt_transport net) pro i w3)
                     in create_config net pro members svcToV1 s w4)))"

definition desired_services :: "ConfigMember list \<Rightarrow> (string, bool) gomap" where
  "desired_services members = set_of_ids (map cm_ServiceRID members)"

definition zone_members ::
  "ProStreamer \<Rightarrow> Light list \<Rightarrow> EntertainmentService list \<Rightarrow> ConfigMember list \<times> (string, u16) gomap" where
  "zone_members s lights services =
     members_loop (dev_to_svc services) (uuid_to_v1 (lm_V1ToUUID (LightsV1 lights))) (st_requested s) ([], []) lights"

definition ensureConfig ::
  "'s net \<Rightarrow> Client \<Rightarrow> ProStreamer \<Rightarrow> 's \<Rightarrow> (ensure_error + ensure_ok) \<times> ProStreamer \<times> 's" where
  "ensureConfig net pro s w =
     (case Lights (nt_transport net) pro w of
        (Inl e, w1) \<Rightarrow> (Inl (EnsLights e), s, w1)
      | (Inr lights, w1) \<Rightarrow>
     (case EntertainmentServices (nt_transport net) pro w1 of
        (Inl e, w2) \<Rightarrow> (Inl (EnsServices e), s, w2)
      | (Inr services, w2) \<Rightarrow>
          (let (members, svcToV1) = zone_members s lights services in
           if members = [] then (Inl EnsNoMembers, s, w2)
           else let desired = desired_services members;
                    cached = st_cachedConfigID s in
             if cached = [] then ensure_listed net pro members svcToV1 desired s w2
             else case GetEntertainmentConfig (nt_transport net) pro cached w2 of
               (Inl e, w3) \<Rightarrow> ensure_listed net pro members svcToV1 desired (setCachedID [] s) w3
             | (Inr full, w3) \<Rightarrow>
                 if configCoversServices full desired
                 then (let remap = remapFromConfig full svcToV1 in
                       if remap = [] then (Inl EnsNoChannels, s, w3)
                       else (Inr (cached, remap, True, length remap), s, w3))
                 else ensure_listed net pro members svcToV1 desired (setCachedID [] s) w3)))"

section \<open>Starting and stopping the stream\<close>

datatype establish_error = EstNoPairing | EstEnsure ensure_error | EstStart pro_error | EstDial

text \<open>A rejected start (the area was left active) is retried once after a stop.\<close>

definition start_with_retry :: "'s net \<Rightarrow> Client \<Rightarrow> string \<Rightarrow> 's \<Rightarrow> (pro_error + unit) \<times> 's" where
  "start_with_retry net pro i w =
     (case StartStream (nt_transport net) pro i w of
        (Inr u, w1) \<Rightarrow> (Inr u, w1)
      | (Inl e, w1) \<Rightarrow> StartStream (nt_transport net) pro i (snd (StopStream (nt_transport net) pro i w1)))"

definition establish ::
  "'s net \<Rightarrow> ProTarget option \<Rightarrow> ProStreamer \<Rightarrow> 's \<Rightarrow> establish_error option \<times> ProStreamer \<times> 's" where
  "establish net target s w =
     (case target of
        None \<Rightarrow> (Some EstNoPairing, s, w)
      | Some t \<Rightarrow>
          (case ensureConfig net (pt_client t) s w of
             (Inl e, s1, w1) \<Rightarrow> (Some (EstEnsure e), s1, w1)
           | (Inr (configID, remap, reused, channels), s1, w1) \<Rightarrow>
               (case start_with_retry net (pt_client t) configID w1 of
                  (Inl e, w2) \<Rightarrow> (Some (EstStart e), s1, w2)
                | (Inr _, w2) \<Rightarrow>
                    (let port = (if ps_port s1 = 0 then 2100 else ps_port s1) in
                     case nt_dial net (pt_host t) port (pt_appKey t) (pt_clientKey t) w2 of
                       (None, w3) \<Rightarrow> (Some EstDial, s1, snd (StopStream (nt_transport net) (pt_client t) configID w3))
                     | (Some conn, w3) \<Rightarrow>
                         (None, s1\<lparr>st_conn := Some conn, st_pro := Some (pt_client t), st_configID := configID,
                            st_remap := remap, st_latest := [], st_current := [], st_history := [],
                            st_spikesSuppressed := 0, st_path := ''dtls''\<rparr>, w3)))))"

definition teardown :: "'s net \<Rightarrow> ProStreamer \<Rightarrow> 's \<Rightarrow> ProStreamer \<times> 's" where
  "teardown net s w =
     (let s' = s\<lparr>st_conn := None, st_pro := None, st_configID := [], st_path := ''rest''\<rparr>;
          w1 = (case st_conn s of None \<Rightarrow> w | Some c \<Rightarrow> nt_close net c w)
      in (s', if st_configID s \<noteq> []
              then (case st_pro s of None \<Rightarrow> w1 | Some p \<Rightarrow> snd (StopStream (nt_transport net) p (st_configID s) w1))
              else w1))"

text \<open>\<open>Start\<close>: the result says whether a run goroutine was launched.\<close>

definition Start :: "ProTarget option \<Rightarrow> ProStreamer \<Rightarrow> bool \<times> ProStreamer" where
  "Start target s =
     (if ps_running s then (False, s)
      else if target = None then (False, setPath ''rest'' s)
      else (True, s\<lparr>ps_running := True\<rparr>))"

text \<open>\<open>Stop\<close>, after the run goroutine has been cancelled and joined.\<close>

definition Stop :: "'s net \<Rightarrow> ProStreamer \<Rightarrow> 's \<Rightarrow> ProStreamer \<times> 's" where
  "Stop net s w = teardown net (s\<lparr>ps_running := False\<rparr>) w"

text \<open>
  One turn of \<open>run\<close>: on a failed \<open>establish\<close> the path is REST and the goroutine sleeps for the backoff,
  which doubles while it is below 15 s; a success resets it and enters the send loop.
\<close>

datatype run_turn = Backoff establish_error duration | EnterSendLoop

definition initialBackoff :: duration where
  "initialBackoff = second"

definition nextBackoff :: "duration \<Rightarrow> duration" where
  "nextBackoff b = (if b < 15 * second then b * 2 else b)"

definition run_turn_of ::
  "'s net \<Rightarrow> ProTarget option \<Rightarrow> duration \<Rightarrow> ProStreamer \<Rightarrow> 's \<Rightarrow> run_turn \<times> duration \<times> ProStreamer \<times> 's" where
  "run_turn_of net target backoff s w =
     (case establish net target s w of
        (Some e, s1, w1) \<Rightarrow> (Backoff e backoff, nextBackoff backoff, setPath ''rest'' s1, w1)
      | (None, s1, w1) \<Rightarrow> (EnterSendLoop, initialBackoff, s1, w1))"

section \<open>Routing the TV's frames\<close>

definition medianFilterLocked :: "u8 \<Rightarrow> Channel \<Rightarrow> ProStreamer \<Rightarrow> Channel \<times> ProStreamer" where
  "medianFilterLocked proCh raw s =
     (if ps_medianWindow s \<le> 1 then (raw, s)
      else let h0 = (case mget (st_history s) proCh of None \<Rightarrow> [] | Some l \<Rightarrow> l) @ [raw];
               n = nat (ps_medianWindow s);
               h = (if length h0 > n then drop (length h0 - n) h0 else h0);
               s1 = s\<lparr>st_history := mput proCh h (st_history s)\<rparr>;
               (out, suppressed) = gatedMedian h raw (ps_medianThreshold s)
           in (out, if suppressed then s1\<lparr>st_spikesSuppressed := st_spikesSuppressed s1 + 1\<rparr> else s1))"

fun push_channels :: "Channel list \<Rightarrow> ProStreamer \<Rightarrow> ProStreamer" where
  "push_channels [] s = s"
| "push_channels (ch # chs) s =
     (case mget (st_remap s) (ch_ID ch) of
        None \<Rightarrow> push_channels chs s
      | Some proCh \<Rightarrow>
          (let raw = \<lparr>ch_ID = ucast proCh, ch_A = ch_A ch, ch_B = ch_B ch, ch_C = ch_C ch\<rparr>;
               (v, s1) = medianFilterLocked proCh raw s
           in push_channels chs (s1\<lparr>st_latest := mput proCh v (st_latest s1)\<rparr>)))"

text \<open>
  What a frame causes outside the streamer: the states handed to \<open>OnColor\<close> (one per v1 id, the last
  channel of an id counts), or the calls of the REST fallback in order.
\<close>

datatype push_out = OnColorStates "(string, obj) gomap" | FallbackCalls "(string \<times> obj) list"

definition v1_id :: "u16 \<Rightarrow> string" where
  "v1_id w = Itoa (uint w)"

definition Push :: "Frame \<Rightarrow> ProStreamer \<Rightarrow> push_out \<times> ProStreamer" where
  "Push f s =
     (if st_path s = ''dtls'' \<and> st_conn s \<noteq> None
      then (OnColorStates (foldl (\<lambda>m ch. mput (v1_id (ch_ID ch)) (ToHueV1State (fr_ColorSpace f) ch) m) [] (fr_Channels f)),
            push_channels (fr_Channels f) (s\<lparr>st_colorSpace := fr_ColorSpace f\<rparr>))
      else (FallbackCalls (map (\<lambda>ch. (v1_id (ch_ID ch), ToHueV1State (fr_ColorSpace f) ch))
              (filter (\<lambda>ch. in_subset (st_requested s) (ch_ID ch)) (fr_Channels f))), s))"

section \<open>The send loop\<close>

fun ease_channels :: "real \<Rightarrow> (u8, Channel) gomap \<Rightarrow> u8 list \<Rightarrow> (u8, Channel) gomap \<Rightarrow> Channel list \<times> (u8, Channel) gomap" where
  "ease_channels a latest [] current = ([], current)"
| "ease_channels a latest (i # ids) current =
     (let target = (case mget latest i of None \<Rightarrow> \<lparr>ch_ID = 0, ch_A = 0, ch_B = 0, ch_C = 0\<rparr> | Some t \<Rightarrow> t);
          nxt = (case mget current i of None \<Rightarrow> target | Some cur \<Rightarrow> smoothToward cur target a);
          (chs, current') = ease_channels a latest ids (mput i nxt current)
      in (nxt # chs, current'))"

definition buildFrame :: "ProStreamer \<Rightarrow> Frame option \<times> ProStreamer" where
  "buildFrame s =
     (if st_latest s = [] then (None, s)
      else let ids = sort (mkeys (st_latest s));
               (chs, current) = ease_channels (alpha s) (st_latest s) ids (st_current s);
               s1 = s\<lparr>st_current := current, st_seq := st_seq s + 1\<rparr>
           in (Some \<lparr>fr_Major = 2, fr_Minor = 0, fr_Sequence = st_seq s1, fr_ColorSpace = st_colorSpace s1,
                    fr_ConfigID = st_configID s1, fr_Channels = chs\<rparr>, s1))"

fun jumps_loop :: "Frame \<Rightarrow> Frame \<Rightarrow> Channel list \<Rightarrow> Channel list \<Rightarrow> u32 \<times> u32 \<Rightarrow> u32 \<times> u32" where
  "jumps_loop prev cur (c # cs) (p # ps) (briJump, colJump) =
     (let d = absDiff (brightness (fr_ColorSpace cur) c) (brightness (fr_ColorSpace prev) p);
          briJump = (if d > briJump then d else briJump);
          cj = colorJump (fr_ColorSpace cur) c p;
          colJump = (if cj > colJump then cj else colJump)
      in jumps_loop prev cur cs ps (briJump, colJump))"
| "jumps_loop prev cur _ _ acc = acc"

definition accumSendJumps :: "Frame option \<Rightarrow> Frame \<Rightarrow> u32 \<times> u32 \<Rightarrow> u32 \<times> u32" where
  "accumSendJumps prev cur acc =
     (case prev of None \<Rightarrow> acc
      | Some p \<Rightarrow> if length (fr_Channels p) \<noteq> length (fr_Channels cur) then acc
          else jumps_loop p cur (fr_Channels cur) (fr_Channels p) acc)"

record send_locals =
  sl_sent :: nat
  sl_prev :: nat
  sl_lastSent :: "Frame option"
  sl_jumps :: "u32 \<times> u32"

definition send_start :: send_locals where
  "send_start = \<lparr>sl_sent = 0, sl_prev = 0, sl_lastSent = None, sl_jumps = (0, 0)\<rparr>"

text \<open>A tick of the send loop: \<open>None\<close> when the loop returns.\<close>

definition send_tick ::
  "'s net \<Rightarrow> send_locals \<Rightarrow> ProStreamer \<Rightarrow> 's \<Rightarrow> send_locals option \<times> ProStreamer \<times> 's" where
  "send_tick net l s w =
     (case st_conn s of
        None \<Rightarrow> (None, s, w)
      | Some conn \<Rightarrow>
          (case buildFrame s of
             (None, s1) \<Rightarrow> (Some l, s1, w)
           | (Some frame, s1) \<Rightarrow>
               (let l1 = l\<lparr>sl_jumps := accumSendJumps (sl_lastSent l) frame (sl_jumps l), sl_lastSent := Some frame\<rparr>
                in case nt_write net conn (Encode frame) w of
                     (False, w1) \<Rightarrow> (case teardown net s1 w1 of (s2, w2) \<Rightarrow> (None, s2, w2))
                   | (True, w1) \<Rightarrow> (Some (l1\<lparr>sl_sent := sl_sent l1 + 1\<rparr>), s1, w1))))"

text \<open>The 5 s rollup: what \<open>OnWindowStats\<close> is told, and the reset.\<close>

definition send_rollup :: "send_locals \<Rightarrow> ProStreamer \<Rightarrow> (u32 \<times> u32 \<times> nat) \<times> send_locals \<times> ProStreamer" where
  "send_rollup l s =
     ((fst (sl_jumps l), snd (sl_jumps l), st_spikesSuppressed s),
      l\<lparr>sl_prev := sl_sent l, sl_jumps := (0, 0)\<rparr>, s\<lparr>st_spikesSuppressed := 0\<rparr>)"

section \<open>The zone is respected\<close>

lemma gomap_ok_foldl:
  "(\<And>m x. gomap_ok m \<Longrightarrow> gomap_ok (f m x)) \<Longrightarrow> gomap_ok m \<Longrightarrow> gomap_ok (foldl f m xs)"
  by (induction xs arbitrary: m) auto

lemma gomap_ok_set_of_ids [simp]: "gomap_ok (set_of_ids ks)"
  unfolding set_of_ids_def by (rule gomap_ok_foldl) auto

lemma remap_loop_ok: "gomap_ok r \<Longrightarrow> gomap_ok (remap_loop sv r chs)"
  by (induction sv r chs rule: remap_loop.induct) (auto split: list.splits option.splits)

lemma remap_loop_keys:
  "v1 \<in> set (mkeys (remap_loop sv r chs)) \<Longrightarrow> v1 \<in> set (mkeys r) \<or> (\<exists>svc. mget sv svc = Some v1)"
proof (induction sv r chs rule: remap_loop.induct)
  case (2 sv r ch chs)
  show ?case
  proof (cases "en_Members ch")
    case Nil
    with 2 show ?thesis by simp
  next
    case (Cons m ms)
    show ?thesis
    proof (cases "mget sv m")
      case None
      with 2 Cons show ?thesis by simp
    next
      case (Some u)
      with 2 Cons show ?thesis by (auto split: if_splits simp del: set_map)
    qed
  qed
qed simp

text \<open>What the member loop collects: zone lights of the right kind, each under its service.\<close>

lemma members_loop_svc:
  "members_loop D U R (ms, sv) ls = (ms', sv') \<Longrightarrow> mget sv' svc = Some v1 \<Longrightarrow>
   mget sv svc = Some v1 \<or>
   (\<exists>l \<in> set ls. HasColor l \<and> mget D (lt_OwnerRID l) = Some svc \<and> mget U (lt_ID l) = Some v1 \<and> in_subset R v1)"
proof (induction ls arbitrary: ms sv)
  case (Cons l ls)
  show ?case
  proof (cases "HasColor l \<and> (\<exists>svc v1. mget D (lt_OwnerRID l) = Some svc \<and> mget U (lt_ID l) = Some v1 \<and> in_subset R v1)")
    case False
    then have "members_loop D U R (ms, sv) ls = (ms', sv')"
      using Cons.prems(1) by (auto simp: Let_def split: option.splits if_splits)
    from Cons.IH [OF this Cons.prems(2)] show ?thesis by auto
  next
    case True
    then obtain svc' v1' where l: "HasColor l" "mget D (lt_OwnerRID l) = Some svc'" "mget U (lt_ID l) = Some v1'" "in_subset R v1'"
      by blast
    then have "members_loop D U R (ms @ [\<lparr>cm_ServiceRID = svc', cm_X = position (length ms), cm_Y = 0, cm_Z = 0\<rparr>], mput svc' v1' sv) ls = (ms', sv')"
      using Cons.prems(1) by (simp add: Let_def)
    from Cons.IH [OF this Cons.prems(2)] l show ?thesis by (auto split: if_splits)
  qed
qed simp

lemma uuid_to_v1_loop:
  "mget (foldl (\<lambda>m (v1str, uuid). case Atoi v1str of None \<Rightarrow> m
      | Some n \<Rightarrow> if 0 \<le> n \<and> n \<le> 65535 then mput uuid (word_of_int n) m else m) m0 kvs) uuid = Some (v1 :: u16) \<Longrightarrow>
   mget m0 uuid = Some v1 \<or> (\<exists>k. (k, uuid) \<in> set kvs \<and> Atoi k = Some (uint v1))"
proof (induction kvs arbitrary: m0)
  case (Cons a kvs)
  obtain k u where a: "a = (k, u)" by fastforce
  show ?case
  proof (cases "\<exists>n. Atoi k = Some n \<and> 0 \<le> n \<and> n \<le> 65535")
    case False
    then show ?thesis using Cons a by (force split: option.splits if_splits)
  next
    case True
    then obtain n where n: "Atoi k = Some n" "0 \<le> n" "n \<le> 65535" by blast
    have "uint (word_of_int n :: u16) = n" using n by (simp add: uint_word_of_int)
    with Cons.prems Cons.IH [of "mput u (word_of_int n) m0"] n a show ?thesis
      by (auto split: if_splits)
  qed
qed simp

lemma uuid_to_v1_Some:
  "mget (uuid_to_v1 m) uuid = Some v1 \<Longrightarrow> \<exists>k. (k, uuid) \<in> set m \<and> Atoi k = Some (uint v1)"
  unfolding uuid_to_v1_def by (drule uuid_to_v1_loop) simp

text \<open>A successful \<open>ensureConfig\<close> maps channels of the members it computed, nothing else.\<close>

lemma create_config_remap:
  "create_config net pro members sv s w = (Inr (i, remap, reused, n), s', w') \<Longrightarrow>
   \<exists>full. remap = remapFromConfig full sv \<and> remap \<noteq> [] \<and> n = length remap"
  by (auto simp: create_config_def Let_def split: prod.splits sum.splits if_splits)

lemma ensure_listed_remap:
  "ensure_listed net pro members sv desired s w = (Inr (i, remap, reused, n), s', w') \<Longrightarrow>
   \<exists>full. remap = remapFromConfig full sv \<and> remap \<noteq> [] \<and> n = length remap"
  by (auto simp: ensure_listed_def Let_def split: prod.splits sum.splits if_splits dest: create_config_remap)

lemma ensureConfig_remap:
  assumes "ensureConfig net pro s w = (Inr (i, remap, reused, n), s', w')"
  shows "\<exists>lights services full w1 w2. Lights (nt_transport net) pro w = (Inr lights, w1)
    \<and> EntertainmentServices (nt_transport net) pro w1 = (Inr services, w2)
    \<and> remap = remapFromConfig full (snd (zone_members s lights services)) \<and> remap \<noteq> [] \<and> n = length remap"
proof -
  from assms obtain lights w1 where l: "Lights (nt_transport net) pro w = (Inr lights, w1)"
    by (auto simp: ensureConfig_def split: prod.splits sum.splits)
  with assms obtain services w2 where e: "EntertainmentServices (nt_transport net) pro w1 = (Inr services, w2)"
    by (auto simp: ensureConfig_def split: prod.splits sum.splits)
  have "\<exists>full. remap = remapFromConfig full (snd (zone_members s lights services)) \<and> remap \<noteq> [] \<and> n = length remap"
    using assms l e
    by (auto simp: ensureConfig_def Let_def split: prod.splits sum.splits if_splits dest: ensure_listed_remap)
  with l e show ?thesis by blast
qed

text \<open>Every mapped id is a colour light of the zone.\<close>

lemma ensureConfig_zone:
  assumes "ensureConfig net pro s w = (Inr (i, remap, reused, n), s', w')" "mget remap v1 = Some proCh"
  shows "in_subset (st_requested s) v1 \<and>
    (\<exists>lights w1 services w2. Lights (nt_transport net) pro w = (Inr lights, w1)
      \<and> EntertainmentServices (nt_transport net) pro w1 = (Inr services, w2)
      \<and> (\<exists>l \<in> set lights. HasColor l \<and> mget (lm_V1ToUUID (LightsV1 lights)) (v1_id v1) = Some (lt_ID l)
          \<and> mget (dev_to_svc services) (lt_OwnerRID l) \<noteq> None))"
proof -
  obtain lights services full w1 w2 where l: "Lights (nt_transport net) pro w = (Inr lights, w1)"
    and e: "EntertainmentServices (nt_transport net) pro w1 = (Inr services, w2)"
    and r: "remap = remapFromConfig full (snd (zone_members s lights services))"
    using ensureConfig_remap [OF assms(1)] by blast
  have "v1 \<in> set (mkeys remap)" using assms(2) by (subst mkeys_iff) simp
  then obtain svc where svc: "mget (snd (zone_members s lights services)) svc = Some v1"
    using remap_loop_keys [of v1 _ "[]"] unfolding r remapFromConfig_def by fastforce
  then obtain x where x: "x \<in> set lights" "HasColor x" "mget (dev_to_svc services) (lt_OwnerRID x) = Some svc"
      "mget (uuid_to_v1 (lm_V1ToUUID (LightsV1 lights))) (lt_ID x) = Some v1" "in_subset (st_requested s) v1"
    using members_loop_svc [of _ _ _ "[]" "[]" lights _ "snd (zone_members s lights services)"]
    unfolding zone_members_def by (metis map_of.simps(1) option.distinct(1) prod.collapse)
  have "mget (lm_V1ToUUID (LightsV1 lights)) (v1_id v1) = Some (lt_ID x)"
    using uuid_to_v1_Some [OF x(4)] LightsV1_lookup by (auto simp: v1_id_def)
  with l e x show ?thesis by auto
qed

text \<open>
  C32: relume-tv drives only the lights of the TV's Ambilight zone.  When a configuration was ensured,
  every TV light id that is mapped to a channel of the Pro belongs to the subset the TV declared
  (any id, while it declared none), and is, in the numbering the TV was given, a colour-capable
  light of the Pro's current list whose device has an entertainment service.
\<close>

theorem ensureConfig_respects_zone:
  assumes "ensureConfig net pro s w = (Inr (i, remap, reused, n), s', w')" "mget remap v1 = Some proCh"
  shows "in_subset (st_requested s) v1 \<and>
    (\<exists>lights w1 services w2. Lights (nt_transport net) pro w = (Inr lights, w1)
      \<and> EntertainmentServices (nt_transport net) pro w1 = (Inr services, w2)
      \<and> (\<exists>l \<in> set lights. HasColor l \<and> mget (lm_V1ToUUID (LightsV1 lights)) (v1_id v1) = Some (lt_ID l)
          \<and> mget (dev_to_svc services) (lt_OwnerRID l) \<noteq> None))"
  using ensureConfig_zone [OF assms] .

section \<open>Frames\<close>

lemma math_Round_of_int: "math_Round (of_int n) = n"
proof (cases "0 \<le> n")
  case True
  have "\<lfloor>of_int n + (1/2 :: real)\<rfloor> = n" by (simp add: floor_eq_iff)
  then show ?thesis using True by (simp add: math_Round_def)
next
  case False
  have "\<lfloor>(1/2 :: real) - of_int n\<rfloor> = - n" by (simp add: floor_eq_iff)
  then show ?thesis using False by (simp add: math_Round_def)
qed

lemma smoothComponent_full: "smoothComponent cur tgt 1 = tgt"
proof -
  have "math_Round (1 * real_of_int (uint tgt - uint cur)) = uint tgt - uint cur"
    by (simp only: mult_1 math_Round_of_int)
  then have "word_of_int (uint cur + math_Round (1 * real_of_int (uint tgt - uint cur))) = tgt"
    by (simp only: add_diff_cancel_left' add_diff_eq word_of_int_uint)
  then show ?thesis by (simp only: smoothComponent_def Let_def if_cancel)
qed

lemma smoothToward_full: "smoothToward cur tgt 1 = tgt"
  by (simp add: smoothToward_def smoothComponent_full)

text \<open>Each channel of a frame is eased from its last streamed value, and a new one snaps.\<close>

lemma ease_channels_set:
  "distinct ids \<Longrightarrow> ease_channels a latest ids current = (chs, current') \<Longrightarrow>
   chs = map (\<lambda>i. let t = (case mget latest i of None \<Rightarrow> \<lparr>ch_ID = 0, ch_A = 0, ch_B = 0, ch_C = 0\<rparr> | Some t \<Rightarrow> t)
     in case mget current i of None \<Rightarrow> t | Some c \<Rightarrow> smoothToward c t a) ids"
proof (induction ids arbitrary: current chs current')
  case (Cons i ids)
  let ?t = "case mget latest i of None \<Rightarrow> \<lparr>ch_ID = 0, ch_A = 0, ch_B = 0, ch_C = 0\<rparr> | Some t \<Rightarrow> t"
  let ?n = "case mget current i of None \<Rightarrow> ?t | Some c \<Rightarrow> smoothToward c ?t a"
  obtain chs2 cur2 where e: "ease_channels a latest ids (mput i ?n current) = (chs2, cur2)" by fastforce
  then have "chs = ?n # chs2" using Cons.prems(2) by (simp add: Let_def)
  with Cons.IH [OF _ e] Cons.prems(1) show ?case by (auto simp: Let_def intro!: map_cong)
qed simp

lemma buildFrame_channels:
  assumes "gomap_ok (st_latest s)" "buildFrame s = (Some g, s')"
  shows "fr_Channels g = map (\<lambda>i. case mget (st_current s) i of None \<Rightarrow> the (mget (st_latest s) i)
           | Some c \<Rightarrow> smoothToward c (the (mget (st_latest s) i)) (alpha s)) (sort (mkeys (st_latest s)))"
    and "fr_ColorSpace g = st_colorSpace s" "fr_ConfigID g = st_configID s" "fr_Major g = 2"
    and "fr_Sequence g = st_seq s + 1" "st_seq s' = st_seq s + 1"
proof -
  obtain chs cur where e: "ease_channels (alpha s) (st_latest s) (sort (mkeys (st_latest s))) (st_current s) = (chs, cur)"
    by fastforce
  have g: "fr_Channels g = chs" using assms(2) e by (auto simp: buildFrame_def Let_def split: if_splits)
  have d: "distinct (sort (mkeys (st_latest s)))" using assms(1) by (simp add: gomap_ok_def)
  have m: "\<exists>t. mget (st_latest s) i = Some t" if "i \<in> set (sort (mkeys (st_latest s)))" for i
    using that mkeys_iff [of i "st_latest s"] by auto
  show "fr_Channels g = map (\<lambda>i. case mget (st_current s) i of None \<Rightarrow> the (mget (st_latest s) i)
           | Some c \<Rightarrow> smoothToward c (the (mget (st_latest s) i)) (alpha s)) (sort (mkeys (st_latest s)))"
    unfolding g ease_channels_set [OF d e]
    by (rule map_cong) (use m in \<open>fastforce simp: Let_def split: option.splits\<close>)+
  show "fr_ColorSpace g = st_colorSpace s" "fr_ConfigID g = st_configID s" "fr_Major g = 2"
    "fr_Sequence g = st_seq s + 1" "st_seq s' = st_seq s + 1"
    using assms(2) by (auto simp: buildFrame_def Let_def split: if_splits prod.splits)
qed

lemma buildFrame_Some: "st_latest s \<noteq> [] \<Longrightarrow> \<exists>g s'. buildFrame s = (Some g, s')"
  by (cases "ease_channels (alpha s) (st_latest s) (sort (mkeys (st_latest s))) (st_current s)")
    (simp add: buildFrame_def Let_def)

text \<open>What a frame leaves as the target of a Pro channel: the last of its channels mapped there.\<close>

lemma medianFilterLocked_keeps:
  "medianFilterLocked p raw s = (v, s1) \<Longrightarrow> st_remap s1 = st_remap s \<and> st_latest s1 = st_latest s
     \<and> st_current s1 = st_current s \<and> st_colorSpace s1 = st_colorSpace s \<and> st_configID s1 = st_configID s
     \<and> ps_medianWindow s1 = ps_medianWindow s \<and> ps_smoothAlpha s1 = ps_smoothAlpha s
     \<and> st_conn s1 = st_conn s \<and> st_path s1 = st_path s \<and> st_pro s1 = st_pro s \<and> ps_running s1 = ps_running s"
  by (auto simp: medianFilterLocked_def Let_def split: if_splits prod.splits)

lemma push_channels_keeps:
  "st_remap (push_channels chs s) = st_remap s \<and> st_current (push_channels chs s) = st_current s
   \<and> st_colorSpace (push_channels chs s) = st_colorSpace s \<and> st_configID (push_channels chs s) = st_configID s
   \<and> ps_smoothAlpha (push_channels chs s) = ps_smoothAlpha s \<and> st_conn (push_channels chs s) = st_conn s
   \<and> st_path (push_channels chs s) = st_path s \<and> st_pro (push_channels chs s) = st_pro s
   \<and> ps_running (push_channels chs s) = ps_running s
   \<and> (gomap_ok (st_latest s) \<longrightarrow> gomap_ok (st_latest (push_channels chs s)))"
proof (induction chs arbitrary: s)
  case (Cons ch chs)
  show ?case
  proof (cases "mget (st_remap s) (ch_ID ch)")
    case None
    then show ?thesis using Cons.IH by simp
  next
    case (Some p)
    obtain v s1 where m: "medianFilterLocked p \<lparr>ch_ID = ucast p, ch_A = ch_A ch, ch_B = ch_B ch, ch_C = ch_C ch\<rparr> s = (v, s1)"
      by fastforce
    show ?thesis
      using Cons.IH [of "s1\<lparr>st_latest := mput p v (st_latest s1)\<rparr>"] medianFilterLocked_keeps [OF m] Some m
      by (simp add: Let_def)
  qed
qed simp

lemma push_channels_latest_other:
  "\<forall>d \<in> set chs. mget (st_remap s) (ch_ID d) \<noteq> Some p \<Longrightarrow>
   mget (st_latest (push_channels chs s)) p = mget (st_latest s) p"
proof (induction chs arbitrary: s)
  case (Cons ch chs)
  show ?case
  proof (cases "mget (st_remap s) (ch_ID ch)")
    case None
    then show ?thesis using Cons by simp
  next
    case (Some q)
    obtain v s1 where m: "medianFilterLocked q \<lparr>ch_ID = ucast q, ch_A = ch_A ch, ch_B = ch_B ch, ch_C = ch_C ch\<rparr> s = (v, s1)"
      by fastforce
    show ?thesis
      using Cons.IH [of "s1\<lparr>st_latest := mput q v (st_latest s1)\<rparr>"] medianFilterLocked_keeps [OF m] Some m Cons.prems
      by (auto simp: Let_def)
  qed
qed simp

lemma push_channels_latest:
  assumes "mget (st_remap s) (ch_ID ch) = Some p" "\<forall>d \<in> set post. mget (st_remap s) (ch_ID d) \<noteq> Some p"
    and "ps_medianWindow s \<le> 1"
  shows "mget (st_latest (push_channels (pre @ ch # post) s)) p
           = Some \<lparr>ch_ID = ucast p, ch_A = ch_A ch, ch_B = ch_B ch, ch_C = ch_C ch\<rparr>"
  using assms
proof (induction pre arbitrary: s)
  case Nil
  then show ?case
    by (simp add: medianFilterLocked_def push_channels_latest_other)
next
  case (Cons c pre)
  show ?case
  proof (cases "mget (st_remap s) (ch_ID c)")
    case None
    then show ?thesis using Cons by simp
  next
    case (Some q)
    then show ?thesis
      using Cons.IH [of "s\<lparr>st_latest := mput q \<lparr>ch_ID = ucast q, ch_A = ch_A c, ch_B = ch_B c, ch_C = ch_C c\<rparr> (st_latest s)\<rparr>"]
        Cons.prems by (simp add: medianFilterLocked_def Let_def)
  qed
qed

text \<open>
  On the DTLS path the TV's colours reach the Pro unchanged when easing and filtering are off:
  after a frame was pushed, the next frame built carries, for every mapped channel, the raw 16-bit
  values the TV sent, under the Pro's channel id, in the colour space and configuration of the
  stream.
\<close>

theorem passthrough_verbatim:
  assumes "st_path s = ''dtls''" "st_conn s \<noteq> None" "ps_medianWindow s \<le> 1" "ps_smoothAlpha s = 1"
    and "gomap_ok (st_latest s)" "fr_Channels f = pre @ ch # post"
    and "mget (st_remap s) (ch_ID ch) = Some p" "\<forall>d \<in> set post. mget (st_remap s) (ch_ID d) \<noteq> Some p"
  shows "\<exists>g s'. buildFrame (snd (Push f s)) = (Some g, s')
    \<and> \<lparr>ch_ID = ucast p, ch_A = ch_A ch, ch_B = ch_B ch, ch_C = ch_C ch\<rparr> \<in> set (fr_Channels g)
    \<and> fr_ColorSpace g = fr_ColorSpace f \<and> fr_ConfigID g = st_configID s"
proof -
  let ?c = "\<lparr>ch_ID = ucast p, ch_A = ch_A ch, ch_B = ch_B ch, ch_C = ch_C ch\<rparr>"
  define t where "t = push_channels (fr_Channels f) (s\<lparr>st_colorSpace := fr_ColorSpace f\<rparr>)"
  have push: "snd (Push f s) = t" using assms(1,2) by (simp add: Push_def t_def)
  have latest: "mget (st_latest t) p = Some ?c"
    unfolding t_def assms(6) by (rule push_channels_latest) (use assms in simp_all)
  have t: "gomap_ok (st_latest t)" "st_colorSpace t = fr_ColorSpace f" "st_configID t = st_configID s" "alpha t = 1"
    using push_channels_keeps [of "fr_Channels f" "s\<lparr>st_colorSpace := fr_ColorSpace f\<rparr>"] assms(4,5)
    by (simp_all add: t_def alpha_def)
  from latest have "st_latest t \<noteq> []" by auto
  then obtain g s' where g: "buildFrame t = (Some g, s')" using buildFrame_Some by blast
  have "p \<in> set (sort (mkeys (st_latest t)))" using latest mkeys_iff [of p "st_latest t"] by auto
  then have "?c \<in> set (fr_Channels g)"
    unfolding buildFrame_channels(1) [OF t(1) g]
    using latest t(4) by (force simp: smoothToward_full split: option.splits)
  with g push t buildFrame_channels(2,3) [OF t(1) g] show ?thesis by auto
qed

definition demo_streaming :: ProStreamer where
  "demo_streaming = NewProStreamer\<lparr>ps_smoothAlpha := 1, st_conn := Some 7, st_path := ''dtls'',
     st_configID := ''cfg-1'', st_remap := [(3, 0), (4, 1)]\<rparr>"

definition demo_frame :: Frame where
  "demo_frame = \<lparr>fr_Major = 2, fr_Minor = 0, fr_Sequence = 9, fr_ColorSpace = ColorSpaceRGB, fr_ConfigID = [],
     fr_Channels = [\<lparr>ch_ID = 3, ch_A = 100, ch_B = 200, ch_C = 65535\<rparr>, \<lparr>ch_ID = 4, ch_A = 1, ch_B = 2, ch_C = 3\<rparr>]\<rparr>"

lemma passthrough_verbatim_witness:
  "\<exists>g s'. buildFrame (snd (Push demo_frame demo_streaming)) = (Some g, s')
    \<and> \<lparr>ch_ID = ucast (1 :: u8), ch_A = 1, ch_B = 2, ch_C = 3\<rparr> \<in> set (fr_Channels g)
    \<and> fr_ColorSpace g = ColorSpaceRGB \<and> fr_ConfigID g = ''cfg-1''"
  using passthrough_verbatim [of demo_streaming demo_frame "[\<lparr>ch_ID = 3, ch_A = 100, ch_B = 200, ch_C = 65535\<rparr>]"
      "\<lparr>ch_ID = 4, ch_A = 1, ch_B = 2, ch_C = 3\<rparr>" "[]" 1]
  by (simp add: demo_streaming_def demo_frame_def NewProStreamer_def)

section \<open>The configuration store\<close>

text \<open>
  What the streamer relies on of the store \<open>main\<close> wires in: loading gives the id saved last.
\<close>

locale config_store =
  fixes load :: "'s \<Rightarrow> string"
    and sv :: "string \<Rightarrow> 's \<Rightarrow> 's"
  assumes load_save: "load (sv i w) = i"
begin

lemma create_config_persists:
  "nt_loadCfgID net = Some load \<Longrightarrow> nt_saveCfgID net = Some sv \<Longrightarrow>
   create_config net pro members m s w = (Inr (i, remap, reused, n), s', w') \<Longrightarrow>
   load w' = i \<and> st_cachedConfigID s' = i"
  by (auto simp: create_config_def Let_def persistConfigID_def setCachedID_def load_save
      split: prod.splits sum.splits if_splits)

lemma ensure_listed_persists:
  "nt_loadCfgID net = Some load \<Longrightarrow> nt_saveCfgID net = Some sv \<Longrightarrow>
   ensure_listed net pro members m desired s w = (Inr (i, remap, reused, n), s', w') \<Longrightarrow>
   load w' = i \<and> st_cachedConfigID s' = i"
  by (auto simp: ensure_listed_def Let_def persistConfigID_def setCachedID_def load_save
      split: prod.splits sum.splits if_splits dest: create_config_persists)

lemma ensureConfig_persists:
  "nt_loadCfgID net = Some load \<Longrightarrow> nt_saveCfgID net = Some sv \<Longrightarrow>
   ensureConfig net pro s w = (Inr (i, remap, reused, n), s', w') \<Longrightarrow>
   st_cachedConfigID s' = i \<and> (load w' = i \<or> st_cachedConfigID s = i)"
  by (auto simp: ensureConfig_def Let_def split: prod.splits sum.splits if_splits dest: ensure_listed_persists)

end

text \<open>The store of \<open>main\<close>: the configuration, its file and how writing behaves, beside the Pro.\<close>

type_synonym 'p main_world = "'p \<times> Config \<times> file_state \<times> writer"

definition main_load :: "'p main_world \<Rightarrow> string" where
  "main_load w = (case w of (p, c, f, wr) \<Rightarrow> LoadEntConfigID c)"

definition main_save :: "string \<Rightarrow> 'p main_world \<Rightarrow> 'p main_world" where
  "main_save i w = (case w of (p, c, f, wr) \<Rightarrow> (case SaveEntConfigID wr i c f of (err, c', f') \<Rightarrow> (p, c', f', wr)))"

interpretation cfgstore: config_store main_load main_save
  by unfold_locales (auto simp: main_load_def main_save_def split: prod.splits dest: LoadEntConfigID_Save)

text \<open>
  The configuration is found again.  With the store of \<open>main\<close>, a successful \<open>ensureConfig\<close> leaves
  the resolved id as the cached one, and, unless it came from the cache already, as the id the
  persistent configuration answers after it.
\<close>

theorem ensureConfig_persisted:
  assumes "nt_loadCfgID net = Some main_load" "nt_saveCfgID net = Some main_save"
    and "ensureConfig net pro s w = (Inr (i, remap, reused, n), s', w')"
  shows "st_cachedConfigID s' = i \<and> (main_load w' = i \<or> st_cachedConfigID s = i)"
  by (rule cfgstore.ensureConfig_persists [OF assms])

text \<open>A Pro with one colour light and no configuration yet, which assigns channel 5 to it.\<close>

definition demo_reply :: "gval list \<Rightarrow> http_response option" where
  "demo_reply data = Some \<lparr>hr_status = 200, hr_body = Some (GObj [(''errors'', GArr []), (''data'', GArr data)])\<rparr>"

definition demo_bridge :: "'s transport" where
  "demo_bridge q w =
     (if hq_path q = ''/clip/v2/resource/light''
      then demo_reply [GObj [(''id'', GStr ''bb''), (''on'', GObj [(''on'', GBool True)]),
             (''color'', GObj [(''xy'', GObj [(''x'', GFloat 0), (''y'', GFloat 0)])]),
             (''owner'', GObj [(''rid'', GStr ''d2'')])]]
      else if hq_path q = ''/clip/v2/resource/entertainment''
      then demo_reply [GObj [(''id'', GStr ''svc2''), (''owner'', GObj [(''rid'', GStr ''d2'')])]]
      else if hq_method q = POST then demo_reply [GObj [(''rid'', GStr ''cfg-9'')]]
      else if hq_path q = ''/clip/v2/resource/entertainment_configuration'' then demo_reply []
      else demo_reply [GObj [(''id'', GStr ''cfg-9''), (''channels'', GArr [GObj [(''channel_id'', GFloat 5),
             (''members'', GArr [GObj [(''service'', GObj [(''rid'', GStr ''svc2'')])]])]])]], w)"

definition demo_net :: "'p main_world net" where
  "demo_net = \<lparr>nt_transport = demo_bridge, nt_dial = (\<lambda>h po i k w. (Some 7, w)), nt_write = (\<lambda>c b w. (True, w)),
     nt_close = (\<lambda>c w. w), nt_loadCfgID = Some main_load, nt_saveCfgID = Some main_save\<rparr>"

definition demo_idle :: ProStreamer where
  "demo_idle = \<lparr>ps_smoothAlpha = 1, ps_medianWindow = 0, ps_medianThreshold = 0,
     ps_port = 0, ps_running = False, st_conn = None, st_pro = None, st_configID = [], st_colorSpace = 0,
     st_remap = [], st_latest = [], st_current = [], st_history = [], st_spikesSuppressed = 0,
     st_seq = 0, st_path = [], st_cachedConfigID = [], st_requested = Some [(1, True)]\<rparr>"

definition demo_client :: Client where
  "demo_client = \<lparr>cl_host = ''10.0.0.5'', cl_appKey = ''k''\<rparr>"

definition demo_world :: "unit main_world" where
  "demo_world = ((), demo_config\<lparr>cf_persist := True, cf_EntConfigID := []\<rparr>, FileAbsent, sure_write)"

lemma demo_ensure:
  "\<exists>w'. ensureConfig demo_net demo_client demo_idle demo_world
     = (Inr (''cfg-9'', [(1, 5)], False, 1), setCachedID ''cfg-9'' demo_idle, w')"
proof -
  have "map_prod id fst (ensureConfig demo_net demo_client demo_idle demo_world)
      = (Inr (''cfg-9'', [(1, 5)], False, 1), setCachedID ''cfg-9'' demo_idle)"
    by code_simp
  then show ?thesis by (cases "ensureConfig demo_net demo_client demo_idle demo_world") auto
qed

lemma ensureConfig_respects_zone_witness:
  "\<exists>w' s'. ensureConfig demo_net demo_client demo_idle demo_world = (Inr (''cfg-9'', [(1, 5)], False, 1), s', w')
    \<and> in_subset (st_requested demo_idle) 1
    \<and> (\<exists>lights w1 services w2. Lights (nt_transport demo_net) demo_client demo_world = (Inr lights, w1)
      \<and> EntertainmentServices (nt_transport demo_net) demo_client w1 = (Inr services, w2)
      \<and> (\<exists>l \<in> set lights. HasColor l \<and> mget (lm_V1ToUUID (LightsV1 lights)) (v1_id 1) = Some (lt_ID l)
          \<and> mget (dev_to_svc services) (lt_OwnerRID l) \<noteq> None))"
proof -
  obtain w' where e: "ensureConfig demo_net demo_client demo_idle demo_world
      = (Inr (''cfg-9'', [(1, 5)], False, 1), setCachedID ''cfg-9'' demo_idle, w')"
    using demo_ensure by blast
  have "mget [(1, 5)] (1 :: u16) = Some (5 :: u8)" by simp
  from ensureConfig_respects_zone [OF e this] e show ?thesis by blast
qed

lemma ensureConfig_persisted_witness:
  "\<exists>w' s'. ensureConfig demo_net demo_client demo_idle demo_world = (Inr (''cfg-9'', [(1, 5)], False, 1), s', w')
     \<and> st_cachedConfigID s' = ''cfg-9'' \<and> main_load w' = ''cfg-9''"
proof -
  obtain w' where e: "ensureConfig demo_net demo_client demo_idle demo_world
      = (Inr (''cfg-9'', [(1, 5)], False, 1), setCachedID ''cfg-9'' demo_idle, w')"
    using demo_ensure by blast
  from ensureConfig_persisted [OF _ _ e] show ?thesis
    using e by (auto simp: demo_net_def demo_idle_def)
qed

section \<open>The life of the streamer\<close>

text \<open>
  The receiver starts and stops the streamer and pushes frames; the run goroutine turns, ticks and
  rolls up.  \<open>Stop\<close> cancels and joins the goroutine, whatever it is doing.
\<close>

datatype run_phase = NoRun | Trying duration | InLoop send_locals

record 's str_sys =
  sr_net :: "'s net"
  sr_s :: ProStreamer
  sr_w :: 's
  sr_phase :: run_phase

datatype str_event =
    EvStart "ProTarget option"
  | EvTurn "ProTarget option"
  | EvTick
  | EvSendRollup
  | EvPush Frame
  | EvRequest "u16 list"
  | EvStop

inductive str_step :: "'s str_sys \<Rightarrow> str_event \<Rightarrow> 's str_sys \<Rightarrow> bool" where
  str_Start: "Start t (sr_s y) = (launched, s') \<Longrightarrow>
    str_step y (EvStart t) (y\<lparr>sr_s := s', sr_phase := (if launched then Trying initialBackoff else sr_phase y)\<rparr>)"
| str_Backoff: "sr_phase y = Trying b \<Longrightarrow> run_turn_of (sr_net y) t b (sr_s y) (sr_w y) = (Backoff e d, b', s', w') \<Longrightarrow>
    str_step y (EvTurn t) (y\<lparr>sr_s := s', sr_w := w', sr_phase := Trying b'\<rparr>)"
| str_Enter: "sr_phase y = Trying b \<Longrightarrow> run_turn_of (sr_net y) t b (sr_s y) (sr_w y) = (EnterSendLoop, b', s', w') \<Longrightarrow>
    str_step y (EvTurn t) (y\<lparr>sr_s := s', sr_w := w', sr_phase := InLoop send_start\<rparr>)"
| str_Tick: "sr_phase y = InLoop l \<Longrightarrow> send_tick (sr_net y) l (sr_s y) (sr_w y) = (l', s', w') \<Longrightarrow>
    str_step y EvTick (y\<lparr>sr_s := s', sr_w := w',
      sr_phase := (case l' of None \<Rightarrow> Trying initialBackoff | Some l'' \<Rightarrow> InLoop l'')\<rparr>)"
| str_Rollup: "sr_phase y = InLoop l \<Longrightarrow> send_rollup l (sr_s y) = (stats, l', s') \<Longrightarrow>
    str_step y EvSendRollup (y\<lparr>sr_s := s', sr_phase := InLoop l'\<rparr>)"
| str_Push: "str_step y (EvPush f) (y\<lparr>sr_s := snd (Push f (sr_s y))\<rparr>)"
| str_Request: "str_step y (EvRequest ids) (y\<lparr>sr_s := SetRequestedMembers ids (sr_s y)\<rparr>)"
| str_Stop: "Stop (sr_net y) (sr_s y) (sr_w y) = (s', w') \<Longrightarrow>
    str_step y EvStop (y\<lparr>sr_s := s', sr_w := w', sr_phase := NoRun\<rparr>)"

text \<open>
  The path is \<open>dtls\<close> exactly while a connection is open, and then the run goroutine is in its send
  loop and the client to stop is known; a goroutine exists exactly while running; the backoff is
  one, two, four, eight or sixteen seconds.  The streamer starts as the constructor and the two
  setters of \<open>runServe\<close> leave it.
\<close>

definition backoff_ok :: "duration \<Rightarrow> bool" where
  "backoff_ok b \<longleftrightarrow> b \<in> (\<lambda>k. 2 ^ k * second) ` {0..4}"

definition conn_ok :: "ProStreamer \<Rightarrow> bool" where
  "conn_ok s \<longleftrightarrow> (st_conn s \<noteq> None \<longleftrightarrow> st_path s = ''dtls'') \<and> (st_conn s \<noteq> None \<longrightarrow> st_pro s \<noteq> None)
     \<and> gomap_ok (st_latest s)"

definition str_inv :: "'s str_sys \<Rightarrow> bool" where
  "str_inv y \<longleftrightarrow> conn_ok (sr_s y) \<and> (ps_running (sr_s y) \<longleftrightarrow> sr_phase y \<noteq> NoRun)
     \<and> (case sr_phase y of NoRun \<Rightarrow> st_conn (sr_s y) = None
        | Trying b \<Rightarrow> st_conn (sr_s y) = None \<and> backoff_ok b
        | InLoop l \<Rightarrow> True)"

definition configured :: "duration \<Rightarrow> int \<Rightarrow> u16 \<Rightarrow> ProStreamer" where
  "configured tau window threshold = SetMedianFilter window threshold (SetSmoothTau tau NewProStreamer)"

definition str_init :: "'s str_sys \<Rightarrow> bool" where
  "str_init y \<longleftrightarrow> (\<exists>tau window threshold. sr_s y = configured tau window threshold) \<and> sr_phase y = NoRun"

lemma configured_fields [simp]:
  "ps_smoothAlpha (configured tau n th) = alphaForTau tau" "ps_medianWindow (configured tau n th) = SetMedianFilter_window n"
  "st_conn (configured tau n th) = None" "st_path (configured tau n th) = []" "st_latest (configured tau n th) = []"
  "st_pro (configured tau n th) = None" "ps_running (configured tau n th) = False"
  by (simp_all add: configured_def SetMedianFilter_def SetSmoothTau_def NewProStreamer_def)

lemma configured_default: "configured DefaultSmoothTau 0 0 = NewProStreamer"
  by (simp add: configured_def SetMedianFilter_def SetSmoothTau_def NewProStreamer_def SetMedianFilter_window_def
      defaultSmoothAlpha_def)

lemma backoff_set: "backoff_ok b \<longleftrightarrow> b \<in> {second, 2 * second, 4 * second, 8 * second, 16 * second}"
proof -
  have "{0..4 :: nat} = {0, 1, 2, 3, 4}" by auto
  then show ?thesis by (simp add: backoff_ok_def)
qed

lemma backoff_ok_initial [simp]: "backoff_ok initialBackoff"
  by (simp add: backoff_set initialBackoff_def)

lemma backoff_ok_next: "backoff_ok b \<Longrightarrow> backoff_ok (nextBackoff b)"
  by (auto simp: backoff_set nextBackoff_def second_def)

text \<open>\<open>ensureConfig\<close> writes nothing but the cached id.\<close>

definition same_but_cache :: "ProStreamer \<Rightarrow> ProStreamer \<Rightarrow> bool" where
  "same_but_cache s s' \<longleftrightarrow> s'\<lparr>st_cachedConfigID := []\<rparr> = s\<lparr>st_cachedConfigID := []\<rparr>"

lemma same_but_cache_simps [simp]:
  "same_but_cache s s" "same_but_cache s (setCachedID i s)" "same_but_cache (setCachedID i s) t = same_but_cache s t"
  by (simp_all add: same_but_cache_def setCachedID_def)

lemma create_config_same: "create_config net pro members m s w = (r, s', w') \<Longrightarrow> same_but_cache s s'"
  by (auto simp: create_config_def Let_def split: prod.splits sum.splits if_splits)

lemma ensure_listed_same: "ensure_listed net pro members m desired s w = (r, s', w') \<Longrightarrow> same_but_cache s s'"
  by (auto simp: ensure_listed_def Let_def split: prod.splits sum.splits if_splits dest: create_config_same)

lemma ensureConfig_same: "ensureConfig net pro s w = (r, s', w') \<Longrightarrow> same_but_cache s s'"
  by (auto simp: ensureConfig_def Let_def split: prod.splits sum.splits if_splits dest: ensure_listed_same)

lemma same_but_cache_fields:
  assumes "same_but_cache s s'"
  shows "st_conn s' = st_conn s" "st_path s' = st_path s" "st_pro s' = st_pro s" "st_latest s' = st_latest s"
    "ps_running s' = ps_running s"
proof -
  have e: "s'\<lparr>st_cachedConfigID := []\<rparr> = s\<lparr>st_cachedConfigID := []\<rparr>" using assms by (simp add: same_but_cache_def)
  show "st_conn s' = st_conn s" using arg_cong [OF e, of st_conn] by simp
  show "st_path s' = st_path s" using arg_cong [OF e, of st_path] by simp
  show "st_pro s' = st_pro s" using arg_cong [OF e, of st_pro] by simp
  show "st_latest s' = st_latest s" using arg_cong [OF e, of st_latest] by simp
  show "ps_running s' = ps_running s" using arg_cong [OF e, of ps_running] by simp
qed

lemma establish_Some:
  assumes "establish net t s w = (Some e, s', w')" shows "same_but_cache s s'"
  using assms ensureConfig_same
  by (auto simp: establish_def Let_def split: option.splits prod.splits sum.splits)

lemma establish_None:
  assumes "establish net t s w = (None, s', w')"
  shows "\<exists>c p. st_conn s' = Some c \<and> st_pro s' = Some p \<and> st_path s' = ''dtls'' \<and> st_latest s' = []
    \<and> ps_running s' = ps_running s"
  using assms same_but_cache_fields(5) [OF ensureConfig_same]
  by (force simp: establish_def Let_def split: option.splits prod.splits sum.splits)

lemma buildFrame_keeps:
  "buildFrame s = (g, s') \<Longrightarrow> st_conn s' = st_conn s \<and> st_path s' = st_path s \<and> st_pro s' = st_pro s
     \<and> st_latest s' = st_latest s \<and> ps_running s' = ps_running s"
  by (auto simp: buildFrame_def Let_def split: if_splits prod.splits)

lemma teardown_keeps:
  "teardown net s w = (s', w') \<Longrightarrow> st_conn s' = None \<and> st_path s' = ''rest'' \<and> st_latest s' = st_latest s
     \<and> ps_running s' = ps_running s"
  by (auto simp: teardown_def Let_def)

lemma send_tick_conn:
  assumes "send_tick net l s w = (l', s', w')" "conn_ok s"
  shows "conn_ok s' \<and> ps_running s' = ps_running s \<and> (l' = None \<longrightarrow> st_conn s' = None)"
proof (cases "st_conn s")
  case None
  then show ?thesis using assms by (simp add: send_tick_def)
next
  case (Some c)
  obtain g s1 where b: "buildFrame s = (g, s1)" by fastforce
  note k = buildFrame_keeps [OF b]
  show ?thesis
  proof (cases g)
    case None
    then show ?thesis using assms Some b k by (auto simp: send_tick_def conn_ok_def)
  next
    case (Some f)
    then show ?thesis using assms \<open>st_conn s = Some c\<close> b k
      by (auto simp: send_tick_def conn_ok_def Let_def split: prod.splits bool.splits dest!: teardown_keeps)
  qed
qed

lemma str_inv_step: "str_step y e y' \<Longrightarrow> str_inv y \<Longrightarrow> str_inv y'"
proof (induction rule: str_step.induct)
  case (str_Start t y launched s')
  then show ?case
    by (auto simp: str_inv_def conn_ok_def Start_def setPath_def split: if_splits run_phase.splits)
next
  case (str_Backoff y b t e d b' s' w')
  obtain s1 where e: "establish (sr_net y) t (sr_s y) (sr_w y) = (Some e, s1, w')" "s' = setPath ''rest'' s1" "b' = nextBackoff b"
    using str_Backoff(2) by (auto simp: run_turn_of_def split: prod.splits option.splits)
  have "same_but_cache (sr_s y) s1" by (rule establish_Some [OF e(1)])
  from same_but_cache_fields [OF this] show ?case using str_Backoff e(2,3) backoff_ok_next
    by (auto simp: str_inv_def conn_ok_def setPath_def)
next
  case (str_Enter y b t b' s' w')
  have e: "establish (sr_net y) t (sr_s y) (sr_w y) = (None, s', w')"
    using str_Enter(2) by (auto simp: run_turn_of_def split: prod.splits option.splits)
  from establish_None [OF e] show ?case using str_Enter by (auto simp: str_inv_def conn_ok_def)
next
  case (str_Tick y l l' s' w')
  from send_tick_conn [OF str_Tick(2)] show ?case using str_Tick
    by (auto simp: str_inv_def split: option.splits)
next
  case (str_Rollup y l stats l' s')
  then show ?case by (auto simp: str_inv_def conn_ok_def send_rollup_def)
next
  case (str_Push y f)
  then show ?case
    using push_channels_keeps [of "fr_Channels f" "(sr_s y)\<lparr>st_colorSpace := fr_ColorSpace f\<rparr>"]
    by (auto simp: str_inv_def conn_ok_def Push_def split: run_phase.splits)
next
  case (str_Request y ids)
  then show ?case by (auto simp: str_inv_def conn_ok_def SetRequestedMembers_def split: run_phase.splits)
next
  case (str_Stop y s' w')
  then have "teardown (sr_net y) ((sr_s y)\<lparr>ps_running := False\<rparr>) (sr_w y) = (s', w')" by (simp add: Stop_def)
  from teardown_keeps [OF this] show ?case using str_Stop by (auto simp: str_inv_def conn_ok_def)
qed

lemma str_inv_init: "str_init y \<Longrightarrow> str_inv y"
  by (auto simp: str_init_def str_inv_def conn_ok_def)

interpretation streamer: invariant_system str_init str_step str_inv
  by unfold_locales (auto intro: str_inv_init str_inv_step)

text \<open>
  The two paths exclude each other and a stop is final.  In every interleaving of the receiver's
  calls with the run goroutine, the reported path is DTLS exactly while a connection to the Pro is
  open and REST otherwise, a stopped streamer has neither connection nor goroutine, and a failing
  establishment is retried after one, two, four, eight or sixteen seconds.
\<close>

theorem streamer_paths:
  assumes "str_init y0" "run str_step y0 es y"
  shows "(Path (sr_s y) = ''dtls'' \<longleftrightarrow> st_conn (sr_s y) \<noteq> None)
    \<and> (\<not> ps_running (sr_s y) \<longrightarrow> st_conn (sr_s y) = None \<and> sr_phase y = NoRun)
    \<and> (\<forall>b. sr_phase y = Trying b \<longrightarrow> b \<in> {second, 2 * second, 4 * second, 8 * second, 16 * second})"
proof -
  have "str_inv y" using streamer.reachable_inv assms by blast
  then show ?thesis
    by (cases "sr_phase y") (auto simp: str_inv_def conn_ok_def Path_def backoff_set)
qed

text \<open>The TV connects, and the Pro's pairing has vanished meanwhile.\<close>

definition demo_str :: "unit main_world str_sys" where
  "demo_str = \<lparr>sr_net = demo_net, sr_s = NewProStreamer, sr_w = demo_world, sr_phase = NoRun\<rparr>"

definition demo_target :: ProTarget where
  "demo_target = \<lparr>pt_client = demo_client, pt_host = ''10.0.0.5'', pt_appKey = ''k'', pt_clientKey = [1]\<rparr>"

definition demo_str_trying :: "unit main_world str_sys" where
  "demo_str_trying = demo_str\<lparr>sr_s := setPath ''rest'' (NewProStreamer\<lparr>ps_running := True\<rparr>), sr_phase := Trying (2 * second)\<rparr>"

lemma demo_str_run: "run str_step demo_str [EvStart (Some demo_target), EvTurn None] demo_str_trying"
proof (rule run_Cons [OF _ run_single])
  let ?y = "demo_str\<lparr>sr_s := NewProStreamer\<lparr>ps_running := True\<rparr>, sr_phase := Trying initialBackoff\<rparr>"
  show "str_step demo_str (EvStart (Some demo_target)) ?y"
    using str_step.str_Start [of "Some demo_target" demo_str True "NewProStreamer\<lparr>ps_running := True\<rparr>"]
    by (simp add: Start_def demo_str_def NewProStreamer_def)
  have "run_turn_of demo_net None initialBackoff (NewProStreamer\<lparr>ps_running := True\<rparr>) demo_world
      = (Backoff EstNoPairing initialBackoff, 2 * second, setPath ''rest'' (NewProStreamer\<lparr>ps_running := True\<rparr>), demo_world)"
    by (simp add: run_turn_of_def establish_def nextBackoff_def initialBackoff_def second_def)
  then show "str_step ?y (EvTurn None) demo_str_trying"
    using str_step.str_Backoff [of ?y initialBackoff None EstNoPairing initialBackoff "2 * second"
        "setPath ''rest'' (NewProStreamer\<lparr>ps_running := True\<rparr>)" demo_world]
    by (simp add: demo_str_def demo_str_trying_def)
qed

lemma streamer_paths_witness:
  "(Path (sr_s demo_str_trying) = ''dtls'' \<longleftrightarrow> st_conn (sr_s demo_str_trying) \<noteq> None)
    \<and> ps_running (sr_s demo_str_trying) \<and> sr_phase demo_str_trying = Trying (2 * second)
    \<and> 2 * second \<in> {second, 2 * second, 4 * second, 8 * second, 16 * second}"
proof -
  have "str_init demo_str" by (simp add: str_init_def demo_str_def) (metis configured_default)
  from streamer_paths [OF this demo_str_run] show ?thesis
    by (simp add: demo_str_trying_def setPath_def)
qed

end
