(* ===== verification/StreamState.thy ===== *)
theory StreamState
  imports Systems
begin

text \<open>
  The entertainment stream state of the CLIP v1 server (\<open>internal/clipv1/state.go\<close>, type
  \<open>streamState\<close>): the activation the TV requested, whether its DTLS stream is up, the REST fallback
  and the fallback watchdog.

  Every method takes the mutex for its whole body, so a method is one atomic step.  A
  \<open>time.Timer\<close> is a record: its callback's captured generation, its deadline, and whether it is
  still pending.  \<open>Stop\<close> only prevents a pending timer from firing; a callback that has already
  started is in flight and runs when the scheduler lets it.  The generation counter is a natural
  number (the code's \<open>uint64\<close> would have to be bumped \<open>2 ^ 64\<close> times to wrap).
\<close>

section \<open>State and operations\<close>

record Timer =
  tm_gen :: nat
  tm_deadline :: int
  tm_pending :: bool

record streamState =
  ss_active :: bool
  ss_owner :: string
  ss_streamUp :: bool
  ss_fallback :: bool
  ss_fallbackTimeout :: duration
  ss_watchdog :: "Timer option"
  ss_fallbackAt :: gotime
  ss_recoveryCooldown :: duration
  ss_gen :: nat
  ss_restNoticed :: bool

definition defaultDTLSFallbackTimeout :: duration where
  "defaultDTLSFallbackTimeout = 5 * second"

definition defaultRecoveryCooldown :: duration where
  "defaultRecoveryCooldown = 90 * second"

definition newStreamState :: "duration \<Rightarrow> streamState" where
  "newStreamState timeout =
     \<lparr>ss_active = False, ss_owner = [], ss_streamUp = False, ss_fallback = False,
      ss_fallbackTimeout = timeout, ss_watchdog = None, ss_fallbackAt = None,
      ss_recoveryCooldown = defaultRecoveryCooldown, ss_gen = 0, ss_restNoticed = False\<rparr>"

definition setFallbackTimeout :: "duration \<Rightarrow> streamState \<Rightarrow> streamState" where
  "setFallbackTimeout d s = (if d \<le> 0 then s else s\<lparr>ss_fallbackTimeout := d\<rparr>)"

definition setRecoveryCooldown :: "duration \<Rightarrow> streamState \<Rightarrow> streamState" where
  "setRecoveryCooldown d s = s\<lparr>ss_recoveryCooldown := (if d < 0 then 0 else d)\<rparr>"

text \<open>\<open>t.Sub(u)\<close> saturates; the distance from the zero time is beyond every duration.\<close>

definition maxDuration :: duration where
  "maxDuration = 9223372036854775807"

definition time_Sub :: "int \<Rightarrow> gotime \<Rightarrow> duration" where
  "time_Sub t u = (case u of None \<Rightarrow> maxDuration | Some v \<Rightarrow> min maxDuration (t - v))"

definition tryRecoverFallback :: "int \<Rightarrow> streamState \<Rightarrow> bool \<times> streamState" where
  "tryRecoverFallback now s =
     (if \<not> ss_fallback s \<or> ss_recoveryCooldown s \<le> 0 then (False, s)
      else if time_Sub now (ss_fallbackAt s) < ss_recoveryCooldown s then (False, s)
      else (True, s\<lparr>ss_fallback := False\<rparr>))"

definition inFallback :: "streamState \<Rightarrow> bool" where
  "inFallback s = ss_fallback s"

definition isUp :: "streamState \<Rightarrow> bool" where
  "isUp s = ss_streamUp s"

definition noteRESTDriving :: "streamState \<Rightarrow> bool \<times> streamState" where
  "noteRESTDriving s =
     (if ss_streamUp s \<or> ss_fallback s \<or> ss_active s \<or> ss_restNoticed s then (False, s)
      else (True, s\<lparr>ss_restNoticed := True\<rparr>))"

definition setActive :: "bool \<Rightarrow> string \<Rightarrow> streamState \<Rightarrow> streamState" where
  "setActive active owner s =
     s\<lparr>ss_active := active, ss_owner := (if active then owner else []), ss_restNoticed := False\<rparr>"

definition stream_snapshot :: "streamState \<Rightarrow> bool \<times> string" where
  "stream_snapshot s = (ss_active s, ss_owner s)"

definition timer_Stop :: "Timer \<Rightarrow> Timer" where
  "timer_Stop t = t\<lparr>tm_pending := False\<rparr>"

text \<open>
  \<open>armWatchdog\<close> stops the previous timer and replaces it: the stopped timer can never fire any
  more, so the record keeps the current one only.
\<close>

definition armWatchdog :: "bool \<Rightarrow> int \<Rightarrow> streamState \<Rightarrow> streamState" where
  "armWatchdog entertainment now s =
     (if \<not> entertainment \<or> ss_fallback s \<or> ss_streamUp s then s
      else let s1 = s\<lparr>ss_watchdog := map_option timer_Stop (ss_watchdog s)\<rparr>;
               s2 = s1\<lparr>ss_gen := ss_gen s1 + 1\<rparr>
           in s2\<lparr>ss_watchdog := Some \<lparr>tm_gen = ss_gen s2,
                   tm_deadline = now + ss_fallbackTimeout s2, tm_pending = True\<rparr>\<rparr>)"

definition disarmWatchdog :: "streamState \<Rightarrow> streamState" where
  "disarmWatchdog s =
     (let s1 = (case ss_watchdog s of None \<Rightarrow> s | Some t \<Rightarrow> s\<lparr>ss_watchdog := None\<rparr>)
      in s1\<lparr>ss_gen := ss_gen s1 + 1\<rparr>)"

text \<open>The result says whether the control-path switch is logged (the edge, not the level).\<close>

definition markStreamUp :: "streamState \<Rightarrow> bool \<times> streamState" where
  "markStreamUp s =
     (let was = ss_streamUp s;
          s1 = s\<lparr>ss_streamUp := True\<rparr>;
          s2 = (case ss_watchdog s1 of None \<Rightarrow> s1 | Some t \<Rightarrow> s1\<lparr>ss_watchdog := None\<rparr>)
      in (\<not> was, s2\<lparr>ss_fallback := False, ss_gen := ss_gen s2 + 1, ss_restNoticed := False\<rparr>))"

definition markStreamDown :: "streamState \<Rightarrow> bool \<times> streamState" where
  "markStreamDown s = (ss_streamUp s, s\<lparr>ss_streamUp := False, ss_restNoticed := False\<rparr>)"

definition watchdogFired :: "nat \<Rightarrow> int \<Rightarrow> streamState \<Rightarrow> streamState" where
  "watchdogFired g now s =
     (if ss_streamUp s \<or> g \<noteq> ss_gen s then s
      else s\<lparr>ss_fallback := True, ss_fallbackAt := Some now, ss_active := False,
             ss_owner := [], ss_restNoticed := False\<rparr>)"

lemmas stream_ops = tryRecoverFallback_def noteRESTDriving_def setActive_def armWatchdog_def
  disarmWatchdog_def markStreamUp_def markStreamDown_def watchdogFired_def timer_Stop_def

section \<open>The concurrent system\<close>

text \<open>
  The operations are called by HTTP handlers, by the DTLS receiver and by the timer's goroutine,
  in any order.  \<open>sy_inflight\<close> holds the generations of watchdog callbacks that have started and
  not yet taken the lock.
\<close>

record stream_sys =
  sy_st :: streamState
  sy_inflight :: "nat list"
  sy_now :: int

datatype stream_event =
    Tick int
  | TryRecover
  | NoteREST
  | SetActive bool string
  | Arm bool
  | Disarm
  | StreamUp
  | StreamDown
  | TimerFires
  | Callback nat

inductive stream_step :: "stream_sys \<Rightarrow> stream_event \<Rightarrow> stream_sys \<Rightarrow> bool" where
  Tick: "0 \<le> d \<Longrightarrow> stream_step y (Tick d) (y\<lparr>sy_now := sy_now y + d\<rparr>)"
| TryRecover: "stream_step y TryRecover (y\<lparr>sy_st := snd (tryRecoverFallback (sy_now y) (sy_st y))\<rparr>)"
| NoteREST: "stream_step y NoteREST (y\<lparr>sy_st := snd (noteRESTDriving (sy_st y))\<rparr>)"
| SetActive: "stream_step y (SetActive a u) (y\<lparr>sy_st := setActive a u (sy_st y)\<rparr>)"
| Arm: "stream_step y (Arm b) (y\<lparr>sy_st := armWatchdog b (sy_now y) (sy_st y)\<rparr>)"
| Disarm: "stream_step y Disarm (y\<lparr>sy_st := disarmWatchdog (sy_st y)\<rparr>)"
| StreamUp: "stream_step y StreamUp (y\<lparr>sy_st := snd (markStreamUp (sy_st y))\<rparr>)"
| StreamDown: "stream_step y StreamDown (y\<lparr>sy_st := snd (markStreamDown (sy_st y))\<rparr>)"
| TimerFires: "ss_watchdog (sy_st y) = Some t \<Longrightarrow> tm_pending t \<Longrightarrow> tm_deadline t \<le> sy_now y \<Longrightarrow>
    stream_step y TimerFires
      (y\<lparr>sy_st := (sy_st y)\<lparr>ss_watchdog := Some (t\<lparr>tm_pending := False\<rparr>)\<rparr>,
         sy_inflight := tm_gen t # sy_inflight y\<rparr>)"
| Callback: "g \<in> set (sy_inflight y) \<Longrightarrow>
    stream_step y (Callback g)
      (y\<lparr>sy_st := watchdogFired g (sy_now y) (sy_st y), sy_inflight := remove1 g (sy_inflight y)\<rparr>)"

text \<open>The same steps as a function, \<open>None\<close> when the event is not enabled.\<close>

fun stream_next :: "stream_sys \<Rightarrow> stream_event \<Rightarrow> stream_sys option" where
  "stream_next y (Tick d) = (if 0 \<le> d then Some (y\<lparr>sy_now := sy_now y + d\<rparr>) else None)"
| "stream_next y TryRecover = Some (y\<lparr>sy_st := snd (tryRecoverFallback (sy_now y) (sy_st y))\<rparr>)"
| "stream_next y NoteREST = Some (y\<lparr>sy_st := snd (noteRESTDriving (sy_st y))\<rparr>)"
| "stream_next y (SetActive a u) = Some (y\<lparr>sy_st := setActive a u (sy_st y)\<rparr>)"
| "stream_next y (Arm b) = Some (y\<lparr>sy_st := armWatchdog b (sy_now y) (sy_st y)\<rparr>)"
| "stream_next y Disarm = Some (y\<lparr>sy_st := disarmWatchdog (sy_st y)\<rparr>)"
| "stream_next y StreamUp = Some (y\<lparr>sy_st := snd (markStreamUp (sy_st y))\<rparr>)"
| "stream_next y StreamDown = Some (y\<lparr>sy_st := snd (markStreamDown (sy_st y))\<rparr>)"
| "stream_next y TimerFires =
     (case ss_watchdog (sy_st y) of None \<Rightarrow> None
      | Some t \<Rightarrow> if tm_pending t \<and> tm_deadline t \<le> sy_now y
          then Some (y\<lparr>sy_st := (sy_st y)\<lparr>ss_watchdog := Some (t\<lparr>tm_pending := False\<rparr>)\<rparr>,
                       sy_inflight := tm_gen t # sy_inflight y\<rparr>)
          else None)"
| "stream_next y (Callback g) =
     (if g \<in> set (sy_inflight y)
      then Some (y\<lparr>sy_st := watchdogFired g (sy_now y) (sy_st y), sy_inflight := remove1 g (sy_inflight y)\<rparr>)
      else None)"

lemma stream_next_step: "stream_next y e = Some y' \<Longrightarrow> stream_step y e y'"
  by (cases e) (auto intro: stream_step.intros split: if_splits option.splits)

inductive_cases stream_stepE [elim!]:
  "stream_step y (Tick d) y'" "stream_step y TryRecover y'" "stream_step y NoteREST y'"
  "stream_step y (SetActive a u) y'" "stream_step y (Arm b) y'" "stream_step y Disarm y'"
  "stream_step y StreamUp y'" "stream_step y StreamDown y'" "stream_step y TimerFires y'"
  "stream_step y (Callback g) y'"

text \<open>The server starts with a fresh state, its two durations set from the command line.\<close>

definition configuredStream :: "duration \<Rightarrow> duration \<Rightarrow> streamState" where
  "configuredStream timeout cooldown =
     setRecoveryCooldown cooldown (setFallbackTimeout timeout (newStreamState defaultDTLSFallbackTimeout))"

definition stream_init :: "stream_sys \<Rightarrow> bool" where
  "stream_init y \<longleftrightarrow> sy_inflight y = [] \<and> (\<exists>t c. sy_st y = configuredStream t c)"


section \<open>The state invariant\<close>

text \<open>A watchdog is live when its timer is pending or its callback, not superseded, is in flight.\<close>

definition timer_pending :: "stream_sys \<Rightarrow> bool" where
  "timer_pending y \<longleftrightarrow> (case ss_watchdog (sy_st y) of None \<Rightarrow> False | Some t \<Rightarrow> tm_pending t)"

definition callback_live :: "stream_sys \<Rightarrow> bool" where
  "callback_live y \<longleftrightarrow> ss_gen (sy_st y) \<in> set (sy_inflight y)"

definition state_inv :: "streamState \<Rightarrow> nat list \<Rightarrow> bool" where
  "state_inv s l \<longleftrightarrow>
     distinct l \<and> (\<forall>g \<in> set l. g \<le> ss_gen s)
   \<and> (case ss_watchdog s of None \<Rightarrow> True
      | Some t \<Rightarrow> tm_gen t = ss_gen s \<and> (tm_pending t \<longrightarrow> ss_gen s \<notin> set l \<and> \<not> ss_fallback s))
   \<and> (ss_fallback s \<longrightarrow> \<not> ss_streamUp s \<and> ss_gen s \<notin> set l \<and> ss_fallbackAt s \<noteq> None)"

definition stream_inv :: "stream_sys \<Rightarrow> bool" where
  "stream_inv y \<longleftrightarrow> state_inv (sy_st y) (sy_inflight y)"

lemma configuredStream_simps [simp]:
  "ss_streamUp (configuredStream t c) = False" "ss_fallback (configuredStream t c) = False"
  "ss_watchdog (configuredStream t c) = None" "ss_active (configuredStream t c) = False"
  "ss_gen (configuredStream t c) = 0" "ss_fallbackAt (configuredStream t c) = None"
  by (simp_all add: configuredStream_def setRecoveryCooldown_def setFallbackTimeout_def newStreamState_def)

lemma stream_inv_init: "stream_init y \<Longrightarrow> stream_inv y"
  by (auto simp: stream_init_def stream_inv_def state_inv_def)

text \<open>One preservation lemma per operation.\<close>

lemma state_inv_ops:
  assumes "state_inv s l"
  shows "state_inv (snd (tryRecoverFallback now s)) l" "state_inv (snd (noteRESTDriving s)) l"
    "state_inv (setActive a u s) l" "state_inv (snd (markStreamDown s)) l"
  using assms by (auto simp: state_inv_def stream_ops split: option.splits)

lemma gen_fresh: "state_inv s l \<Longrightarrow> Suc (ss_gen s) \<notin> set l"
  by (auto simp: state_inv_def)

lemma le_Suc_gen: "state_inv s l \<Longrightarrow> g \<in> set l \<Longrightarrow> g \<le> Suc (ss_gen s)"
  by (auto simp: state_inv_def)

lemma state_inv_Arm: "state_inv s l \<Longrightarrow> state_inv (armWatchdog b now s) l"
  using gen_fresh [of s l] le_Suc_gen [of s l]
  by (cases "ss_watchdog s") (auto simp: state_inv_def armWatchdog_def Let_def)

lemma state_inv_Disarm: "state_inv s l \<Longrightarrow> state_inv (disarmWatchdog s) l"
  using gen_fresh [of s l] le_Suc_gen [of s l]
  by (cases "ss_watchdog s") (auto simp: state_inv_def disarmWatchdog_def)

lemma state_inv_StreamUp: "state_inv s l \<Longrightarrow> state_inv (snd (markStreamUp s)) l"
  using gen_fresh [of s l] le_Suc_gen [of s l]
  by (cases "ss_watchdog s") (auto simp: state_inv_def markStreamUp_def Let_def)

lemma state_inv_Callback:
  "state_inv s l \<Longrightarrow> g \<in> set l \<Longrightarrow> state_inv (watchdogFired g now s) (remove1 g l)"
  by (cases "ss_watchdog s") (auto simp: state_inv_def watchdogFired_def dest: notin_set_remove1)

lemma state_inv_TimerFires:
  "state_inv s l \<Longrightarrow> ss_watchdog s = Some t \<Longrightarrow> tm_pending t \<Longrightarrow>
   state_inv (s\<lparr>ss_watchdog := Some (t\<lparr>tm_pending := False\<rparr>)\<rparr>) (tm_gen t # l)"
  by (auto simp: state_inv_def)

lemma stream_inv_step: "stream_step y e y' \<Longrightarrow> stream_inv y \<Longrightarrow> stream_inv y'"
  by (induction rule: stream_step.induct)
    (auto simp: stream_inv_def state_inv_ops state_inv_Arm state_inv_Disarm state_inv_StreamUp
      state_inv_Callback state_inv_TimerFires)

text \<open>The durations are never written after the start.\<close>

lemma stream_step_const: "stream_step y e y' \<Longrightarrow>
  ss_fallbackTimeout (sy_st y') = ss_fallbackTimeout (sy_st y) \<and>
  ss_recoveryCooldown (sy_st y') = ss_recoveryCooldown (sy_st y) \<and> sy_now y \<le> sy_now y'"
  by (cases e) (auto simp: stream_ops Let_def split: option.splits)

section \<open>Why a fallback is latched\<close>

text \<open>
  \<open>awaiting\<close>: some effective activation (in entertainment mode, no stream up, not in fallback)
  happened, neither a stream-up nor a deactivation since, and \<open>t\<close> is past its timeout.
  \<open>latched\<close>: a callback ran while that was the case, and no stream came up since.
\<close>

definition awaiting :: "stream_sys \<Rightarrow> stream_event list \<Rightarrow> int \<Rightarrow> bool" where
  "awaiting y0 es t \<longleftrightarrow> (\<exists>es1 es2 y1. es = es1 @ Arm True # es2 \<and> run stream_step y0 es1 y1
     \<and> \<not> ss_streamUp (sy_st y1) \<and> \<not> ss_fallback (sy_st y1)
     \<and> StreamUp \<notin> set es2 \<and> Disarm \<notin> set es2
     \<and> sy_now y1 + ss_fallbackTimeout (sy_st y1) \<le> t)"

definition latched :: "stream_sys \<Rightarrow> stream_event list \<Rightarrow> int \<Rightarrow> bool" where
  "latched y0 es t \<longleftrightarrow> (\<exists>es1 g es2. es = es1 @ Callback g # es2 \<and> awaiting y0 es1 t \<and> StreamUp \<notin> set es2)"

lemma awaiting_snoc: "awaiting y0 es t \<Longrightarrow> e \<noteq> StreamUp \<Longrightarrow> e \<noteq> Disarm \<Longrightarrow> awaiting y0 (es @ [e]) t"
  unfolding awaiting_def by fastforce

lemma awaiting_mono: "awaiting y0 es t \<Longrightarrow> t \<le> u \<Longrightarrow> awaiting y0 es u"
  unfolding awaiting_def
  by (elim exE conjE) (intro exI conjI, assumption+, erule order_trans, assumption)

lemma awaiting_Arm:
  "run stream_step y0 es y \<Longrightarrow> \<not> ss_streamUp (sy_st y) \<Longrightarrow> \<not> ss_fallback (sy_st y) \<Longrightarrow>
   awaiting y0 (es @ [Arm True]) (sy_now y + ss_fallbackTimeout (sy_st y))"
  unfolding awaiting_def by fastforce

lemma latched_snoc: "latched y0 es t \<Longrightarrow> e \<noteq> StreamUp \<Longrightarrow> latched y0 (es @ [e]) t"
  unfolding latched_def by fastforce

lemma latched_Callback: "awaiting y0 es t \<Longrightarrow> latched y0 (es @ [Callback g]) t"
  unfolding latched_def by fastforce

definition state_hist :: "stream_sys \<Rightarrow> stream_event list \<Rightarrow> streamState \<Rightarrow> nat list \<Rightarrow> int \<Rightarrow> bool" where
  "state_hist y0 es s l now \<longleftrightarrow>
     (case ss_watchdog s of None \<Rightarrow> True | Some t \<Rightarrow> tm_pending t \<longrightarrow> awaiting y0 es (tm_deadline t))
   \<and> (ss_gen s \<in> set l \<longrightarrow> awaiting y0 es now)
   \<and> (ss_fallback s \<longrightarrow> (case ss_fallbackAt s of None \<Rightarrow> True | Some t \<Rightarrow> latched y0 es t))"

definition stream_hist :: "stream_sys \<Rightarrow> stream_event list \<Rightarrow> stream_sys \<Rightarrow> bool" where
  "stream_hist y0 es y \<longleftrightarrow> state_hist y0 es (sy_st y) (sy_inflight y) (sy_now y)"

lemma stream_hist_init: "stream_init y \<Longrightarrow> stream_hist y [] y"
  by (auto simp: stream_init_def stream_hist_def state_hist_def)

text \<open>An event that neither arms nor supersedes a watchdog extends the history.\<close>

lemma state_hist_snoc:
  "state_hist y0 es s l now \<Longrightarrow> now \<le> now' \<Longrightarrow> e \<noteq> StreamUp \<Longrightarrow> e \<noteq> Disarm \<Longrightarrow>
   state_hist y0 (es @ [e]) s l now'"
  by (auto simp: state_hist_def intro: awaiting_snoc latched_snoc awaiting_mono split: option.splits)

lemma state_hist_ops:
  assumes "state_hist y0 es s l now"
  shows "state_hist y0 es (snd (tryRecoverFallback now' s)) l now"
    "state_hist y0 es (snd (noteRESTDriving s)) l now"
    "state_hist y0 es (setActive a u s) l now" "state_hist y0 es (snd (markStreamDown s)) l now"
  using assms by (auto simp: state_hist_def stream_ops split: option.splits)

lemma state_hist_Arm:
  assumes "state_inv s l" "state_hist y0 es s l now" "run stream_step y0 es y" "s = sy_st y" "now = sy_now y"
  shows "state_hist y0 (es @ [Arm b]) (armWatchdog b now s) l now"
proof (cases "\<not> b \<or> ss_fallback s \<or> ss_streamUp s")
  case True
  then have "armWatchdog b now s = s" by (auto simp: armWatchdog_def)
  then show ?thesis using assms(2) by (auto intro: state_hist_snoc)
next
  case False
  then have "awaiting y0 (es @ [Arm True]) (now + ss_fallbackTimeout s)"
    using assms(3) unfolding assms(4,5) by (intro awaiting_Arm) auto
  then show ?thesis using False gen_fresh [OF assms(1)]
    by (auto simp: state_hist_def armWatchdog_def Let_def)
qed

lemma state_hist_Disarm:
  "state_inv s l \<Longrightarrow> state_hist y0 es s l now \<Longrightarrow> state_hist y0 (es @ [Disarm]) (disarmWatchdog s) l now"
  using gen_fresh [of s l] by (cases "ss_watchdog s")
    (auto simp: state_hist_def disarmWatchdog_def intro: latched_snoc split: option.splits)

lemma state_hist_StreamUp:
  "state_inv s l \<Longrightarrow> state_hist y0 (es @ [StreamUp]) (snd (markStreamUp s)) l now"
  using gen_fresh [of s l] by (cases "ss_watchdog s") (auto simp: state_hist_def markStreamUp_def Let_def)

lemma state_hist_TimerFires:
  "state_inv s l \<Longrightarrow> state_hist y0 es s l now \<Longrightarrow> ss_watchdog s = Some t \<Longrightarrow> tm_pending t \<Longrightarrow>
   tm_deadline t \<le> now \<Longrightarrow>
   state_hist y0 es (s\<lparr>ss_watchdog := Some (t\<lparr>tm_pending := False\<rparr>)\<rparr>) (tm_gen t # l) now"
  by (auto simp: state_hist_def state_inv_def intro: awaiting_mono)

lemma state_hist_Callback:
  assumes "state_inv s l" "state_hist y0 es s l now" "g \<in> set l"
  shows "state_hist y0 (es @ [Callback g]) (watchdogFired g now s) (remove1 g l) now"
proof (cases "ss_streamUp s \<or> g \<noteq> ss_gen s")
  case True
  then show ?thesis using assms(2)
    by (auto simp: state_hist_def watchdogFired_def intro: awaiting_snoc latched_snoc
        dest: notin_set_remove1 split: option.splits)
next
  case False
  then have "latched y0 (es @ [Callback g]) now"
    using assms by (auto simp: state_hist_def intro: latched_Callback)
  with False assms show ?thesis
    by (auto simp: state_hist_def state_inv_def watchdogFired_def intro: awaiting_snoc split: option.splits)
qed

lemma stream_hist_step:
  assumes run: "run stream_step y0 es y" and inv: "stream_inv y" and h: "stream_hist y0 es y"
    and step: "stream_step y e y'"
  shows "stream_hist y0 (es @ [e]) y'"
  using step
proof (cases rule: stream_step.cases)
  case (Arm b)
  then show ?thesis using run inv h by (auto simp: stream_hist_def stream_inv_def intro: state_hist_Arm)
next
  case Disarm
  then show ?thesis using inv h by (auto simp: stream_hist_def stream_inv_def intro: state_hist_Disarm)
next
  case StreamUp
  then show ?thesis using inv by (auto simp: stream_hist_def stream_inv_def intro: state_hist_StreamUp)
next
  case (Callback g)
  then show ?thesis using inv h by (auto simp: stream_hist_def stream_inv_def intro: state_hist_Callback)
next
  case (TimerFires t)
  then show ?thesis using inv h
    by (auto simp: stream_hist_def stream_inv_def intro: state_hist_snoc [OF state_hist_TimerFires])
qed (use h in \<open>auto simp: stream_hist_def intro: state_hist_snoc state_hist_snoc [OF state_hist_ops(1)]
    state_hist_snoc [OF state_hist_ops(2)] state_hist_snoc [OF state_hist_ops(3)]
    state_hist_snoc [OF state_hist_ops(4)]\<close>)

interpretation stream: history_system stream_init stream_step stream_inv stream_hist
  by unfold_locales (auto intro: stream_inv_init stream_inv_step stream_hist_init stream_hist_step)


section \<open>Properties\<close>

text \<open>
  C5: relume-tv falls back to REST only when the TV earned it.  Whenever the fallback is latched, in
  any interleaving of handlers, receiver and timer callbacks, there was an activation confirmed in
  entertainment mode with no stream up, then neither a stream-up nor a deactivation for at least
  the fallback timeout, then a watchdog callback, and no stream-up since: a stopped or superseded
  watchdog, even one already firing, never latches it.
\<close>

theorem fallback_justified:
  assumes "stream_init y0" "run stream_step y0 es y" "ss_fallback (sy_st y)"
  shows "\<exists>es1 es2 g es3 y1 t. es = es1 @ Arm True # es2 @ Callback g # es3
    \<and> run stream_step y0 es1 y1 \<and> \<not> ss_streamUp (sy_st y1) \<and> \<not> ss_fallback (sy_st y1)
    \<and> StreamUp \<notin> set (es2 @ es3) \<and> Disarm \<notin> set es2
    \<and> ss_fallbackAt (sy_st y) = Some t \<and> sy_now y1 + ss_fallbackTimeout (sy_st y1) \<le> t"
proof -
  have "stream_hist y0 es y" "stream_inv y"
    using stream.reachable_hist stream.reachable_inv assms by blast+
  with assms(3) obtain t where t: "ss_fallbackAt (sy_st y) = Some t" "latched y0 es t"
    by (auto simp: stream_hist_def state_hist_def stream_inv_def state_inv_def)
  then show ?thesis unfolding latched_def awaiting_def by fastforce
qed

text \<open>A run that latches the fallback: activation, timeout, callback.\<close>

definition demo_init :: stream_sys where
  "demo_init = \<lparr>sy_st = configuredStream (5 * second) (90 * second), sy_inflight = [], sy_now = 0\<rparr>"

abbreviation demo_events :: "stream_event list" where
  "demo_events \<equiv> [Arm True, Tick (5 * second), TimerFires, Callback 1]"

definition demo_latched :: stream_sys where
  "demo_latched = the (exec stream_next demo_init demo_events)"

lemma demo_run: "run stream_step demo_init demo_events demo_latched"
proof -
  have "exec stream_next demo_init demo_events = Some demo_latched" by code_simp
  then show ?thesis by (rule exec_run) (rule stream_next_step)
qed

lemma demo_latched_fallback:
  "ss_fallback (sy_st demo_latched)" "ss_fallbackAt (sy_st demo_latched) = Some (5 * second)"
  by code_simp+

lemma demo_init_init: "stream_init demo_init"
  by (auto simp: stream_init_def demo_init_def)

lemma fallback_justified_witness:
  "\<exists>es1 es2 g es3 y1 t. demo_events = es1 @ Arm True # es2 @ Callback g # es3
    \<and> run stream_step demo_init es1 y1 \<and> \<not> ss_streamUp (sy_st y1) \<and> \<not> ss_fallback (sy_st y1)
    \<and> StreamUp \<notin> set (es2 @ es3) \<and> Disarm \<notin> set es2
    \<and> ss_fallbackAt (sy_st demo_latched) = Some t \<and> sy_now y1 + ss_fallbackTimeout (sy_st y1) \<le> t"
  by (rule fallback_justified [OF demo_init_init demo_run demo_latched_fallback(1)])

text \<open>While the stream is up nothing latches the fallback.\<close>

lemma up_kept: "stream_step y e y' \<Longrightarrow> ss_streamUp (sy_st y) \<Longrightarrow> e \<noteq> StreamDown \<Longrightarrow> ss_streamUp (sy_st y')"
  by (erule stream_step.cases)
    (simp_all add: stream_ops Let_def split: option.splits)

lemma up_kept_run:
  "run stream_step y es y' \<Longrightarrow> ss_streamUp (sy_st y) \<Longrightarrow> StreamDown \<notin> set es \<Longrightarrow> ss_streamUp (sy_st y')"
  by (induction rule: run.induct) (auto dest: up_kept)

text \<open>
  C10: the stream coming up wins over any racing watchdog.  From the moment \<open>markStreamUp\<close> has run,
  and until the stream goes down again, the TV is not in fallback, whatever timers and callbacks
  were pending or in flight and whatever the handlers do.
\<close>

theorem stream_up_wins:
  assumes "stream_init y0" "run stream_step y0 (es @ StreamUp # fs) y" "StreamDown \<notin> set fs"
  shows "ss_streamUp (sy_st y) \<and> \<not> ss_fallback (sy_st y)"
proof -
  have "\<exists>y2. ss_streamUp (sy_st y2) \<and> run stream_step y2 fs y"
    using assms(2)
  proof (induction es arbitrary: y0)
    case Nil
    then have "run stream_step y0 (StreamUp # fs) y" by simp
    then obtain y1 where "stream_step y0 StreamUp y1" "run stream_step y1 fs y"
      by (rule run_Cons_cases)
    then show ?case by (intro exI [of _ y1]) (auto simp: markStreamUp_def Let_def split: option.splits)
  next
    case (Cons e es)
    then have "run stream_step y0 (e # es @ StreamUp # fs) y" by simp
    then obtain y1 where "run stream_step y1 (es @ StreamUp # fs) y" by (rule run_Cons_cases)
    then show ?case by (rule Cons.IH)
  qed
  then have "ss_streamUp (sy_st y)" using up_kept_run assms(3) by blast
  moreover have "stream_inv y" using stream.reachable_inv assms(1,2) by blast
  ultimately show ?thesis by (auto simp: stream_inv_def state_inv_def)
qed

definition demo_up :: stream_sys where
  "demo_up = demo_latched\<lparr>sy_st := snd (markStreamUp (sy_st demo_latched))\<rparr>"

lemma demo_up_run: "run stream_step demo_init (demo_events @ StreamUp # []) demo_up"
  unfolding demo_up_def by (rule run_snoc [OF demo_run stream_step.StreamUp])

lemma stream_up_wins_witness: "ss_streamUp (sy_st demo_up) \<and> \<not> ss_fallback (sy_st demo_up)"
  by (rule stream_up_wins [OF demo_init_init demo_up_run]) simp

text \<open>Recovery of a latched fallback, exactly.\<close>

lemma tryRecoverFallback_iff:
  "fst (tryRecoverFallback now s) \<longleftrightarrow>
     ss_fallback s \<and> 0 < ss_recoveryCooldown s \<and> ss_recoveryCooldown s \<le> time_Sub now (ss_fallbackAt s)"
  by (auto simp: tryRecoverFallback_def)

text \<open>
  From a state in fallback since \<open>t0\<close>, until the next stream-up: the same fallback is still latched,
  or it was recovered after the cooldown and every watchdog since was armed after that.
\<close>

definition flap_inv :: "int \<Rightarrow> duration \<Rightarrow> duration \<Rightarrow> streamState \<Rightarrow> nat list \<Rightarrow> int \<Rightarrow> bool" where
  "flap_inv t0 c T s l now \<longleftrightarrow> ss_fallbackTimeout s = T \<and> ss_recoveryCooldown s = c \<and>
     ((ss_fallback s \<and> ss_fallbackAt s = Some t0)
    \<or> (0 < c \<and> t0 + c \<le> now
       \<and> (case ss_watchdog s of None \<Rightarrow> True | Some t \<Rightarrow> tm_pending t \<longrightarrow> t0 + c + T \<le> tm_deadline t)
       \<and> (ss_gen s \<in> set l \<longrightarrow> t0 + c + T \<le> now)
       \<and> (\<exists>t. ss_fallbackAt s = Some t \<and> (ss_fallback s \<longrightarrow> t0 + c + T \<le> t))))"

lemma flap_inv_time: "flap_inv t0 c T s l now \<Longrightarrow> now \<le> now' \<Longrightarrow> flap_inv t0 c T s l now'"
  by (auto simp: flap_inv_def)

lemma flap_inv_ops:
  assumes "flap_inv t0 c T s l now"
  shows "flap_inv t0 c T (snd (noteRESTDriving s)) l now" "flap_inv t0 c T (setActive a u s) l now"
    "flap_inv t0 c T (snd (markStreamDown s)) l now"
  using assms by (auto simp: flap_inv_def stream_ops split: option.splits)

lemma flap_inv_TryRecover:
  "flap_inv t0 c T s l now \<Longrightarrow> state_inv s l \<Longrightarrow> flap_inv t0 c T (snd (tryRecoverFallback now s)) l now"
  by (cases "ss_watchdog s") (auto simp: flap_inv_def state_inv_def tryRecoverFallback_def time_Sub_def)

lemma flap_inv_Arm:
  "flap_inv t0 c T s l now \<Longrightarrow> state_inv s l \<Longrightarrow> flap_inv t0 c T (armWatchdog b now s) l now"
  using gen_fresh [of s l] by (auto simp: flap_inv_def armWatchdog_def Let_def)

lemma flap_inv_Disarm:
  "flap_inv t0 c T s l now \<Longrightarrow> state_inv s l \<Longrightarrow> flap_inv t0 c T (disarmWatchdog s) l now"
  using gen_fresh [of s l] by (cases "ss_watchdog s") (auto simp: flap_inv_def disarmWatchdog_def)

lemma flap_inv_TimerFires:
  "flap_inv t0 c T s l now \<Longrightarrow> state_inv s l \<Longrightarrow> ss_watchdog s = Some t \<Longrightarrow> tm_pending t \<Longrightarrow>
   tm_deadline t \<le> now \<Longrightarrow>
   flap_inv t0 c T (s\<lparr>ss_watchdog := Some (t\<lparr>tm_pending := False\<rparr>)\<rparr>) (tm_gen t # l) now"
  by (auto simp: flap_inv_def state_inv_def)

lemma flap_inv_Callback:
  "flap_inv t0 c T s l now \<Longrightarrow> state_inv s l \<Longrightarrow> g \<in> set l \<Longrightarrow>
   flap_inv t0 c T (watchdogFired g now s) (remove1 g l) now"
  by (cases "ss_watchdog s")
    (auto simp: flap_inv_def state_inv_def watchdogFired_def dest: notin_set_remove1)

lemma flap_inv_step:
  assumes "stream_step y e y'" "flap_inv t0 c T (sy_st y) (sy_inflight y) (sy_now y)"
    "stream_inv y" "e \<noteq> StreamUp"
  shows "flap_inv t0 c T (sy_st y') (sy_inflight y') (sy_now y')"
  using assms
  by (cases rule: stream_step.cases)
    (auto simp: stream_inv_def intro: flap_inv_time flap_inv_ops flap_inv_TryRecover flap_inv_Arm
      flap_inv_Disarm flap_inv_TimerFires flap_inv_Callback)

lemma flap_inv_run:
  "run stream_step y es y' \<Longrightarrow> flap_inv t0 c T (sy_st y) (sy_inflight y) (sy_now y) \<Longrightarrow>
   stream_inv y \<Longrightarrow> StreamUp \<notin> set es \<Longrightarrow> flap_inv t0 c T (sy_st y') (sy_inflight y') (sy_now y')"
proof (induction rule: run.induct)
  case (run_snoc y es y' e y'')
  then show ?case using flap_inv_step [of y' e y''] stream.run_inv by auto
qed simp

text \<open>
  C36: the flapping between the two paths is bounded.  If the fallback latched at \<open>t0\<close> is recovered
  and latched again at another time \<open>t1\<close>, with no stream-up in between, then recovery is enabled and
  at least the cooldown plus a full watchdog timeout lie between \<open>t0\<close> and \<open>t1\<close>: at most one short
  attempt per cooldown.
\<close>

theorem fallback_flap_bound:
  assumes "stream_init y0" "run stream_step y0 es y" "ss_fallback (sy_st y)" "ss_fallbackAt (sy_st y) = Some t0"
    and "run stream_step y fs y'" "StreamUp \<notin> set fs" "ss_fallback (sy_st y')" "ss_fallbackAt (sy_st y') = Some t1"
    and "t1 \<noteq> t0"
  shows "0 < ss_recoveryCooldown (sy_st y)
    \<and> t0 + ss_recoveryCooldown (sy_st y) + ss_fallbackTimeout (sy_st y) \<le> t1"
proof -
  have inv: "stream_inv y" using stream.reachable_inv assms(1,2) by blast
  have "flap_inv t0 (ss_recoveryCooldown (sy_st y)) (ss_fallbackTimeout (sy_st y)) (sy_st y) (sy_inflight y) (sy_now y)"
    using assms(3,4) by (simp add: flap_inv_def)
  from flap_inv_run [OF assms(5) this inv assms(6)] show ?thesis
    using assms(7-9) by (auto simp: flap_inv_def)
qed

text \<open>The second attempt: 90 s of cooldown, a recovering activation, 5 s without a stream.\<close>

abbreviation demo_retry :: "stream_event list" where
  "demo_retry \<equiv> [Tick (90 * second), TryRecover, Arm True, Tick (5 * second), TimerFires, Callback 2]"

definition demo_again :: stream_sys where
  "demo_again = the (exec stream_next demo_latched demo_retry)"

lemma demo_again_run: "run stream_step demo_latched demo_retry demo_again"
proof -
  have "exec stream_next demo_latched demo_retry = Some demo_again" by code_simp
  then show ?thesis by (rule exec_run) (rule stream_next_step)
qed

lemma demo_again_fallback:
  "ss_fallback (sy_st demo_again)" "ss_fallbackAt (sy_st demo_again) = Some (100 * second)"
  by code_simp+

lemma fallback_flap_bound_witness:
  "0 < ss_recoveryCooldown (sy_st demo_latched)
    \<and> 5 * second + ss_recoveryCooldown (sy_st demo_latched) + ss_fallbackTimeout (sy_st demo_latched) \<le> 100 * second"
  by (rule fallback_flap_bound [OF demo_init_init demo_run demo_latched_fallback demo_again_run _ demo_again_fallback])
    (simp_all add: second_def)

text \<open>
  Confirming an activation is a check (\<open>inFallback\<close>) and then two separate critical sections
  (\<open>setActive\<close>, \<open>armWatchdog\<close>).  A watchdog that fires in between leaves the group marked active
  while the fallback is latched and no watchdog is armed; \<open>GET /groups/1\<close> still reports the stream
  inactive, because it asks \<open>inFallback\<close> first.
\<close>

lemma activation_race:
  "\<exists>es y. run stream_step demo_init es y \<and> ss_fallback (sy_st y) \<and> ss_active (sy_st y)
     \<and> \<not> timer_pending y"
proof (intro exI conjI)
  let ?es = "demo_events @ [SetActive True ''tv'', Arm True]"
  let ?y = "the (exec stream_next demo_init ?es)"
  have "exec stream_next demo_init ?es = Some ?y" by code_simp
  then show "run stream_step demo_init ?es ?y" by (rule exec_run) (rule stream_next_step)
  show "ss_fallback (sy_st ?y)" "ss_active (sy_st ?y)" "\<not> timer_pending ?y" by code_simp+
qed

text \<open>The REST-driving notice is given once per episode: nothing but a transition re-arms it.\<close>

lemma noteRESTDriving_once:
  assumes "fst (noteRESTDriving s)"
  shows "\<not> fst (noteRESTDriving (snd (noteRESTDriving s)))"
    and "\<not> fst (noteRESTDriving (snd (tryRecoverFallback now (snd (noteRESTDriving s)))))"
    and "\<not> fst (noteRESTDriving (armWatchdog b now (snd (noteRESTDriving s))))"
    and "\<not> fst (noteRESTDriving (disarmWatchdog (snd (noteRESTDriving s))))"
  using assms by (auto simp: stream_ops Let_def split: if_splits option.splits)

end
