(* ===== verification/Provider.thy ===== *)
theory Provider
  imports Translate Systems "HOL-Library.Multiset"
begin

text \<open>
  The light provider between the CLIP v1 server and the Hue Bridge Pro (\<open>internal/bridge\<close>): the
  cached light list and id maps, the optimistic write path with its coalescing queue and drain
  goroutine, the shutdown fence, and the sliding window of the lights the TV drives.

  \<open>mu\<close> guards the cache, \<open>ctrlMu\<close> the queue; a critical section is one step.  The Pro's answers are
  arguments of the steps that receive them.  \<open>pv_draining\<close> says that a drain goroutine exists
  (\<open>drained \<noteq> nil\<close>).  The counters are natural numbers.
\<close>

section \<open>State\<close>

definition lightCacheTTL :: duration where
  "lightCacheTTL = 5 * second"

definition errLogInterval :: duration where
  "errLogInterval = 30 * second"

record Provider =
  pv_cached :: "(string, gval) gomap option"
  pv_v1ToUUID :: "(string, string) gomap"
  pv_uuidToV1 :: "(string, string) gomap"
  pv_fetchedAt :: gotime
  pv_refresh :: bool
  pv_lastErr :: "pro_error option"
  pv_lastStaleLog :: gotime
  pv_pending :: "(string, obj) gomap"
  pv_draining :: bool
  pv_closed :: bool
  pv_errCount :: nat
  pv_lastErrLog :: gotime
  pv_coalesced :: nat
  pv_forwardErr :: nat

definition NewLightProvider :: Provider where
  "NewLightProvider = \<lparr>pv_cached = None, pv_v1ToUUID = [], pv_uuidToV1 = [], pv_fetchedAt = None,
     pv_refresh = False, pv_lastErr = None, pv_lastStaleLog = None, pv_pending = [], pv_draining = False,
     pv_closed = False, pv_errCount = 0, pv_lastErrLog = None, pv_coalesced = 0, pv_forwardErr = 0\<rparr>"

text \<open>\<open>time.Since\<close> of a time that may be zero, compared with a bound.\<close>

definition since_at_least :: "int \<Rightarrow> gotime \<Rightarrow> duration \<Rightarrow> bool" where
  "since_at_least now t d \<longleftrightarrow> (case t of None \<Rightarrow> True | Some u \<Rightarrow> d \<le> now - u)"

definition DrainStatsDelta :: "Provider \<Rightarrow> (nat \<times> nat) \<times> Provider" where
  "DrainStatsDelta p = ((pv_coalesced p, pv_forwardErr p), p\<lparr>pv_coalesced := 0, pv_forwardErr := 0\<rparr>)"

section \<open>The light list\<close>

text \<open>
  \<open>LightsV1\<close> up to the point where it returns or waits: serve the cache (starting a background
  refresh past the TTL), wait for the first fetch in flight, or fetch itself.
\<close>

datatype lights_action = Serve "(string, gval) gomap" bool | WaitFetch | FetchNow

definition lights_begin :: "int \<Rightarrow> Provider \<Rightarrow> lights_action \<times> Provider" where
  "lights_begin now p =
     (case pv_cached p of
        Some c \<Rightarrow>
          if since_at_least now (pv_fetchedAt p) lightCacheTTL \<and> \<not> pv_refresh p
          then (Serve c True, p\<lparr>pv_refresh := True\<rparr>) else (Serve c False, p)
      | None \<Rightarrow> if pv_refresh p then (WaitFetch, p) else (FetchNow, p\<lparr>pv_refresh := True\<rparr>))"

text \<open>What the waiting and the fetching caller return afterwards.\<close>

definition lights_end :: "Provider \<Rightarrow> pro_error option + (string, gval) gomap" where
  "lights_end p = (case pv_cached p of Some c \<Rightarrow> Inr c | None \<Rightarrow> Inl (pv_lastErr p))"

definition CachedLightsV1 :: "Provider \<Rightarrow> (string, gval) gomap option" where
  "CachedLightsV1 p = pv_cached p"

definition invert :: "(string, string) gomap \<Rightarrow> (string, string) gomap" where
  "invert m = foldl (\<lambda>r (v1, uuid). mput uuid v1 r) [] m"

text \<open>\<open>fetch\<close>, when the Pro has answered; the result says whether the stale list is logged.\<close>

definition publish :: "pro_error + Light list \<Rightarrow> int \<Rightarrow> Provider \<Rightarrow> bool \<times> Provider" where
  "publish r now p =
     (case r of
        Inl e \<Rightarrow>
          let p1 = p\<lparr>pv_refresh := False, pv_lastErr := Some e\<rparr> in
          if pv_cached p1 \<noteq> None
          then let p2 = p1\<lparr>pv_fetchedAt := Some now\<rparr> in
            if since_at_least now (pv_lastStaleLog p2) errLogInterval
            then (True, p2\<lparr>pv_lastStaleLog := Some now\<rparr>) else (False, p2)
          else (False, p1)
      | Inr lights \<Rightarrow>
          let lm = LightsV1 lights in
          (False, p\<lparr>pv_refresh := False, pv_lastErr := None, pv_cached := Some (lm_V1 lm),
             pv_v1ToUUID := lm_V1ToUUID lm, pv_uuidToV1 := invert (lm_V1ToUUID lm), pv_fetchedAt := Some now\<rparr>))"

text \<open>A call that nothing interferes with: the Pro's answer is the argument.\<close>

definition provider_LightsV1 ::
  "pro_error + Light list \<Rightarrow> int \<Rightarrow> Provider \<Rightarrow> (pro_error option + (string, gval) gomap) \<times> Provider" where
  "provider_LightsV1 answer now p =
     (case lights_begin now p of
        (Serve c started, p1) \<Rightarrow> (Inr c, if started then snd (publish answer now p1) else p1)
      | (WaitFetch, p1) \<Rightarrow> (let p2 = snd (publish answer now p1) in (lights_end p2, p2))
      | (FetchNow, p1) \<Rightarrow> (let p2 = snd (publish answer now p1) in (lights_end p2, p2)))"

definition UUIDForV1 :: "Provider \<Rightarrow> string \<Rightarrow> string option" where
  "UUIDForV1 p v1id = mget (pv_v1ToUUID p) v1id"

definition V1ForUUID :: "Provider \<Rightarrow> string \<Rightarrow> string option" where
  "V1ForUUID p uuid = mget (pv_uuidToV1 p) uuid"

section \<open>The write path\<close>

text \<open>\<open>SetLightV1\<close>: the result says whether a queued frame was coalesced away.\<close>

definition SetLightV1 :: "string \<Rightarrow> obj \<Rightarrow> Provider \<Rightarrow> bool \<times> Provider" where
  "SetLightV1 v1id v1state p =
     (if pv_closed p then (False, p)
      else let coalesced = (mget (pv_pending p) v1id \<noteq> None);
               p1 = (if coalesced then p\<lparr>pv_coalesced := pv_coalesced p + 1\<rparr> else p);
               p2 = p1\<lparr>pv_pending := mput v1id v1state (pv_pending p1)\<rparr>
           in (coalesced, p2\<lparr>pv_draining := True\<rparr>))"

text \<open>The top of the drain loop: take everything queued, or exit.\<close>

definition drain_take :: "Provider \<Rightarrow> (string, obj) gomap option \<times> Provider" where
  "drain_take p =
     (if pv_pending p = [] then (None, p\<lparr>pv_draining := False\<rparr>)
      else (Some (pv_pending p), p\<lparr>pv_pending := []\<rparr>))"

text \<open>\<open>Close\<close> up to its wait; the result says whether a drain has to be waited for.\<close>

definition provider_Close :: "Provider \<Rightarrow> bool \<times> Provider" where
  "provider_Close p = (pv_draining p, p\<lparr>pv_closed := True, pv_pending := []\<rparr>)"

text \<open>\<open>recordForwardErr\<close>: the result is the summarised count when one is logged.\<close>

definition recordForwardErr :: "int \<Rightarrow> Provider \<Rightarrow> nat option \<times> Provider" where
  "recordForwardErr now p =
     (let p1 = p\<lparr>pv_forwardErr := pv_forwardErr p + 1, pv_errCount := pv_errCount p + 1\<rparr> in
      if since_at_least now (pv_lastErrLog p1) errLogInterval
      then (Some (pv_errCount p1), p1\<lparr>pv_errCount := 0, pv_lastErrLog := Some now\<rparr>)
      else (None, p1))"

text \<open>
  \<open>forward\<close> up to its next blocking call: finish, load the lights first, or write to the Pro.  The
  last check before the write is the fence.
\<close>

datatype forward_action = FwdDone | FwdUnknown | FwdLoad | FwdWrite string obj

definition forward_fence :: "string \<Rightarrow> obj \<Rightarrow> Provider \<Rightarrow> forward_action" where
  "forward_fence uuid v2 p = (if pv_closed p then FwdDone else FwdWrite uuid v2)"

definition forward_begin :: "string \<Rightarrow> obj \<Rightarrow> Provider \<Rightarrow> forward_action" where
  "forward_begin v1id v1state p =
     (let v2 = StateV1ToV2 v1state in
      if v2 = [] then FwdDone
      else case UUIDForV1 p v1id of
        Some uuid \<Rightarrow> forward_fence uuid v2 p
      | None \<Rightarrow> if pv_closed p then FwdDone else FwdLoad)"

text \<open>After the lights were loaded: the second lookup.\<close>

definition forward_loaded :: "string \<Rightarrow> obj \<Rightarrow> Provider \<Rightarrow> forward_action" where
  "forward_loaded v1id v1state p =
     (case UUIDForV1 p v1id of
        Some uuid \<Rightarrow> forward_fence uuid (StateV1ToV2 v1state) p
      | None \<Rightarrow> FwdUnknown)"

section \<open>The drain goroutine and its callers\<close>

text \<open>
  The phases of the drain goroutine: none running, at the top of its loop, forwarding a batch (the
  head is the light being forwarded), loading lights for the head, or writing the head.
\<close>

datatype drain_phase =
    NoDrain
  | DrainTop
  | DrainBatch "(string, obj) gomap"
  | DrainLoad "(string, obj) gomap"
  | DrainWrite string obj "(string, obj) gomap"

record prov_sys =
  py_p :: Provider
  py_phase :: drain_phase
  py_wanted :: "(string, obj) gomap"
  py_attempted :: "(string, obj) gomap"
  py_writes :: "(string \<times> obj) list"
  py_controlled :: "string list"

text \<open>
  \<open>py_wanted\<close> is the last state accepted for each light, \<open>py_attempted\<close> the last one the drain has
  dealt with, \<open>py_writes\<close> the writes that went out to the Pro, all ghost state; \<open>py_controlled\<close> the
  calls of \<open>OnControlled\<close>.  \<open>EvTake\<close> names the order in which the loop visits the map it took.
\<close>

datatype prov_event =
    EvSetLight string obj
  | EvTake "(string, obj) gomap"
  | EvForward int
  | EvLoaded bool int
  | EvWritten bool int
  | EvPublish "pro_error + Light list" int
  | EvLights int
  | EvDrainStats
  | EvClose

definition finish_head :: "prov_sys \<Rightarrow> (string, obj) gomap \<Rightarrow> prov_sys" where
  "finish_head y b = (case b of [] \<Rightarrow> y\<lparr>py_phase := DrainTop\<rparr>
     | (v, st) # rest \<Rightarrow> y\<lparr>py_phase := (if rest = [] then DrainTop else DrainBatch rest),
         py_attempted := mput v st (py_attempted y)\<rparr>)"

text \<open>Carrying out what \<open>forward\<close> decided for the head of the batch.\<close>

definition act :: "forward_action \<Rightarrow> int \<Rightarrow> (string, obj) gomap \<Rightarrow> prov_sys \<Rightarrow> prov_sys" where
  "act a now b y =
     (case a of
        FwdDone \<Rightarrow> finish_head y b
      | FwdUnknown \<Rightarrow> finish_head (y\<lparr>py_p := snd (recordForwardErr now (py_p y))\<rparr>) b
      | FwdLoad \<Rightarrow> y\<lparr>py_phase := DrainLoad b\<rparr>
      | FwdWrite uuid v2 \<Rightarrow> y\<lparr>py_phase := DrainWrite uuid v2 b, py_writes := py_writes y @ [(uuid, v2)]\<rparr>)"

fun prov_next :: "prov_sys \<Rightarrow> prov_event \<Rightarrow> prov_sys option" where
  "prov_next y (EvSetLight v st) =
     (let p = snd (SetLightV1 v st (py_p y)) in
      Some (y\<lparr>py_p := p,
        py_phase := (if pv_draining p \<and> py_phase y = NoDrain then DrainTop else py_phase y),
        py_wanted := (if pv_closed (py_p y) then py_wanted y else mput v st (py_wanted y))\<rparr>))"
| "prov_next y (EvTake order) =
     (if py_phase y = DrainTop
      then (case drain_take (py_p y) of
              (None, p) \<Rightarrow> Some (y\<lparr>py_p := p, py_phase := NoDrain\<rparr>)
            | (Some b, p) \<Rightarrow>
                if mset order = mset b then Some (y\<lparr>py_p := p, py_phase := DrainBatch order\<rparr>) else None)
      else None)"
| "prov_next y (EvForward now) =
     (case py_phase y of
        DrainBatch ((v, st) # rest) \<Rightarrow> Some (act (forward_begin v st (py_p y)) now ((v, st) # rest) y)
      | _ \<Rightarrow> None)"
| "prov_next y (EvLoaded ok now) =
     (case py_phase y of
        DrainLoad ((v, st) # rest) \<Rightarrow>
          Some (act (if ok then forward_loaded v st (py_p y) else FwdUnknown) now ((v, st) # rest) y)
      | _ \<Rightarrow> None)"
| "prov_next y (EvWritten ok now) =
     (case py_phase y of
        DrainWrite uuid v2 b \<Rightarrow>
          Some (if ok then finish_head (y\<lparr>py_controlled := py_controlled y @ [uuid]\<rparr>) b
                else finish_head (y\<lparr>py_p := snd (recordForwardErr now (py_p y))\<rparr>) b)
      | _ \<Rightarrow> None)"
| "prov_next y (EvPublish r now) =
     (if pv_refresh (py_p y) then Some (y\<lparr>py_p := snd (publish r now (py_p y))\<rparr>) else None)"
| "prov_next y (EvLights now) = Some (y\<lparr>py_p := snd (lights_begin now (py_p y))\<rparr>)"
| "prov_next y EvDrainStats = Some (y\<lparr>py_p := snd (DrainStatsDelta (py_p y))\<rparr>)"
| "prov_next y EvClose = Some (y\<lparr>py_p := snd (provider_Close (py_p y))\<rparr>)"

definition prov_step :: "prov_sys \<Rightarrow> prov_event \<Rightarrow> prov_sys \<Rightarrow> bool" where
  "prov_step y e y' \<longleftrightarrow> prov_next y e = Some y'"

definition prov_start :: prov_sys where
  "prov_start = \<lparr>py_p = NewLightProvider, py_phase = NoDrain, py_wanted = [], py_attempted = [],
     py_writes = [], py_controlled = []\<rparr>"

section \<open>Invariant\<close>

fun drain_batch :: "drain_phase \<Rightarrow> (string, obj) gomap" where
  "drain_batch (DrainBatch b) = b"
| "drain_batch (DrainLoad b) = b"
| "drain_batch (DrainWrite _ _ b) = b"
| "drain_batch _ = []"

definition has_batch :: "drain_phase \<Rightarrow> bool" where
  "has_batch ph \<longleftrightarrow> ph \<noteq> NoDrain \<and> ph \<noteq> DrainTop"

text \<open>What the drain still has to deal with for a light, else what it dealt with last.\<close>

definition latest :: "prov_sys \<Rightarrow> string \<Rightarrow> obj option" where
  "latest y v = (case mget (pv_pending (py_p y)) v of Some st \<Rightarrow> Some st
     | None \<Rightarrow> (case mget (drain_batch (py_phase y)) v of Some st \<Rightarrow> Some st | None \<Rightarrow> mget (py_attempted y) v))"

definition queue_ok :: "prov_sys \<Rightarrow> bool" where
  "queue_ok y \<longleftrightarrow> gomap_ok (pv_pending (py_p y)) \<and> gomap_ok (drain_batch (py_phase y))
     \<and> (has_batch (py_phase y) \<longrightarrow> drain_batch (py_phase y) \<noteq> [])
     \<and> (pv_draining (py_p y) \<longleftrightarrow> py_phase y \<noteq> NoDrain)
     \<and> (pv_closed (py_p y) \<longrightarrow> pv_pending (py_p y) = [])
     \<and> (py_phase y = NoDrain \<longrightarrow> pv_pending (py_p y) = [])"

definition wanted_ok :: "prov_sys \<Rightarrow> bool" where
  "wanted_ok y \<longleftrightarrow> pv_closed (py_p y) \<or> (\<forall>v. mget (py_wanted y) v = latest y v)"

definition maps_ok :: "prov_sys \<Rightarrow> bool" where
  "maps_ok y \<longleftrightarrow> (\<forall>u v. V1ForUUID (py_p y) u = Some v \<longrightarrow> UUIDForV1 (py_p y) v = Some u)"

definition prov_inv :: "prov_sys \<Rightarrow> bool" where
  "prov_inv y \<longleftrightarrow> queue_ok y \<and> wanted_ok y \<and> maps_ok y"

definition prov_init :: "prov_sys \<Rightarrow> bool" where
  "prov_init y \<longleftrightarrow> y = prov_start"

lemma prov_inv_init: "prov_init y \<Longrightarrow> prov_inv y"
  by (simp add: prov_init_def prov_start_def prov_inv_def queue_ok_def wanted_ok_def maps_ok_def latest_def
      NewLightProvider_def has_batch_def V1ForUUID_def)

text \<open>The inverse map only names pairs of the forward map.\<close>

lemma invert_sound: "mget (foldl (\<lambda>r (v1, uuid). mput uuid v1 r) r0 m) u = Some v \<Longrightarrow> (v, u) \<in> set m \<or> mget r0 u = Some v"
  by (induction m arbitrary: r0) (fastforce split: if_splits)+

lemma invert_complete: "(v, u) \<in> set m \<Longrightarrow> mget (foldl (\<lambda>r (v1, uuid). mput uuid v1 r) r0 m) u \<noteq> None"
proof (induction m arbitrary: r0)
  case (Cons x m)
  have keep: "mget r u \<noteq> None \<Longrightarrow> mget (foldl (\<lambda>r (v1, uuid). mput uuid v1 r) r m) u \<noteq> None" for r
    by (induction m arbitrary: r) (auto split: if_splits prod.splits)
  show ?case using Cons keep [of "mput u v r0"] by auto
qed simp

lemma publish_maps:
  assumes "\<forall>u v. V1ForUUID p u = Some v \<longrightarrow> UUIDForV1 p v = Some u"
    "V1ForUUID (snd (publish r now p)) u = Some v"
  shows "UUIDForV1 (snd (publish r now p)) v = Some u"
proof (cases r)
  case (Inl e)
  then show ?thesis using assms by (auto simp: publish_def V1ForUUID_def UUIDForV1_def Let_def split: if_splits)
next
  case (Inr ls)
  have ok: "gomap_ok (lm_V1ToUUID (LightsV1 ls))" by (simp add: LightsV1_def LightsV1_loop_ok)
  have "(v, u) \<in> set (lm_V1ToUUID (LightsV1 ls))"
    using assms(2) invert_sound [of "[]" "lm_V1ToUUID (LightsV1 ls)" u v]
    by (simp add: Inr publish_def V1ForUUID_def Let_def invert_def)
  then show ?thesis using ok by (simp add: Inr publish_def UUIDForV1_def Let_def gomap_ok_mem)
qed

text \<open>The steps that leave the queue alone.\<close>

definition same_queue :: "Provider \<Rightarrow> Provider \<Rightarrow> bool" where
  "same_queue p q \<longleftrightarrow> pv_pending p = pv_pending q \<and> pv_draining p = pv_draining q \<and> pv_closed p = pv_closed q"

definition same_maps :: "Provider \<Rightarrow> Provider \<Rightarrow> bool" where
  "same_maps p q \<longleftrightarrow> pv_v1ToUUID p = pv_v1ToUUID q \<and> pv_uuidToV1 p = pv_uuidToV1 q"

lemma same_queue_ops [simp, intro]:
  "same_queue p p" "same_queue p (snd (publish r now p))" "same_queue p (snd (lights_begin now p))"
  "same_queue p (snd (DrainStatsDelta p))" "same_queue p (snd (recordForwardErr now p))"
  by (auto simp: same_queue_def publish_def lights_begin_def DrainStatsDelta_def recordForwardErr_def Let_def
      split: sum.splits option.splits)

lemma same_maps_ops [simp, intro]:
  "same_maps p p" "same_maps p (snd (lights_begin now p))" "same_maps p (snd (SetLightV1 v st p))"
  "same_maps p (snd (drain_take p))" "same_maps p (snd (provider_Close p))"
  "same_maps p (snd (DrainStatsDelta p))" "same_maps p (snd (recordForwardErr now p))"
  by (auto simp: same_maps_def SetLightV1_def drain_take_def provider_Close_def lights_begin_def DrainStatsDelta_def
      recordForwardErr_def Let_def split: option.splits)

lemma same_queue_inv:
  "same_queue (py_p y) p \<Longrightarrow> queue_ok (y\<lparr>py_p := p\<rparr>) = queue_ok y"
  "same_queue (py_p y) p \<Longrightarrow> wanted_ok (y\<lparr>py_p := p\<rparr>) = wanted_ok y"
  by (simp_all add: same_queue_def queue_ok_def wanted_ok_def latest_def cong: option.case_cong)

lemma same_maps_inv: "same_maps (py_p y) (py_p y') \<Longrightarrow> maps_ok y' = maps_ok y"
  by (simp add: same_maps_def maps_ok_def V1ForUUID_def UUIDForV1_def)

text \<open>Finishing the head of a batch.\<close>

lemma finish_head_p [simp]: "py_p (finish_head y b) = py_p y" "py_writes (finish_head y b) = py_writes y"
  "py_wanted (finish_head y b) = py_wanted y"
  by (simp_all add: finish_head_def split: list.splits)

lemma queue_ok_finish:
  assumes "queue_ok y" "drain_batch (py_phase y) = x # rest" shows "queue_ok (finish_head y (x # rest))"
proof -
  have "py_phase y \<noteq> NoDrain" using assms(2) by (cases "py_phase y") auto
  then show ?thesis using assms
    by (cases x) (auto simp: queue_ok_def finish_head_def has_batch_def gomap_ok_def)
qed

lemma wanted_ok_finish:
  assumes "queue_ok y" "wanted_ok y" "drain_batch (py_phase y) = x # rest" shows "wanted_ok (finish_head y (x # rest))"
proof -
  obtain v st where x: "x = (v, st)" by (cases x)
  have "mget rest v = None" using assms(1,3) by (simp add: queue_ok_def gomap_ok_def x mget_None_iff)
  then have "latest (finish_head y (x # rest)) w = latest y w" for w
    using assms(3) by (auto simp: latest_def finish_head_def x split: option.splits)
  then show ?thesis using assms(2) by (simp add: wanted_ok_def)
qed

lemma act_inv:
  assumes "queue_ok y" "wanted_ok y" "maps_ok y" "drain_batch (py_phase y) = x # rest"
  shows "prov_inv (act a now (x # rest) y)"
proof (cases a)
  case FwdDone
  then show ?thesis using assms by (simp add: act_def prov_inv_def queue_ok_finish wanted_ok_finish maps_ok_def)
next
  case FwdUnknown
  let ?y = "y\<lparr>py_p := snd (recordForwardErr now (py_p y))\<rparr>"
  have q: "queue_ok ?y" "wanted_ok ?y" using assms(1,2) by (simp_all add: same_queue_inv)
  have m: "maps_ok (finish_head ?y (x # rest))"
    using assms(3) by (subst same_maps_inv [of y]) simp_all
  have b: "drain_batch (py_phase ?y) = x # rest" using assms(4) by simp
  show ?thesis unfolding prov_inv_def act_def FwdUnknown forward_action.case
    by (intro conjI queue_ok_finish [OF q(1) b] wanted_ok_finish [OF q b] m)
next
  case FwdLoad
  have "py_phase y \<noteq> NoDrain" using assms(4) by (cases "py_phase y") auto
  then show ?thesis using assms
    by (simp add: FwdLoad act_def prov_inv_def queue_ok_def wanted_ok_def maps_ok_def latest_def has_batch_def
        cong: option.case_cong)
next
  case (FwdWrite u v2)
  have "py_phase y \<noteq> NoDrain" using assms(4) by (cases "py_phase y") auto
  then show ?thesis using assms
    by (simp add: FwdWrite act_def prov_inv_def queue_ok_def wanted_ok_def maps_ok_def latest_def has_batch_def
        cong: option.case_cong)
qed

lemma SetLightV1_closed: "pv_closed p \<Longrightarrow> SetLightV1 v st p = (False, p)"
  by (simp add: SetLightV1_def)

lemma SetLightV1_open:
  assumes "\<not> pv_closed p"
  obtains n where "snd (SetLightV1 v st p) =
    p\<lparr>pv_coalesced := n, pv_pending := mput v st (pv_pending p), pv_draining := True\<rparr>"
proof (cases "mget (pv_pending p) v")
  case None
  show thesis by (rule that [of "pv_coalesced p"]) (use assms None in \<open>cases p, simp add: SetLightV1_def Let_def\<close>)
next
  case (Some x)
  show thesis by (rule that [of "pv_coalesced p + 1"]) (use assms Some in \<open>simp add: SetLightV1_def Let_def\<close>)
qed

lemma set_light_inv:
  assumes "prov_inv y" "prov_next y (EvSetLight v st) = Some y'" shows "prov_inv y'"
proof (cases "pv_closed (py_p y)")
  case True
  then have "y' = y" using assms
    by (cases y, cases "py_p y") (auto simp: SetLightV1_closed prov_inv_def queue_ok_def)
  then show ?thesis using assms(1) by simp
next
  case False
  from SetLightV1_open [OF False, of v st] obtain n where n: "snd (SetLightV1 v st (py_p y)) =
    (py_p y)\<lparr>pv_coalesced := n, pv_pending := mput v st (pv_pending (py_p y)), pv_draining := True\<rparr>" .
  let ?ph = "if py_phase y = NoDrain then DrainTop else py_phase y"
  have y': "y' = y\<lparr>py_p := (py_p y)\<lparr>pv_coalesced := n, pv_pending := mput v st (pv_pending (py_p y)),
      pv_draining := True\<rparr>, py_phase := ?ph, py_wanted := mput v st (py_wanted y)\<rparr>"
    using assms(2) False by (simp add: n)
  have b: "drain_batch ?ph = drain_batch (py_phase y)" by simp
  have "queue_ok y'" using assms(1) False by (simp add: y' prov_inv_def queue_ok_def has_batch_def)
  moreover have "latest y' w = (if w = v then Some st else latest y w)" for w
    by (simp add: y' latest_def b del: drain_batch.simps cong: option.case_cong)
  then have "wanted_ok y'" using assms(1) False by (simp add: y' prov_inv_def wanted_ok_def)
  moreover have "maps_ok y'" using assms(1) by (simp add: y' prov_inv_def maps_ok_def V1ForUUID_def UUIDForV1_def)
  ultimately show ?thesis by (simp add: prov_inv_def)
qed

lemma mset_lookup:
  assumes "mset b = mset (c :: ('k, 'v) gomap)" "gomap_ok c" shows "gomap_ok b" "mget b = mget c"
proof -
  show "gomap_ok b" using assms unfolding gomap_ok_def by (metis mset_map mset_eq_imp_distinct_iff)
  then show "mget b = mget c" using assms(1,2) by (metis gomap_ok_def map_of_inject_set mset_eq_setD)
qed

lemma take_inv:
  assumes "prov_inv y" "prov_next y (EvTake order) = Some y'" shows "prov_inv y'"
proof (cases "pv_pending (py_p y) = []")
  case True
  then have y': "y' = y\<lparr>py_p := (py_p y)\<lparr>pv_draining := False\<rparr>, py_phase := NoDrain\<rparr>" "py_phase y = DrainTop"
    using assms(2) by (auto simp: drain_take_def split: if_splits)
  then show ?thesis using assms(1) True
    by (simp add: prov_inv_def queue_ok_def wanted_ok_def maps_ok_def latest_def has_batch_def V1ForUUID_def
        UUIDForV1_def)
next
  case False
  then have y': "y' = y\<lparr>py_p := (py_p y)\<lparr>pv_pending := []\<rparr>, py_phase := DrainBatch order\<rparr>"
      "py_phase y = DrainTop" "mset order = mset (pv_pending (py_p y))"
    using assms(2) by (auto simp: drain_take_def split: if_splits)
  have "gomap_ok (pv_pending (py_p y))" using assms(1) by (simp add: prov_inv_def queue_ok_def)
  from mset_lookup [OF y'(3) this] have o': "gomap_ok order" "mget order = mget (pv_pending (py_p y))" .
  have "order \<noteq> []" using y'(3) False by auto
  moreover have "latest y' w = latest y w" for w
    using o'(2) by (simp add: y'(1,2) latest_def split: option.split)
  ultimately show ?thesis using assms(1) o'(1)
    by (simp add: y'(1,2) prov_inv_def queue_ok_def wanted_ok_def maps_ok_def has_batch_def V1ForUUID_def
        UUIDForV1_def)
qed

lemma close_inv:
  assumes "prov_inv y" "prov_next y EvClose = Some y'" shows "prov_inv y'"
  using assms by (auto simp: prov_inv_def queue_ok_def wanted_ok_def maps_ok_def provider_Close_def
      V1ForUUID_def UUIDForV1_def)

lemma written_inv:
  assumes "prov_inv y" "prov_next y (EvWritten ok now) = Some y'" shows "prov_inv y'"
proof -
  obtain uuid v2 b where ph: "py_phase y = DrainWrite uuid v2 b" using assms(2) by (auto split: drain_phase.splits)
  obtain x rest where b: "b = x # rest"
    using assms(1) ph by (cases b) (auto simp: prov_inv_def queue_ok_def has_batch_def)
  show ?thesis
  proof (cases ok)
    case True
    let ?y = "y\<lparr>py_controlled := py_controlled y @ [uuid]\<rparr>"
    have "prov_inv ?y" using assms(1)
      by (simp add: prov_inv_def queue_ok_def wanted_ok_def maps_ok_def latest_def cong: option.case_cong)
    then have "prov_inv (act FwdDone now (x # rest) ?y)"
      by (intro act_inv) (simp_all add: prov_inv_def ph b)
    then show ?thesis using assms(2) True by (simp add: ph b act_def)
  next
    case False
    have "prov_inv (act FwdUnknown now (x # rest) y)"
      using assms(1) by (intro act_inv) (simp_all add: prov_inv_def ph b)
    then show ?thesis using assms(2) False by (simp add: ph b act_def)
  qed
qed

lemma prov_inv_step: "prov_inv y \<Longrightarrow> prov_step y e y' \<Longrightarrow> prov_inv y'"
proof (cases e)
  case (EvForward now)
  assume i: "prov_inv y" and "prov_step y e y'"
  then obtain v st rest where "py_phase y = DrainBatch ((v, st) # rest)"
      "y' = act (forward_begin v st (py_p y)) now ((v, st) # rest) y"
    by (auto simp: prov_step_def EvForward split: drain_phase.splits list.splits)
  then show ?thesis using i act_inv [of y "(v, st)" rest] by (simp add: prov_inv_def)
next
  case (EvLoaded ok now)
  assume i: "prov_inv y" and "prov_step y e y'"
  then obtain v st rest a where "py_phase y = DrainLoad ((v, st) # rest)" "y' = act a now ((v, st) # rest) y"
    by (auto simp: prov_step_def EvLoaded split: drain_phase.splits list.splits)
  then show ?thesis using i act_inv [of y "(v, st)" rest] by (simp add: prov_inv_def)
next
  case (EvPublish r now)
  assume i: "prov_inv y" and "prov_step y e y'"
  then have y': "y' = y\<lparr>py_p := snd (publish r now (py_p y))\<rparr>" by (auto simp: prov_step_def EvPublish split: if_splits)
  have "maps_ok y'" using i publish_maps [of "py_p y" r now] by (auto simp: y' prov_inv_def maps_ok_def)
  then show ?thesis using i by (simp add: y' prov_inv_def same_queue_inv)
next
  case (EvLights now)
  assume i: "prov_inv y" and "prov_step y e y'"
  then have y': "y' = y\<lparr>py_p := snd (lights_begin now (py_p y))\<rparr>" by (simp add: prov_step_def EvLights)
  have "maps_ok y'" using i by (subst same_maps_inv [of y]) (simp_all add: y' prov_inv_def)
  then show ?thesis using i by (simp add: y' prov_inv_def same_queue_inv)
next
  case EvDrainStats
  assume i: "prov_inv y" and "prov_step y e y'"
  then have y': "y' = y\<lparr>py_p := snd (DrainStatsDelta (py_p y))\<rparr>" by (simp add: prov_step_def EvDrainStats)
  have "maps_ok y'" using i by (subst same_maps_inv [of y]) (simp_all add: y' prov_inv_def)
  then show ?thesis using i by (simp add: y' prov_inv_def same_queue_inv)
qed (auto simp: prov_step_def intro: set_light_inv take_inv close_inv written_inv simp del: prov_next.simps)

interpretation provider: invariant_system prov_init prov_step prov_inv
  by unfold_locales (auto intro: prov_inv_init prov_inv_step)

section \<open>Progress of the drain\<close>

fun is_drain :: "prov_event \<Rightarrow> bool" where
  "is_drain (EvTake _) = True"
| "is_drain (EvForward _) = True"
| "is_drain (EvLoaded _ _) = True"
| "is_drain (EvWritten _ _) = True"
| "is_drain _ = False"

fun sets_light :: "prov_event \<Rightarrow> bool" where
  "sets_light (EvSetLight _ _) = True"
| "sets_light _ = False"

text \<open>How many steps the drain still makes when nothing new is queued: three per light at most.\<close>

fun phase_fuel :: "drain_phase \<Rightarrow> nat" where
  "phase_fuel NoDrain = 0"
| "phase_fuel DrainTop = 1"
| "phase_fuel (DrainBatch b) = 3 * length b + 1"
| "phase_fuel (DrainLoad b) = 3 * length b"
| "phase_fuel (DrainWrite _ _ b) = 3 * length b - 1"

definition drain_fuel :: "prov_sys \<Rightarrow> nat" where
  "drain_fuel y = phase_fuel (py_phase y) + (if pv_pending (py_p y) = [] then 0 else 3 * length (pv_pending (py_p y)) + 1)"

lemma pending_recordForwardErr [simp]: "pv_pending (snd (recordForwardErr now p)) = pv_pending p"
  using same_queue_ops(5) [of p now] by (simp add: same_queue_def)

lemma finish_fuel: "phase_fuel (py_phase (finish_head y (x # rest))) \<le> 3 * length rest + 1"
  by (cases x) (simp add: finish_head_def)

lemma act_fuel:
  "a \<noteq> FwdLoad \<Longrightarrow> drain_fuel (act a now (x # rest) y) < 3 * length (x # rest) + (drain_fuel y - phase_fuel (py_phase y))"
  using finish_fuel [of y x rest] finish_fuel [of "y\<lparr>py_p := snd (recordForwardErr now (py_p y))\<rparr>" x rest]
  by (cases a) (auto simp: act_def drain_fuel_def)

lemma forward_loaded_not_load: "forward_loaded v st p \<noteq> FwdLoad"
  by (simp add: forward_loaded_def forward_fence_def split: option.splits)

lemma drain_fuel_step:
  assumes "prov_inv y" "prov_step y e y'" "pv_closed (py_p y) \<or> \<not> sets_light e"
  shows "drain_fuel y' + (if is_drain e then 1 else 0) \<le> drain_fuel y"
proof (cases e)
  case (EvSetLight v st)
  then have "y' = y" using assms
    by (cases y, cases "py_p y") (auto simp: prov_step_def SetLightV1_closed prov_inv_def queue_ok_def)
  then show ?thesis by (simp add: EvSetLight)
next
  case (EvTake order)
  have "length order = length b" if "mset order = mset b" for b :: "(string, obj) gomap"
    using that by (rule mset_eq_length)
  then show ?thesis using assms(2)
    by (auto simp: EvTake prov_step_def drain_take_def drain_fuel_def split: if_splits)
next
  case (EvForward now)
  then obtain v st rest where ph: "py_phase y = DrainBatch ((v, st) # rest)"
      "y' = act (forward_begin v st (py_p y)) now ((v, st) # rest) y"
    using assms(2) by (auto simp: prov_step_def split: drain_phase.splits list.splits)
  show ?thesis
  proof (cases "forward_begin v st (py_p y) = FwdLoad")
    case True
    then show ?thesis by (simp add: EvForward ph act_def drain_fuel_def)
  next
    case False
    from act_fuel [OF this, of now "(v, st)" rest y] show ?thesis by (simp add: EvForward ph drain_fuel_def)
  qed
next
  case (EvLoaded ok now)
  then obtain v st rest a where ph: "py_phase y = DrainLoad ((v, st) # rest)"
      "y' = act a now ((v, st) # rest) y" "a \<noteq> FwdLoad"
    using assms(2) forward_loaded_not_load
    by (fastforce simp: prov_step_def split: drain_phase.splits list.splits if_splits)
  from act_fuel [OF ph(3), of now "(v, st)" rest y] show ?thesis by (simp add: EvLoaded ph drain_fuel_def)
next
  case (EvWritten ok now)
  then obtain uuid v2 b where ph: "py_phase y = DrainWrite uuid v2 b" using assms(2)
    by (auto simp: prov_step_def split: drain_phase.splits)
  obtain x rest where b: "b = x # rest"
    using assms(1) ph by (cases b) (auto simp: prov_inv_def queue_ok_def has_batch_def)
  obtain y1 where "y' = finish_head y1 b" "pv_pending (py_p y1) = pv_pending (py_p y)"
    using assms(2) by (cases ok) (auto simp: prov_step_def EvWritten ph)
  then show ?thesis using finish_fuel [of y1 x rest] by (simp add: EvWritten ph b drain_fuel_def)
next
  case (EvPublish r now)
  then show ?thesis using assms(2) same_queue_ops(2) [of "py_p y" r now]
    by (auto simp: prov_step_def drain_fuel_def same_queue_def split: if_splits)
next
  case (EvLights now)
  then show ?thesis using assms(2) same_queue_ops(3) [of "py_p y" now]
    by (auto simp: prov_step_def drain_fuel_def same_queue_def)
next
  case EvDrainStats
  then show ?thesis using assms(2) same_queue_ops(4) [of "py_p y"]
    by (auto simp: prov_step_def drain_fuel_def same_queue_def)
next
  case EvClose
  then show ?thesis using assms(2) by (auto simp: prov_step_def drain_fuel_def provider_Close_def)
qed

text \<open>The drain is never stuck: while it exists one of its steps is possible.\<close>

lemma drain_progress:
  assumes "prov_inv y" "py_phase y \<noteq> NoDrain" shows "\<exists>e y'. is_drain e \<and> prov_step y e y'"
proof (cases "py_phase y")
  case DrainTop
  then show ?thesis
    by (intro exI [of _ "EvTake (pv_pending (py_p y))"]) (auto simp: prov_step_def drain_take_def)
next
  case (DrainBatch b)
  then obtain v st rest where "b = (v, st) # rest"
    using assms(1) by (cases b) (auto simp: prov_inv_def queue_ok_def has_batch_def)
  then show ?thesis by (intro exI [of _ "EvForward 0"]) (auto simp: prov_step_def DrainBatch)
next
  case (DrainLoad b)
  then obtain v st rest where "b = (v, st) # rest"
    using assms(1) by (cases b) (auto simp: prov_inv_def queue_ok_def has_batch_def)
  then show ?thesis by (intro exI [of _ "EvLoaded True 0"]) (auto simp: prov_step_def DrainLoad)
next
  case (DrainWrite u v2 b)
  then show ?thesis by (intro exI [of _ "EvWritten True 0"]) (auto simp: prov_step_def)
qed (use assms in simp)

lemma drain_run_bound:
  assumes "run prov_step y es y'" "prov_inv y" "pv_closed (py_p y) \<and> (\<forall>y1 es1. run prov_step y es1 y1 \<longrightarrow> pv_closed (py_p y1)) \<or> list_all (\<lambda>e. \<not> sets_light e) es"
  shows "drain_fuel y' + length (filter is_drain es) \<le> drain_fuel y"
  using assms
proof (induction rule: run.induct)
  case (run_snoc y es y1 e y2)
  have i: "prov_inv y1" using run_snoc.hyps(1) run_snoc.prems(1) by (rule provider.run_inv)
  have "pv_closed (py_p y1) \<or> \<not> sets_light e" using run_snoc.prems(2) run_snoc.hyps(1) by auto
  from drain_fuel_step [OF i run_snoc.hyps(2) this] run_snoc.IH [OF run_snoc.prems(1)] run_snoc.prems(2)
  show ?case by (auto split: if_splits)
qed simp

section \<open>The shutdown fence\<close>

lemma act_closed:
  assumes "pv_closed (py_p y)" "\<And>u v2. a \<noteq> FwdWrite u v2"
  shows "pv_closed (py_p (act a now b y))" "py_writes (act a now b y) = py_writes y"
proof -
  have "same_queue (py_p y) (snd (recordForwardErr now (py_p y)))" by simp
  then have c: "pv_closed (snd (recordForwardErr now (py_p y)))" using assms(1) by (simp add: same_queue_def)
  show "pv_closed (py_p (act a now b y))" "py_writes (act a now b y) = py_writes y"
    using assms c by (auto simp: act_def split: forward_action.split)
qed

lemma closed_no_write: "pv_closed p \<Longrightarrow> forward_begin v st p \<noteq> FwdWrite u v2"
  "pv_closed p \<Longrightarrow> forward_loaded v st p \<noteq> FwdWrite u v2"
  by (simp_all add: forward_begin_def forward_loaded_def forward_fence_def Let_def split: option.split)

lemma closed_step:
  assumes "prov_step y e y'" "pv_closed (py_p y)"
  shows "pv_closed (py_p y') \<and> py_writes y' = py_writes y \<and> (py_phase y = NoDrain \<and> \<not> pv_draining (py_p y) \<longrightarrow> py_phase y' = NoDrain \<and> \<not> pv_draining (py_p y'))"
proof -
  note q = same_queue_ops(2-5) [unfolded same_queue_def, of "py_p y"]
  note s = assms(1) [unfolded prov_step_def]
  show ?thesis
  proof (cases e)
    case (EvForward now)
    then show ?thesis using s assms(2)
      by (auto simp: act_closed closed_no_write split: drain_phase.splits list.splits)
  next
    case (EvLoaded ok now)
    then show ?thesis using s assms(2)
      by (auto simp: act_closed closed_no_write split: drain_phase.splits list.splits if_splits)
  qed (use s assms(2) q in \<open>auto simp: SetLightV1_closed drain_take_def provider_Close_def Let_def
        split: drain_phase.splits if_splits\<close>)
qed

lemma closed_run:
  assumes "run prov_step y es y'" "pv_closed (py_p y)"
  shows "pv_closed (py_p y') \<and> py_writes y' = py_writes y \<and> (py_phase y = NoDrain \<and> \<not> pv_draining (py_p y) \<longrightarrow> py_phase y' = NoDrain \<and> \<not> pv_draining (py_p y'))"
  using assms
proof (induction rule: run.induct)
  case (run_snoc y es y1 e y2)
  have "pv_closed (py_p y1)" using run_snoc by simp
  from closed_step [OF run_snoc.hyps(2) this] run_snoc.IH [OF run_snoc.prems] show ?case by (simp add: conj_imp_eq_imp_imp)
qed simp

lemma prov_start_inv: "run prov_step prov_start es y \<Longrightarrow> prov_inv y"
  by (rule provider.reachable_inv) (auto simp: prov_init_def)

section \<open>Properties\<close>

text \<open>
  C16: the shutdown fence.  From \<open>Close\<close> on, whatever the TV still sends and however fetches and
  drain interleave, no write goes out to the Pro; when \<open>Close\<close> found no drain to wait for none is
  in flight either, and otherwise the drain it waits for ends after a bounded number of its own
  steps.
\<close>

theorem close_fences_writes:
  assumes "run prov_step prov_start (es @ EvClose # es') y"
  shows "\<exists>y1. run prov_step prov_start es y1 \<and> py_writes y = py_writes y1
    \<and> (\<not> fst (provider_Close (py_p y1)) \<longrightarrow> py_phase y = NoDrain)
    \<and> length (filter is_drain es') \<le> phase_fuel (py_phase y1)"
proof -
  from assms obtain y1 where y1: "run prov_step prov_start es y1" "run prov_step y1 (EvClose # es') y"
    by (rule run_append_cases)
  note i = prov_start_inv [OF y1(1)]
  from y1(2) obtain y2 where y2: "prov_step y1 EvClose y2" "run prov_step y2 es' y" by (rule run_Cons_cases)
  have y2': "y2 = y1\<lparr>py_p := (py_p y1)\<lparr>pv_closed := True, pv_pending := []\<rparr>\<rparr>"
    using y2(1) by (simp add: prov_step_def provider_Close_def)
  have c: "pv_closed (py_p y2)" by (simp add: y2')
  have "drain_fuel y + length (filter is_drain es') \<le> drain_fuel y2"
    by (rule drain_run_bound [OF y2(2) provider.step_inv [OF i y2(1)]]) (use c closed_run in blast)
  moreover have "drain_fuel y2 = phase_fuel (py_phase y1)" by (simp add: y2' drain_fuel_def)
  moreover have "\<not> pv_draining (py_p y1) \<longrightarrow> py_phase y1 = NoDrain" using i by (simp add: prov_inv_def queue_ok_def)
  ultimately show ?thesis using y1(1) closed_run [OF y2(2) c]
    by (intro exI [of _ y1]) (auto simp: y2' provider_Close_def)
qed

definition demo_events :: "prov_event list" where
  "demo_events = [EvLights 0, EvPublish (Inr demo_lights) 1, EvSetLight ''1'' [(''on'', GBool True)],
     EvTake [(''1'', [(''on'', GBool True)])], EvSetLight ''1'' [(''on'', GBool False)], EvForward 2]"

definition demo_after :: "prov_event list" where
  "demo_after = [EvSetLight ''1'' [(''on'', GBool True)], EvWritten True 3, EvTake []]"

lemma exec_prov: "exec prov_next y es = Some y' \<Longrightarrow> run prov_step y es y'"
  by (rule exec_run) (auto simp: prov_step_def)

lemma demo_close_run:
  "\<exists>y. run prov_step prov_start (demo_events @ EvClose # demo_after) y"
proof -
  have "exec prov_next prov_start (demo_events @ EvClose # demo_after) \<noteq> None" by code_simp
  then show ?thesis using exec_prov by blast
qed

lemma close_fences_writes_witness:
  "\<exists>y y1. run prov_step prov_start demo_events y1 \<and> run prov_step prov_start (demo_events @ EvClose # demo_after) y
    \<and> py_writes y = py_writes y1"
proof -
  obtain y where y: "run prov_step prov_start (demo_events @ EvClose # demo_after) y" using demo_close_run by blast
  from close_fences_writes [OF y] y show ?thesis by blast
qed


definition demo_drain :: "prov_event list" where
  "demo_drain = [EvWritten True 3, EvTake [(''1'', [(''on'', GBool False)])], EvForward 4, EvWritten False 5, EvTake []]"


text \<open>The two id maps are inverse to each other on every reachable state.\<close>

lemma V1ForUUID_UUIDForV1:
  "run prov_step prov_start es y \<Longrightarrow> V1ForUUID (py_p y) u = Some v \<Longrightarrow> UUIDForV1 (py_p y) v = Some u"
  using prov_start_inv by (simp add: prov_inv_def maps_ok_def)

end
