(* ===== verification/Controlled.thy ===== *)
theory Controlled
  imports Translate Systems
begin

text \<open>
  The sliding window of the lights the TV drives (\<open>internal/bridge/controlled.go\<close>) and the turn-off
  of exactly those lights at shutdown or when the TV goes idle (\<open>internal/bridge/flash.go\<close>).
\<close>

record ControlledSet =
  cs_window :: duration
  cs_seen :: "(string, int) gomap"
  cs_last :: "string list"

definition NewControlledSet :: "duration \<Rightarrow> ControlledSet" where
  "NewControlledSet window = \<lparr>cs_window = window, cs_seen = [], cs_last = []\<rparr>"

definition Seen :: "string \<Rightarrow> int \<Rightarrow> ControlledSet \<Rightarrow> ControlledSet" where
  "Seen uuid now s = (if uuid = [] then s else s\<lparr>cs_seen := mput uuid now (cs_seen s)\<rparr>)"

definition Current :: "int \<Rightarrow> ControlledSet \<Rightarrow> string list \<times> ControlledSet" where
  "Current now s =
     (let cutoff = now - cs_window s;
          live = filter (\<lambda>(_, t). \<not> t < cutoff) (cs_seen s);
          out = mkeys live;
          s1 = s\<lparr>cs_seen := live\<rparr>
      in if out \<noteq> [] then (out, s1\<lparr>cs_last := out\<rparr>) else (cs_last s1, s1))"

text \<open>\<open>TurnOffControlled\<close>: the writes it makes to the Pro; their errors are only logged.\<close>

definition TurnOffControlled :: "string list \<Rightarrow> (string \<times> obj) list" where
  "TurnOffControlled targets =
     (if targets = [] then []
      else let off = StateV1ToV2 [(''on'', GBool False)] in map (\<lambda>uuid. (uuid, off)) targets)"

section \<open>Runs\<close>

datatype controlled_event = EvSeen string int | EvCurrent int

fun controlled_next :: "ControlledSet \<Rightarrow> controlled_event \<Rightarrow> ControlledSet" where
  "controlled_next s (EvSeen u now) = Seen u now s"
| "controlled_next s (EvCurrent now) = snd (Current now s)"

definition controlled_step :: "ControlledSet \<Rightarrow> controlled_event \<Rightarrow> ControlledSet \<Rightarrow> bool" where
  "controlled_step s e s' \<longleftrightarrow> s' = controlled_next s e"

text \<open>Only lights the TV drove are in the set, each once.\<close>

definition driven :: "controlled_event list \<Rightarrow> string set" where
  "driven es = {u. u \<noteq> [] \<and> (\<exists>t. EvSeen u t \<in> set es)}"

definition controlled_hist :: "ControlledSet \<Rightarrow> controlled_event list \<Rightarrow> ControlledSet \<Rightarrow> bool" where
  "controlled_hist s0 es s \<longleftrightarrow> set (mkeys (cs_seen s)) \<subseteq> driven es \<and> set (cs_last s) \<subseteq> driven es
     \<and> distinct (cs_last s) \<and> cs_window s = cs_window s0
     \<and> (\<forall>u t. mget (cs_seen s) u = Some t \<longrightarrow> EvSeen u t \<in> set es)"

definition controlled_inv :: "ControlledSet \<Rightarrow> bool" where
  "controlled_inv s \<longleftrightarrow> gomap_ok (cs_seen s)"

definition controlled_init :: "ControlledSet \<Rightarrow> bool" where
  "controlled_init s \<longleftrightarrow> (\<exists>w. s = NewControlledSet w)"

lemma controlled_inv_step: "controlled_inv s \<Longrightarrow> controlled_step s e s' \<Longrightarrow> controlled_inv s'"
  by (cases e) (auto simp: controlled_inv_def controlled_step_def Seen_def Current_def Let_def gomap_ok_filter)

lemma driven_snoc [simp]:
  "driven (es @ [EvSeen u t]) = (if u = [] then driven es else insert u (driven es))"
  "driven (es @ [EvCurrent t]) = driven es"
  by (auto simp: driven_def)

lemma mget_filter_sub: "gomap_ok m \<Longrightarrow> mget (filter P m) u = Some t \<Longrightarrow> mget m u = Some t"
  using gomap_ok_mem [OF gomap_ok_filter, of m u t P] gomap_ok_mem [of m u t] by simp

lemma controlled_hist_step:
  assumes "controlled_inv s" "controlled_hist s0 es s" "controlled_step s e s'"
  shows "controlled_hist s0 (es @ [e]) s'"
proof (cases e)
  case (EvSeen u t)
  then show ?thesis using assms
    by (auto simp: controlled_hist_def controlled_step_def Seen_def simp del: set_map)
next
  case (EvCurrent now)
  let ?live = "filter (\<lambda>(_, t). \<not> t < now - cs_window s) (cs_seen s)"
  have ok: "gomap_ok ?live" using assms(1) by (simp add: controlled_inv_def gomap_ok_filter)
  have sub: "set (mkeys ?live) \<subseteq> set (mkeys (cs_seen s))" by auto
  have s': "s' = (if mkeys ?live \<noteq> [] then s\<lparr>cs_seen := ?live, cs_last := mkeys ?live\<rparr> else s\<lparr>cs_seen := ?live\<rparr>)"
    using assms(3) by (simp add: controlled_step_def EvCurrent Current_def Let_def)
  have "\<forall>u t. mget ?live u = Some t \<longrightarrow> EvSeen u t \<in> set es"
    using assms(1,2) mget_filter_sub by (fastforce simp: controlled_inv_def controlled_hist_def)
  then show ?thesis using assms(2) sub ok
    by (auto simp: s' controlled_hist_def EvCurrent gomap_ok_def simp del: set_map)
qed

lemma controlled_inv_init: "controlled_init s \<Longrightarrow> controlled_inv s"
  by (auto simp: controlled_init_def controlled_inv_def NewControlledSet_def)

lemma controlled_hist_init: "controlled_init s \<Longrightarrow> controlled_hist s [] s"
  by (auto simp: controlled_init_def controlled_hist_def NewControlledSet_def)

interpretation controlled: history_system controlled_init controlled_step controlled_inv controlled_hist
  by unfold_locales (auto intro: controlled_inv_init controlled_inv_step controlled_hist_init controlled_hist_step)

lemma cs_last_kept: "run controlled_step s es s' \<Longrightarrow> cs_last s \<noteq> [] \<Longrightarrow> cs_last s' \<noteq> []"
proof (induction rule: run.induct)
  case (run_snoc s es s1 e s2)
  then show ?case by (cases e) (auto simp: controlled_step_def Seen_def Current_def Let_def)
qed simp

lemma Current_nonempty:
  "fst (Current now s) \<noteq> [] \<Longrightarrow> cs_last (snd (Current now s)) \<noteq> []" "cs_last s \<noteq> [] \<Longrightarrow> fst (Current now s) \<noteq> []"
  by (auto simp: Current_def Let_def split: if_splits)

section \<open>Property\<close>

text \<open>
  The turn-off never touches a light the TV did not drive, writes each light at most once and
  only switches it off; and once the set has been non-empty it stays so: pausing, going idle and
  the aging of the whole window never turn \<open>had lights\<close> into \<open>no lights\<close>.
\<close>

theorem turn_off_only_driven:
  assumes "run controlled_step (NewControlledSet w) es s"
  shows "set (TurnOffControlled (fst (Current now s))) \<subseteq> driven es \<times> {[(''on'', GObj [(''on'', GBool False)])]}
    \<and> distinct (TurnOffControlled (fst (Current now s)))
    \<and> (fst (Current now s) \<noteq> [] \<longrightarrow> (\<forall>es' s' now'. run controlled_step (snd (Current now s)) es' s' \<longrightarrow>
        TurnOffControlled (fst (Current now' s')) \<noteq> []))"
proof -
  have st: "run controlled_step (NewControlledSet w) (es @ [EvCurrent now]) (snd (Current now s))"
    by (rule run_snoc [OF assms]) (simp add: controlled_step_def)
  have h: "controlled_hist (NewControlledSet w) es s"
    by (rule controlled.reachable_hist [OF assms]) (auto simp: controlled_init_def)
  have h1: "controlled_hist (NewControlledSet w) (es @ [EvCurrent now]) (snd (Current now s))"
    by (rule controlled.reachable_hist [OF st]) (auto simp: controlled_init_def)
  have c: "fst (Current now s) = cs_last (snd (Current now s))" by (simp add: Current_def Let_def)
  have off: "StateV1ToV2 [(''on'', GBool False)] = [(''on'', GObj [(''on'', GBool False)])]" by code_simp
  have "set (fst (Current now s)) \<subseteq> driven es" "distinct (fst (Current now s))"
    using h1 by (simp_all add: c controlled_hist_def)
  then have "set (TurnOffControlled (fst (Current now s))) \<subseteq> driven es \<times> {[(''on'', GObj [(''on'', GBool False)])]}"
      "distinct (TurnOffControlled (fst (Current now s)))"
    by (auto simp: TurnOffControlled_def off distinct_map inj_on_def)
  moreover have "fst (Current now' s') \<noteq> []"
    if "fst (Current now s) \<noteq> []" "run controlled_step (snd (Current now s)) es' s'" for es' s' now'
    using that Current_nonempty cs_last_kept by blast
  then have "fst (Current now s) \<noteq> [] \<longrightarrow> (\<forall>es' s' now'. run controlled_step (snd (Current now s)) es' s' \<longrightarrow>
        TurnOffControlled (fst (Current now' s')) \<noteq> [])" by (simp add: TurnOffControlled_def Let_def)
  ultimately show ?thesis by blast
qed

lemma turn_off_only_driven_witness:
  "set (TurnOffControlled (fst (Current 5 (Seen ''aa'' 3 (NewControlledSet 60)))))
     \<subseteq> driven [EvSeen ''aa'' 3] \<times> {[(''on'', GObj [(''on'', GBool False)])]}"
proof -
  have "run controlled_step (NewControlledSet 60) [EvSeen ''aa'' 3] (Seen ''aa'' 3 (NewControlledSet 60))"
    by (rule run_single) (simp add: controlled_step_def)
  from turn_off_only_driven [OF this] show ?thesis by blast
qed

text \<open>While a light is inside the window, the set is exactly the lights inside it.\<close>

lemma Current_window:
  assumes "gomap_ok (cs_seen s)" "\<exists>u t. mget (cs_seen s) u = Some t \<and> now - cs_window s \<le> t"
  shows "u \<in> set (fst (Current now s)) \<longleftrightarrow> (\<exists>t. mget (cs_seen s) u = Some t \<and> now - cs_window s \<le> t)"
proof -
  let ?live = "filter (\<lambda>(_, t). \<not> t < now - cs_window s) (cs_seen s)"
  have k: "u \<in> set (mkeys ?live) \<longleftrightarrow> (\<exists>t. mget (cs_seen s) u = Some t \<and> now - cs_window s \<le> t)" for u
    using gomap_ok_mem [OF assms(1)] by (force simp: not_less)
  then have "mkeys ?live \<noteq> []" using assms(2) by (metis empty_iff list.set(1))
  then show ?thesis using k by (simp add: Current_def Let_def del: set_map set_filter)
qed

end
