(* ===== verification/Upnp.thy ===== *)
theory Upnp
  imports ConfigStore
begin

text \<open>
  The descriptor the TV fetches after SSDP discovery (\<open>internal/upnp/description.go\<close>).  The template
  is plain text substitution; a serial too short for a bridge id panics (\<open>None\<close>).
\<close>

definition ServerHeaderDefault :: string where
  "ServerHeaderDefault = ''Linux/3.14.0 UPnP/1.0 IpBridge/1.20.0''"

definition suffix6 :: "string \<Rightarrow> string" where
  "suffix6 s = (if length s > 6 then drop (length s - 6) s else s)"

definition quoted :: "string \<Rightarrow> string" where
  "quoted s = CHR 0x22 # s @ [CHR 0x22]"

definition description_lines :: "string \<Rightarrow> int \<Rightarrow> string \<Rightarrow> string \<Rightarrow> string \<Rightarrow> string list" where
  "description_lines ip port serial uuid suffix =
     [''<?xml version='' @ quoted ''1.0'' @ '' encoding='' @ quoted ''UTF-8'' @ '' ?>'',
      ''<root xmlns='' @ quoted ''urn:schemas-upnp-org:device-1-0'' @ ''>'',
      ''<specVersion>'', ''<major>1</major>'', ''<minor>0</minor>'', ''</specVersion>'',
      ''<URLBase>http://'' @ ip @ '':'' @ Itoa port @ ''/</URLBase>'',
      ''<device>'',
      ''<deviceType>urn:schemas-upnp-org:device:Basic:1</deviceType>'',
      ''<friendlyName>relume-tv-'' @ suffix @ ''</friendlyName>'',
      ''<manufacturer>Signify</manufacturer>'',
      ''<manufacturerURL>http://www.meethue.com</manufacturerURL>'',
      ''<modelDescription>Philips hue Personal Wireless Lighting</modelDescription>'',
      ''<modelName>Philips hue bridge 2015</modelName>'',
      ''<modelNumber>BSB002</modelNumber>'',
      ''<modelURL>http://www.meethue.com</modelURL>'',
      ''<serialNumber>'' @ serial @ ''</serialNumber>'',
      ''<UDN>uuid:'' @ uuid @ ''</UDN>'',
      ''<presentationURL>index.html</presentationURL>'',
      ''</device>'', ''</root>'']"

definition Render :: "Identity \<Rightarrow> string \<Rightarrow> int \<Rightarrow> string option" where
  "Render i ip port =
     (case BridgeID i of None \<Rightarrow> None
      | Some bridgeID \<Rightarrow>
          Some (concat (map (\<lambda>l. l @ [CHR 0x0A]) (description_lines ip port (id_Serial i) (UUID i) (suffix6 bridgeID)))))"

lemma length_suffix6: "length (suffix6 s) = min 6 (length s)"
  by (auto simp: suffix6_def)

text \<open>The name is a single token for a serial without spaces: the TV cuts the name at the first one.\<close>

lemma suffix6_set: "set (suffix6 s) \<subseteq> set s"
  by (auto simp: suffix6_def dest: in_set_dropD)

end
