(* ===== verification/ClipHttp.thy ===== *)
theory ClipHttp
  imports Translate StreamState
begin

text \<open>
  The stateless half of the CLIP v1 server (\<open>internal/clipv1/server.go\<close>): requests, routing, the
  recognition of the TV and of its high-frequency requests, the bodies of the group requests, and
  the rendering of groups and errors.

  A request carries the JSON value its body decodes to, and the one its first 4096 bytes decode to
  (debug mode truncates the body).  Paths are the decoded paths of \<open>r.URL.Path\<close> without
  percent-escapes, beginning with a slash.
\<close>

section \<open>Requests and responses\<close>

record request =
  rq_method :: string
  rq_path :: string
  rq_remote :: string
  rq_ua :: string
  rq_body :: json_body
  rq_body4k :: json_body

datatype response =
    RespJSON gval
  | RespXML string
  | RespRedirect string
  | RespStatus int
  | RespPanic

definition writeError :: "int \<Rightarrow> string \<Rightarrow> string \<Rightarrow> response" where
  "writeError typ address description =
     RespJSON (GArr [GObj [(''error'', GObj [(''type'', GInt typ), (''address'', GStr address),
       (''description'', GStr description)])]])"

definition success :: "obj \<Rightarrow> response" where
  "success o' = RespJSON (GArr [GObj [(''success'', GObj o')]])"

section \<open>Routing\<close>

text \<open>
  \<open>Handler\<close>: the patterns of the \<open>http.ServeMux\<close>.  A literal segment wins over \<open>{user}\<close>, a pattern
  with a method over one without, \<open>GET\<close> patterns answer \<open>HEAD\<close> too, and a pattern ending in a slash
  matches the whole subtree.  A wildcard matches one non-empty segment.
\<close>

datatype route =
    RDescription
  | RPairing
  | RShortConfig
  | RConfig string
  | RDatastore string
  | RLights string
  | RLight string string
  | RSetLightState string string
  | RGroups string
  | RGroup string string
  | RCreateGroup string
  | RGroupAction string string
  | RGroupUpdate string string
  | RCapabilities string
  | REmptyCollection string
  | RUnknownAPI
  | RRedirectTo string
  | RNotFound
  | RMethodNotAllowed

definition segments :: "string \<Rightarrow> string list" where
  "segments path = split_char (CHR ''/'') (drop 1 path)"

definition clean_path :: "string list \<Rightarrow> bool" where
  "clean_path segs \<longleftrightarrow> list_all (\<lambda>s. s \<noteq> [] \<and> s \<noteq> ''.'' \<and> s \<noteq> ''..'') (butlast segs) \<and> last segs \<noteq> ''.'' \<and> last segs \<noteq> ''..''"

definition empty_collections :: "string list" where
  "empty_collections = [''scenes'', ''schedules'', ''sensors'', ''rules'', ''resourcelinks'']"

fun route_get :: "string list \<Rightarrow> route option" where
  "route_get [s] = (if s = ''description.xml'' then Some RDescription
     else if s = ''config'' then Some RShortConfig else None)"
| "route_get [a, u] = (if a \<noteq> ''api'' \<or> u = [] then None
     else if u = ''config'' then Some RShortConfig else Some (RDatastore u))"
| "route_get [a, u, c] = (if a \<noteq> ''api'' \<or> u = [] then None
     else if c = ''config'' then Some (RConfig u)
     else if c = ''lights'' then Some (RLights u)
     else if c = ''groups'' then Some (RGroups u)
     else if c = ''capabilities'' then Some (RCapabilities u)
     else if c \<in> set empty_collections then Some (REmptyCollection u) else None)"
| "route_get [a, u, c, i] = (if a \<noteq> ''api'' \<or> u = [] \<or> i = [] then None
     else if c = ''lights'' then Some (RLight u i)
     else if c = ''groups'' then Some (RGroup u i) else None)"
| "route_get _ = None"

fun route_post :: "string list \<Rightarrow> route option" where
  "route_post [a] = (if a = ''api'' then Some RPairing else None)"
| "route_post (a # u # rest) = (if a \<noteq> ''api'' then None
     else if u \<noteq> [] \<and> rest \<noteq> [] \<and> hd rest = ''groups'' then Some (RCreateGroup u) else Some RPairing)"
| "route_post _ = None"

fun route_put :: "string list \<Rightarrow> route option" where
  "route_put [a, u, c, i] = (if a = ''api'' \<and> u \<noteq> [] \<and> c = ''groups'' \<and> i \<noteq> [] then Some (RGroupUpdate u i) else None)"
| "route_put [a, u, c, i, x] = (if a \<noteq> ''api'' \<or> u = [] \<or> i = [] then None
     else if c = ''lights'' \<and> x = ''state'' then Some (RSetLightState u i)
     else if c = ''groups'' \<and> x = ''action'' then Some (RGroupAction u i) else None)"
| "route_put _ = None"

definition route_method :: "string \<Rightarrow> string list \<Rightarrow> route option" where
  "route_method m segs =
     (if m = ''GET'' \<or> m = ''HEAD'' then route_get segs
      else if m = ''POST'' then route_post segs
      else if m = ''PUT'' then route_put segs else None)"

definition route_of :: "string \<Rightarrow> string \<Rightarrow> route" where
  "route_of m path =
     (let segs = segments path in
      if \<not> clean_path segs then RRedirectTo path
      else case route_method m segs of
        Some r \<Rightarrow> r
      | None \<Rightarrow>
          (case segs of
             [a] \<Rightarrow> if a = ''api'' then RRedirectTo ''/api/''
               else if route_get segs \<noteq> None then RMethodNotAllowed else RNotFound
           | a # _ \<Rightarrow> if a = ''api'' then RUnknownAPI else RNotFound
           | [] \<Rightarrow> RNotFound))"

text \<open>The \<open>{user}\<close> of a route, for the routes that have one.\<close>

fun route_user :: "route \<Rightarrow> string option" where
  "route_user (RConfig u) = Some u"
| "route_user (RDatastore u) = Some u"
| "route_user (RLights u) = Some u"
| "route_user (RLight u _) = Some u"
| "route_user (RSetLightState u _) = Some u"
| "route_user (RGroups u) = Some u"
| "route_user (RGroup u _) = Some u"
| "route_user (RCreateGroup u) = Some u"
| "route_user (RGroupAction u _) = Some u"
| "route_user (RGroupUpdate u _) = Some u"
| "route_user (RCapabilities u) = Some u"
| "route_user (REmptyCollection u) = Some u"
| "route_user _ = None"

definition handleUnknownAPI :: "string \<Rightarrow> string \<Rightarrow> response" where
  "handleUnknownAPI meth path =
     (let a0 = CHR ''/'' # TrimPrefix path ''/api/'';
          address = (case str_IndexByte (drop 1 a0) (CHR ''/'') of None \<Rightarrow> a0 | Some i \<Rightarrow> drop (1 + i) a0)
      in if meth = ''GET'' then writeError 3 address (''resource, '' @ address @ '', not available'')
         else writeError 4 address (''method, '' @ meth @ '', not available for resource, '' @ address))"

section \<open>The high-frequency requests\<close>

definition lights_seg :: string where
  "lights_seg = ''/lights/''"

definition lightStateWriteID :: "string \<Rightarrow> string \<Rightarrow> string option" where
  "lightStateWriteID m path =
     (if m \<noteq> ''PUT'' then None
      else case str_Index path lights_seg of None \<Rightarrow> None
      | Some i \<Rightarrow>
          if \<not> HasSuffix path ''/state'' then None
          else let i' = take (length path - 6 - (i + 8)) (drop (i + 8) path) in
            if i' = [] \<or> Contains i' ''/'' then None else Some i')"

definition lightStateReadID :: "string \<Rightarrow> string \<Rightarrow> string option" where
  "lightStateReadID m path =
     (if m \<noteq> ''GET'' then None
      else case str_Index path lights_seg of None \<Rightarrow> None
      | Some i \<Rightarrow>
          if HasSuffix path ''/state'' then None
          else let i' = drop (i + 8) path in if i' = [] \<or> Contains i' ''/'' then None else Some i')"

definition isGroupActionWrite :: "string \<Rightarrow> string \<Rightarrow> bool" where
  "isGroupActionWrite m path \<longleftrightarrow> m = ''PUT'' \<and> Contains path ''/groups/'' \<and> HasSuffix path ''/action''"

definition IsHighFrequency :: "string \<Rightarrow> string \<Rightarrow> bool" where
  "IsHighFrequency m path \<longleftrightarrow>
     lightStateWriteID m path \<noteq> None \<or> lightStateReadID m path \<noteq> None \<or> isGroupActionWrite m path"

section \<open>Recognising the TV\<close>

text \<open>\<open>net.SplitHostPort\<close>: host and port of an address, \<open>None\<close> when it is malformed.\<close>

definition last_index :: "string \<Rightarrow> char \<Rightarrow> nat option" where
  "last_index s c = map_option (\<lambda>i. length s - 1 - i) (str_IndexByte (rev s) c)"

definition SplitHostPort :: "string \<Rightarrow> (string \<times> string) option" where
  "SplitHostPort s =
     (case last_index s (CHR '':'') of None \<Rightarrow> None
      | Some i \<Rightarrow>
          if s \<noteq> [] \<and> hd s = CHR ''['' then
            (case str_IndexByte s (CHR '']'') of None \<Rightarrow> None
             | Some e \<Rightarrow>
                 if e + 1 \<noteq> i then None
                 else if CHR ''['' \<in> set (drop 1 s) \<or> CHR '']'' \<in> set (drop (e + 1) s) then None
                 else Some (take (e - 1) (drop 1 s), drop (i + 1) s))
          else if CHR '':'' \<in> set (take i s) then None
          else if CHR ''['' \<in> set s \<or> CHR '']'' \<in> set s then None
          else Some (take i s, drop (i + 1) s))"

text \<open>The regular expression \<open>\btpm\d{3}[a-z]*\s+build/\<close>.\<close>

definition word_char :: "char \<Rightarrow> bool" where
  "word_char c \<longleftrightarrow> is_digit c \<or> c = CHR ''_'' \<or> (let n = ord_char c in (65 \<le> n \<and> n \<le> 90) \<or> (97 \<le> n \<and> n \<le> 122))"

definition lower_letter :: "char \<Rightarrow> bool" where
  "lower_letter c \<longleftrightarrow> (let n = ord_char c in 97 \<le> n \<and> n \<le> 122)"

definition re_space :: "char \<Rightarrow> bool" where
  "re_space c \<longleftrightarrow> ord_char c \<in> {9, 10, 12, 13, 32}"

definition tpm_here :: "string \<Rightarrow> bool" where
  "tpm_here s \<longleftrightarrow> HasPrefix s ''tpm'' \<and> length s \<ge> 6 \<and> list_all is_digit (take 3 (drop 3 s))
     \<and> (let r = dropWhile lower_letter (drop 6 s) in
         r \<noteq> [] \<and> re_space (hd r) \<and> HasPrefix (dropWhile re_space r) ''build/'')"

fun tpm_from :: "bool \<Rightarrow> string \<Rightarrow> bool" where
  "tpm_from boundary [] \<longleftrightarrow> False"
| "tpm_from boundary (c # s) \<longleftrightarrow> (boundary \<and> tpm_here (c # s)) \<or> tpm_from (\<not> word_char c) s"

definition tpmPlatform :: "string \<Rightarrow> bool" where
  "tpmPlatform s \<longleftrightarrow> tpm_from True s"

definition isTVRequest :: "string \<Rightarrow> string \<Rightarrow> string \<Rightarrow> bool" where
  "isTVRequest tvip remote agent \<longleftrightarrow>
     (if tvip \<noteq> [] \<and> (case SplitHostPort remote of None \<Rightarrow> False | Some (host, _) \<Rightarrow> host = tvip) then True
      else let ua = ToLower agent in
        Contains ua ''android'' \<and> (Contains ua ''philips'' \<or> Contains ua ''tv'' \<or> tpmPlatform ua))"

section \<open>Bodies of the group requests\<close>

definition member_id :: "string \<Rightarrow> u16 option" where
  "member_id s = (case Atoi (TrimSpace s) of None \<Rightarrow> None
     | Some n \<Rightarrow> if n \<ge> 1 \<and> n \<le> 65535 then Some (of_int n) else None)"

definition parseGroupLights :: "json_body \<Rightarrow> u16 list option" where
  "parseGroupLights body =
     (case bind_opt body (dec_struct (\<lambda>o'. dec_slice dec_string (jfield o' ''lights''))) of
        None \<Rightarrow> None
      | Some ls \<Rightarrow> if ls = [] then None
          else let v1ids = List.map_filter member_id ls in if v1ids = [] then None else Some v1ids)"

definition streamActiveFromBody :: "json_body \<Rightarrow> bool option" where
  "streamActiveFromBody body =
     (case bind_opt body (dec_struct (\<lambda>o'. dec_ptr (dec_struct (\<lambda>q. dec_ptr dec_bool (jfield q ''active'')))
            (jfield o' ''stream''))) of
        None \<Rightarrow> None | Some None \<Rightarrow> None | Some (Some a) \<Rightarrow> a)"

text \<open>\<open>map[string]any\<close>: of several members with one name the last counts.\<close>

definition obj_map :: "obj \<Rightarrow> obj" where
  "obj_map o' = foldl (\<lambda>m (k, v). mput k v m) [] o'"

definition any_map :: "json_body \<Rightarrow> obj option" where
  "any_map body = (case body of Some (GObj o') \<Rightarrow> Some (obj_map o') | Some GNil \<Rightarrow> Some [] | _ \<Rightarrow> None)"

text \<open>A string field of a struct whose decode error is ignored.\<close>

definition loose_string :: "json_body \<Rightarrow> string \<Rightarrow> string" where
  "loose_string body name =
     (case body of Some (GObj o') \<Rightarrow> (case jfield o' name of GStr s \<Rightarrow> s | _ \<Rightarrow> []) | _ \<Rightarrow> [])"

section \<open>Groups\<close>

definition group_member :: "bool \<Rightarrow> (u16, bool) gomap option \<Rightarrow> string \<Rightarrow> int option" where
  "group_member entertainment members i =
     (case Atoi i of None \<Rightarrow> None
      | Some n \<Rightarrow>
          if n < 0 \<or> n > 65535 then None
          else if entertainment \<and> (case members of None \<Rightarrow> False | Some m \<Rightarrow> \<not> setlike m (of_int n)) then None
          else Some n)"

definition groupLightIDs :: "(string, gval) gomap \<Rightarrow> bool \<Rightarrow> (u16, bool) gomap option \<Rightarrow> string list" where
  "groupLightIDs lights entertainment members =
     map Itoa (sort (List.map_filter (group_member entertainment members) (mkeys lights)))"

definition as_map :: "gval \<Rightarrow> obj" where
  "as_map v = (case v of GObj o' \<Rightarrow> o' | _ \<Rightarrow> [])"

definition light_on :: "(string, gval) gomap \<Rightarrow> string \<Rightarrow> bool" where
  "light_on lights i =
     (let l = as_map (oget lights i); st = as_map (oget l ''state'') in
      case oget st ''on'' of GBool b \<Rightarrow> b | _ \<Rightarrow> False)"

definition groupOnState :: "(string, gval) gomap \<Rightarrow> string list \<Rightarrow> bool \<times> bool" where
  "groupOnState lights members =
     foldl (\<lambda>(anyOn, allOn) i. let on = light_on lights i in (anyOn \<or> on, allOn \<and> on))
       (False, members \<noteq> []) members"

definition location_x :: "nat \<Rightarrow> nat \<Rightarrow> real" where
  "location_x n i = (if n > 1 then -1 + 2 * real i / real (n - 1) else 0)"

definition groupLocations :: "string list \<Rightarrow> obj" where
  "groupLocations members =
     foldl (\<lambda>m (i, d). mput d (GFloats [of_int (math_Round (location_x (length members) i * 100)) / 100, 1, 0]) m)
       [] (zip [0..<length members] members)"

definition lightStateSuccess :: "string \<Rightarrow> obj \<Rightarrow> response" where
  "lightStateSuccess i st =
     RespJSON (GArr (map (\<lambda>(k, v). GObj [(''success'', GObj [(''/lights/'' @ i @ ''/state/'' @ k, v)])]) st))"

end
