(* ===== verification/Activity.thy ===== *)
theory Activity
  imports Systems
begin

text \<open>
  The activity tracker of the CLIP v1 server (\<open>internal/clipv1/state.go\<close>, type \<open>activityTracker\<close>) and
  the periodic rollup built from it (\<open>flushActivity\<close> in \<open>server.go\<close>).  Every method is one critical
  section.  The set of touched lights is a list without repetitions.
\<close>

record activityTracker =
  at_lightWrites :: nat
  at_lightsTouched :: "string list"
  at_groupActionWrites :: nat
  at_lightReads :: nat
  at_lastWriteAt :: gotime

definition newActivityTracker :: activityTracker where
  "newActivityTracker = \<lparr>at_lightWrites = 0, at_lightsTouched = [], at_groupActionWrites = 0,
     at_lightReads = 0, at_lastWriteAt = None\<rparr>"

definition recordLightWrite :: "string \<Rightarrow> activityTracker \<Rightarrow> activityTracker" where
  "recordLightWrite i a = a\<lparr>at_lightWrites := at_lightWrites a + 1,
     at_lightsTouched := List.insert i (at_lightsTouched a)\<rparr>"

definition recordGroupActionWrite :: "activityTracker \<Rightarrow> activityTracker" where
  "recordGroupActionWrite a = a\<lparr>at_groupActionWrites := at_groupActionWrites a + 1\<rparr>"

definition recordLightRead :: "activityTracker \<Rightarrow> activityTracker" where
  "recordLightRead a = a\<lparr>at_lightReads := at_lightReads a + 1\<rparr>"

definition markActivity :: "int \<Rightarrow> activityTracker \<Rightarrow> activityTracker" where
  "markActivity now a = a\<lparr>at_lastWriteAt := Some now\<rparr>"

definition idleGapLogFloor :: duration where
  "idleGapLogFloor = second"

text \<open>The result is the gap that is logged when gap tracing is on.\<close>

definition recordWriteTime :: "bool \<Rightarrow> int \<Rightarrow> activityTracker \<Rightarrow> duration option \<times> activityTracker" where
  "recordWriteTime gapTrace now a =
     (let prev = at_lastWriteAt a; a1 = a\<lparr>at_lastWriteAt := Some now\<rparr> in
      case prev of None \<Rightarrow> (None, a1)
      | Some t \<Rightarrow> if gapTrace \<and> now - t \<ge> idleGapLogFloor then (Some (now - t), a1) else (None, a1))"

definition lastActivity :: "activityTracker \<Rightarrow> gotime" where
  "lastActivity a = at_lastWriteAt a"

record activitySnapshot =
  sn_lightWrites :: nat
  sn_groupActionWrites :: nat
  sn_lightReads :: nat
  sn_lights :: nat
  sn_lastWriteAt :: gotime

definition snapshotAndReset :: "activityTracker \<Rightarrow> activitySnapshot \<times> activityTracker" where
  "snapshotAndReset a =
     (\<lparr>sn_lightWrites = at_lightWrites a, sn_groupActionWrites = at_groupActionWrites a,
       sn_lightReads = at_lightReads a, sn_lights = length (at_lightsTouched a), sn_lastWriteAt = at_lastWriteAt a\<rparr>,
      a\<lparr>at_lightWrites := 0, at_groupActionWrites := 0, at_lightReads := 0, at_lightsTouched := []\<rparr>)"

section \<open>The rollup\<close>

definition round1 :: "real \<Rightarrow> real" where
  "round1 v = of_int (math_Round (v * 10)) / 10"

definition Seconds :: "duration \<Rightarrow> real" where
  "Seconds d = of_int d / 1000000000"

text \<open>
  The attributes of the rollup line, \<open>None\<close> when nothing is logged.  Durations are numbers here;
  \<open>since\<close> is the time since the last write, already rounded by \<open>Round\<close>.
\<close>

definition flush_attrs ::
  "duration \<Rightarrow> activitySnapshot \<Rightarrow> string list option \<Rightarrow> duration option \<Rightarrow> (nat \<times> nat) option \<Rightarrow> obj option" where
  "flush_attrs window snap controlled since drain =
     (let writes = sn_lightWrites snap; groupWrites = sn_groupActionWrites snap; lights = sn_lights snap;
          reads = sn_lightReads snap; total = writes + groupWrites
      in if total + reads = 0 then None
         else let secs = Seconds window;
                  perLightHz = (if lights > 0 \<and> secs > 0 then real writes / real lights / secs else 0);
                  totalHz = (if secs > 0 then real total / secs else 0)
              in Some ([(''light_state_writes'', GInt (int writes)), (''group_action_writes'', GInt (int groupWrites)),
                   (''light_reads'', GInt (int reads)), (''lights'', GInt (int lights)), (''window'', GInt64 window),
                   (''total_hz'', GFloat (round1 totalHz)), (''per_light_hz'', GFloat (round1 perLightHz))]
                 @ (if secs > 0 then [(''read_hz'', GFloat (round1 (real reads / secs)))] else [])
                 @ (case controlled of None \<Rightarrow> [] | Some ids \<Rightarrow>
                      [(''active_lights'', GInt (int (length ids))), (''active_light_ids'', GStrs ids)])
                 @ (case since of None \<Rightarrow> [] | Some d \<Rightarrow> [(''since_last_write'', GInt64 d)])
                 @ (case drain of None \<Rightarrow> [] | Some (coalesced, errors) \<Rightarrow>
                      [(''coalesced_frames'', GInt (int coalesced)), (''forward_errors'', GInt (int errors))])))"

section \<open>Runs\<close>

datatype activity_event = ARecordWrite string | ARecordGroup | ARecordRead | AMark int | AFlush

record activity_sys =
  as_tracker :: activityTracker
  as_snaps :: "activitySnapshot list"

fun activity_next :: "activity_sys \<Rightarrow> activity_event \<Rightarrow> activity_sys" where
  "activity_next y (ARecordWrite i) = y\<lparr>as_tracker := recordLightWrite i (as_tracker y)\<rparr>"
| "activity_next y ARecordGroup = y\<lparr>as_tracker := recordGroupActionWrite (as_tracker y)\<rparr>"
| "activity_next y ARecordRead = y\<lparr>as_tracker := recordLightRead (as_tracker y)\<rparr>"
| "activity_next y (AMark now) = y\<lparr>as_tracker := markActivity now (as_tracker y)\<rparr>"
| "activity_next y AFlush = (case snapshotAndReset (as_tracker y) of (snap, a) \<Rightarrow>
     y\<lparr>as_tracker := a, as_snaps := as_snaps y @ [snap]\<rparr>)"

definition activity_step :: "activity_sys \<Rightarrow> activity_event \<Rightarrow> activity_sys \<Rightarrow> bool" where
  "activity_step y e y' \<longleftrightarrow> y' = activity_next y e"

definition activity_init :: "activity_sys \<Rightarrow> bool" where
  "activity_init y \<longleftrightarrow> y = \<lparr>as_tracker = newActivityTracker, as_snaps = []\<rparr>"

definition activity_inv :: "activity_sys \<Rightarrow> bool" where
  "activity_inv y \<longleftrightarrow> distinct (at_lightsTouched (as_tracker y))
     \<and> length (at_lightsTouched (as_tracker y)) \<le> at_lightWrites (as_tracker y)
     \<and> (\<forall>snap \<in> set (as_snaps y). sn_lights snap \<le> sn_lightWrites snap)"

fun is_write :: "activity_event \<Rightarrow> bool" where
  "is_write (ARecordWrite _) = True"
| "is_write _ = False"

text \<open>Every record is in exactly one snapshot or still in the tracker.\<close>

definition activity_hist :: "activity_sys \<Rightarrow> activity_event list \<Rightarrow> activity_sys \<Rightarrow> bool" where
  "activity_hist y0 es y \<longleftrightarrow>
     (\<Sum>snap \<leftarrow> as_snaps y. sn_lightWrites snap) + at_lightWrites (as_tracker y) = length (filter is_write es)
     \<and> (\<Sum>snap \<leftarrow> as_snaps y. sn_groupActionWrites snap) + at_groupActionWrites (as_tracker y) = count_list es ARecordGroup
     \<and> (\<Sum>snap \<leftarrow> as_snaps y. sn_lightReads snap) + at_lightReads (as_tracker y) = count_list es ARecordRead"

lemmas activity_defs = recordLightWrite_def recordGroupActionWrite_def recordLightRead_def markActivity_def
  snapshotAndReset_def activity_step_def

lemma activity_inv_init: "activity_init y \<Longrightarrow> activity_inv y"
  by (simp add: activity_init_def activity_inv_def newActivityTracker_def)

lemma activity_inv_step: "activity_inv y \<Longrightarrow> activity_step y e y' \<Longrightarrow> activity_inv y'"
  by (cases e) (auto simp: activity_inv_def activity_defs List.insert_def)

lemma activity_hist_init: "activity_init y \<Longrightarrow> activity_hist y [] y"
  by (simp add: activity_init_def activity_hist_def newActivityTracker_def)

lemma activity_hist_step: "activity_hist y0 es y \<Longrightarrow> activity_step y e y' \<Longrightarrow> activity_hist y0 (es @ [e]) y'"
  by (cases e) (simp_all add: activity_hist_def activity_defs)

interpretation activity: history_system activity_init activity_step activity_inv activity_hist
  by unfold_locales (auto intro: activity_inv_init activity_inv_step activity_hist_init activity_hist_step)

section \<open>Property\<close>

text \<open>
  The activity rollup neither loses nor double-counts a request, however the requests interleave
  with the flushes: for every kind the snapshots taken so far and the tracker together hold exactly
  the recorded requests, and no window reports more lights than writes.
\<close>

theorem activity_conserved:
  assumes "run activity_step \<lparr>as_tracker = newActivityTracker, as_snaps = []\<rparr> es y"
  shows "(\<Sum>snap \<leftarrow> as_snaps y. sn_lightWrites snap) + at_lightWrites (as_tracker y) = length (filter is_write es)
    \<and> (\<Sum>snap \<leftarrow> as_snaps y. sn_groupActionWrites snap) + at_groupActionWrites (as_tracker y) = count_list es ARecordGroup
    \<and> (\<Sum>snap \<leftarrow> as_snaps y. sn_lightReads snap) + at_lightReads (as_tracker y) = count_list es ARecordRead
    \<and> (\<forall>snap \<in> set (as_snaps y). sn_lights snap \<le> sn_lightWrites snap)"
  using activity.reachable_hist [OF assms] activity.reachable_inv [OF _ assms]
  by (simp add: activity_init_def activity_hist_def activity_inv_def)

lemma activity_conserved_witness:
  "\<exists>y. run activity_step \<lparr>as_tracker = newActivityTracker, as_snaps = []\<rparr>
     [ARecordWrite ''3'', AFlush, ARecordWrite ''3'', ARecordRead] y \<and> at_lightWrites (as_tracker y) = 1
     \<and> (\<Sum>snap \<leftarrow> as_snaps y. sn_lightWrites snap) = 1"
proof -
  let ?es = "[ARecordWrite ''3'', AFlush, ARecordWrite ''3'', ARecordRead]"
  obtain y where y: "exec (\<lambda>y e. Some (activity_next y e)) \<lparr>as_tracker = newActivityTracker, as_snaps = []\<rparr> ?es = Some y"
    by simp
  have r: "run activity_step \<lparr>as_tracker = newActivityTracker, as_snaps = []\<rparr> ?es y"
    by (rule exec_run [OF y]) (simp add: activity_step_def)
  have "at_lightWrites (as_tracker y) = 1" using y by (auto simp: activity_defs newActivityTracker_def)
  with activity_conserved [OF r] r show ?thesis by (intro exI [of _ y]) auto
qed

end
