(* ===== verification/ClipServer.thy ===== *)
theory ClipServer
  imports ClipHttp Activity Provider Upnp
begin

text \<open>
  The CLIP v1 server the TV talks to (\<open>internal/clipv1/server.go\<close>, \<open>uistatus.go\<close>): its state and its
  request handlers, with the light provider of the backend (\<open>Provider\<close>), the entertainment stream
  state (\<open>StreamState\<close>), the activity tracker (\<open>Activity\<close>) and the configuration (\<open>ConfigStore\<close>).

  A handler is a function from the state before the request to the response and the state after it.
  What the outside world contributes to one request is its \<open>env\<close>: the time, the answer of the Pro
  should a light list be fetched, the random bytes, how the file system treats a save.  The hooks
  \<open>OnGroupMembers\<close>, \<open>OnRESTControl\<close>, \<open>OnDescriptorFetch\<close> and \<open>OnPair\<close> are recorded in the state.
  \<open>SetLightV1\<close> of the provider never fails.
\<close>

section \<open>State\<close>

record clip_env =
  en_now :: int
  en_pro :: "pro_error + Light list"
  en_user :: "nat list"
  en_key :: "nat list"
  en_write :: writer
  en_ifaces :: "Interface list option"
  en_gapTrace :: bool

record clip_server =
  cv_cfg :: Config
  cv_file :: file_state
  cv_advIP :: string
  cv_httpPort :: int
  cv_started :: int
  cv_lights :: "Provider option"
  cv_lightsClosed :: bool
  cv_Debug :: bool
  cv_TVIP :: string
  cv_EntertainmentMode :: bool
  cv_activity :: activityTracker
  cv_stream :: streamState
  cv_reqMembers :: "(u16, bool) gomap option"
  cv_pushed :: "u16 list list"
  cv_restCalls :: nat
  cv_fetches :: nat
  cv_paired :: nat

definition New :: "Config \<Rightarrow> file_state \<Rightarrow> string \<Rightarrow> int \<Rightarrow> int \<Rightarrow> clip_server" where
  "New cfg file advIP httpPort now =
     \<lparr>cv_cfg = cfg, cv_file = file, cv_advIP = advIP, cv_httpPort = httpPort, cv_started = now,
      cv_lights = None, cv_lightsClosed = False, cv_Debug = False, cv_TVIP = [], cv_EntertainmentMode = False,
      cv_activity = newActivityTracker, cv_stream = newStreamState defaultDTLSFallbackTimeout,
      cv_reqMembers = None, cv_pushed = [], cv_restCalls = 0, cv_fetches = 0, cv_paired = 0\<rparr>"

definition SetDTLSFallbackTimeout :: "duration \<Rightarrow> clip_server \<Rightarrow> clip_server" where
  "SetDTLSFallbackTimeout d s = s\<lparr>cv_stream := setFallbackTimeout d (cv_stream s)\<rparr>"

definition SetDTLSFallbackRecovery :: "duration \<Rightarrow> clip_server \<Rightarrow> clip_server" where
  "SetDTLSFallbackRecovery d s = s\<lparr>cv_stream := setRecoveryCooldown d (cv_stream s)\<rparr>"

definition confirmsEntertainment :: "clip_server \<Rightarrow> bool" where
  "confirmsEntertainment s \<longleftrightarrow> cv_EntertainmentMode s \<and> \<not> inFallback (cv_stream s)"

definition MarkDTLSStreamUp :: "clip_server \<Rightarrow> clip_server" where
  "MarkDTLSStreamUp s = s\<lparr>cv_stream := snd (markStreamUp (cv_stream s))\<rparr>"

definition MarkDTLSStreamDown :: "clip_server \<Rightarrow> clip_server" where
  "MarkDTLSStreamDown s = s\<lparr>cv_stream := snd (markStreamDown (cv_stream s))\<rparr>"

definition MarkActivity :: "int \<Rightarrow> clip_server \<Rightarrow> clip_server" where
  "MarkActivity now s = s\<lparr>cv_activity := markActivity now (cv_activity s)\<rparr>"

definition LastActivity :: "clip_server \<Rightarrow> gotime" where
  "LastActivity s = lastActivity (cv_activity s)"

section \<open>The light provider of the server\<close>

definition SetLightProvider :: "Provider option \<Rightarrow> clip_server \<Rightarrow> clip_server" where
  "SetLightProvider p s =
     s\<lparr>cv_lights := (if cv_lightsClosed s then map_option (\<lambda>q. snd (provider_Close q)) p else p)\<rparr>"

definition ForwardLight :: "string \<Rightarrow> obj \<Rightarrow> clip_server \<Rightarrow> clip_server" where
  "ForwardLight i st s =
     (case cv_lights s of None \<Rightarrow> s | Some p \<Rightarrow> s\<lparr>cv_lights := Some (snd (SetLightV1 i st p))\<rparr>)"

text \<open>\<open>CloseLightWrites\<close>: the result says whether a drain has to be waited for.\<close>

definition CloseLightWrites :: "clip_server \<Rightarrow> bool \<times> clip_server" where
  "CloseLightWrites s =
     (let s1 = s\<lparr>cv_lightsClosed := True\<rparr> in
      case cv_lights s1 of None \<Rightarrow> (False, s1)
      | Some p \<Rightarrow> (case provider_Close p of (wait, q) \<Rightarrow> (wait, s1\<lparr>cv_lights := Some q\<rparr>)))"

text \<open>\<open>lightsV1\<close>: nothing when no backend is paired or the read fails.\<close>

definition server_lightsV1 :: "clip_env \<Rightarrow> clip_server \<Rightarrow> (string, gval) gomap \<times> clip_server" where
  "server_lightsV1 e s =
     (case cv_lights s of None \<Rightarrow> ([], s)
      | Some p \<Rightarrow> (case provider_LightsV1 (en_pro e) (en_now e) p of (r, q) \<Rightarrow>
          (case r of Inl _ \<Rightarrow> [] | Inr m \<Rightarrow> m, s\<lparr>cv_lights := Some q\<rparr>)))"

definition cachedLightsV1 :: "clip_server \<Rightarrow> (string, gval) gomap" where
  "cachedLightsV1 s =
     (case cv_lights s of None \<Rightarrow> []
      | Some p \<Rightarrow> (case CachedLightsV1 p of None \<Rightarrow> [] | Some m \<Rightarrow> m))"

definition setRequestedMembers :: "u16 list \<Rightarrow> clip_server \<Rightarrow> clip_server" where
  "setRequestedMembers v1ids s =
     s\<lparr>cv_reqMembers := Some (set_of_ids v1ids), cv_pushed := cv_pushed s @ [v1ids]\<rparr>"

definition AllowsMember :: "clip_server \<Rightarrow> u16 \<Rightarrow> bool" where
  "AllowsMember s v1id = (case cv_reqMembers s of None \<Rightarrow> True | Some m \<Rightarrow> setlike m v1id)"

text \<open>The gate both write handlers apply to a v1 id: an id that is no number passes it.\<close>

definition off_zone :: "clip_server \<Rightarrow> string \<Rightarrow> bool" where
  "off_zone s i = (case Atoi i of None \<Rightarrow> False
     | Some n \<Rightarrow> n < 0 \<or> n > 65535 \<or> \<not> AllowsMember s (of_int n))"

section \<open>Pairing and configuration\<close>

definition randomHex :: "nat list \<Rightarrow> string" where
  "randomHex b = hex_EncodeToString b"

definition pairing_request :: "json_body \<Rightarrow> (string \<times> bool) option" where
  "pairing_request body = bind_opt body (dec_struct (\<lambda>o'.
     bind_opt (dec_string (jfield o' ''devicetype'')) (\<lambda>d.
     bind_opt (dec_bool (jfield o' ''generateclientkey'')) (\<lambda>b. Some (d, b)))))"

definition server_isTV :: "request \<Rightarrow> clip_server \<Rightarrow> bool" where
  "server_isTV rq s = isTVRequest (cv_TVIP s) (rq_remote rq) (rq_ua rq)"

definition credentials :: "APIUser \<Rightarrow> response" where
  "credentials u = success ([(''username'', GStr (au_Username u))]
     @ (if au_ClientKey u \<noteq> [] then [(''clientkey'', GStr (au_ClientKey u))] else []))"

definition handlePairing :: "request \<Rightarrow> json_body \<Rightarrow> clip_env \<Rightarrow> clip_server \<Rightarrow> response \<times> clip_server" where
  "handlePairing rq body e s =
     (case pairing_request body of
        None \<Rightarrow> (writeError 2 ''/'' ''body contains invalid json'', s)
      | Some (deviceType, generateClientKey) \<Rightarrow>
          if \<not> server_isTV rq s then (writeError 101 [] ''link button not pressed'', s)
          else (case APIUserByDeviceType (cv_cfg s) deviceType of
              Some existing \<Rightarrow> (credentials existing, s)
            | None \<Rightarrow>
                let user = \<lparr>au_Username = randomHex (en_user e), au_DeviceType = deviceType,
                      au_ClientKey = (if generateClientKey then ToUpper (randomHex (en_key e)) else [])\<rparr>
                in (case AddAPIUser (en_write e) user (cv_cfg s) (cv_file s) of (err, cfg, file) \<Rightarrow>
                   let s1 = s\<lparr>cv_cfg := cfg, cv_file := file\<rparr> in
                   if err \<noteq> None then (writeError 901 ''/'' ''internal error'', s1)
                   else (success ([(''username'', GStr (au_Username user))]
                       @ (if generateClientKey then [(''clientkey'', GStr (au_ClientKey user))] else [])),
                     s1\<lparr>cv_paired := cv_paired s1 + 1\<rparr>))))"

definition handleDescription :: "request \<Rightarrow> clip_server \<Rightarrow> response \<times> clip_server" where
  "handleDescription rq s =
     (let s1 = (if server_isTV rq s then s\<lparr>cv_fetches := cv_fetches s + 1\<rparr> else s) in
      (case Render (cf_Identity (cv_cfg s1)) (cv_advIP s1) (cv_httpPort s1) of
         None \<Rightarrow> RespPanic | Some xml \<Rightarrow> RespXML xml, s1))"

definition shortConfig :: "clip_server \<Rightarrow> obj option" where
  "shortConfig s =
     (let i = cf_Identity (cv_cfg s) in
      case BridgeID i of None \<Rightarrow> None
      | Some bid \<Rightarrow> Some
          [(''name'', GStr (''relume-tv-'' @ suffix6 bid)), (''datastoreversion'', GStr ''131''),
           (''swversion'', GStr ''1967054020''), (''apiversion'', GStr ''1.67.0''), (''mac'', GStr (MAC i)),
           (''bridgeid'', GStr bid), (''factorynew'', GBool False), (''replacesbridgeid'', GNil),
           (''modelid'', GStr ''BSB002''), (''starterkitid'', GStr '''')])"

text \<open>\<open>time.Format\<close> of a UTC time in whole seconds as \<open>2006-01-02T15:04:05\<close>: days to a civil date.\<close>

definition pad2 :: "int \<Rightarrow> string" where
  "pad2 n = (if n < 10 then ''0'' @ itoa_nat (nat n) else itoa_nat (nat n))"

definition civil :: "int \<Rightarrow> int \<times> int \<times> int" where
  "civil days =
     (let z = days + 719468; era = z div 146097; doe = z mod 146097;
          yoe = (doe - doe div 1460 + doe div 36524 - doe div 146096) div 365;
          doy = doe - (365 * yoe + yoe div 4 - yoe div 100);
          mp = (5 * doy + 2) div 153;
          d = doy - (153 * mp + 2) div 5 + 1;
          m = (if mp < 10 then mp + 3 else mp - 9);
          y = yoe + era * 400
      in (if m \<le> 2 then y + 1 else y, m, d))"

definition stamp :: "int \<Rightarrow> string" where
  "stamp now =
     (let secs = now div 1000000000; (y, m, d) = civil (secs div 86400); r = secs mod 86400 in
      itoa_nat (nat y) @ ''-'' @ pad2 m @ ''-'' @ pad2 d @ ''T'' @ pad2 (r div 3600) @ '':''
        @ pad2 (r mod 3600 div 60) @ '':'' @ pad2 (r mod 60))"

definition network_mask :: "clip_env \<Rightarrow> string \<Rightarrow> u8 list option \<Rightarrow> u8 list" where
  "network_mask e advIP ip =
     (case (InterfaceForIP (en_ifaces e) advIP, ip) of
        (Some iface, Some a) \<Rightarrow>
          (case if_Addrs iface of None \<Rightarrow> [255, 255, 255, 0]
           | Some addrs \<Rightarrow> foldl (\<lambda>m (x, xm). if x = a \<and> length xm = 4 then xm else m) [255, 255, 255, 0] addrs)
      | _ \<Rightarrow> [255, 255, 255, 0])"

definition network :: "clip_env \<Rightarrow> string \<Rightarrow> string \<times> string" where
  "network e advIP =
     (let ip = ParseIPv4 advIP; mask = network_mask e advIP ip; netmask = IPv4_String mask in
      case ip of None \<Rightarrow> (netmask, [])
      | Some a \<Rightarrow> let gw = map2 (AND) a mask in (netmask, IPv4_String (gw[3 := gw ! 3 + 1])))"

definition whitelist :: "string \<Rightarrow> string \<Rightarrow> APIUser list \<Rightarrow> obj" where
  "whitelist now started us =
     foldl (\<lambda>m u. mput (au_Username u) (GObj [(''last use date'', GStr now), (''create date'', GStr started),
       (''name'', GStr (au_DeviceType u))]) m) [] us"

definition fullConfig :: "clip_env \<Rightarrow> clip_server \<Rightarrow> obj option" where
  "fullConfig e s =
     (case shortConfig s of None \<Rightarrow> None
      | Some c \<Rightarrow>
          let now = stamp (en_now e); started = stamp (cv_started s);
              (netmask, gateway) = network e (cv_advIP s)
          in Some (c @
            [(''whitelist'', GObj (whitelist now started (APIUsersSnapshot (cv_cfg s)))),
             (''UTC'', GStr now), (''localtime'', GStr now), (''timezone'', GStr ''Etc/UTC''),
             (''linkbutton'', GBool False), (''zigbeechannel'', GInt 25), (''ipaddress'', GStr (cv_advIP s)),
             (''netmask'', GStr netmask), (''gateway'', GStr gateway), (''dhcp'', GBool True),
             (''proxyaddress'', GStr ''none''), (''proxyport'', GInt 0), (''portalservices'', GBool False),
             (''portalconnection'', GStr ''disconnected''),
             (''portalstate'', GObj [(''signedon'', GBool False), (''incoming'', GBool False),
                (''outgoing'', GBool False), (''communication'', GStr ''disconnected'')]),
             (''internetservices'', GObj [(''internet'', GStr ''disconnected''),
                (''remoteaccess'', GStr ''disconnected''), (''time'', GStr ''disconnected''),
                (''swupdate'', GStr ''disconnected'')]),
             (''swupdate2'', GObj [(''checkforupdate'', GBool False), (''lastchange'', GStr started),
                (''state'', GStr ''noupdates''),
                (''bridge'', GObj [(''state'', GStr ''noupdates''), (''lastinstall'', GStr started)]),
                (''autoinstall'', GObj [(''updatetime'', GStr ''T14:00:00''), (''on'', GBool False)])]),
             (''backup'', GObj [(''status'', GStr ''idle''), (''errorcode'', GInt 0)])]))"

definition json_or_panic :: "obj option \<Rightarrow> response" where
  "json_or_panic c = (case c of None \<Rightarrow> RespPanic | Some o' \<Rightarrow> RespJSON (GObj o'))"

section \<open>Lights\<close>

text \<open>\<open>authorized\<close>: the request goes on, or the error is the response.\<close>

definition authorized :: "request \<Rightarrow> string \<Rightarrow> clip_server \<Rightarrow> bool" where
  "authorized rq user s \<longleftrightarrow> HasAPIUser (cv_cfg s) user"

definition unauthorized :: "request \<Rightarrow> response" where
  "unauthorized rq = writeError 1 (CHR ''/'' # TrimPrefix (rq_path rq) ''/api/'') ''unauthorized user''"

definition light_unavailable :: "string \<Rightarrow> response" where
  "light_unavailable i = writeError 3 (''/lights/'' @ i) (''resource, /lights/'' @ i @ '', not available'')"

definition handleLights :: "clip_env \<Rightarrow> clip_server \<Rightarrow> response \<times> clip_server" where
  "handleLights e s = (case server_lightsV1 e s of (m, s1) \<Rightarrow> (RespJSON (GObj m), s1))"

definition handleLight :: "string \<Rightarrow> clip_env \<Rightarrow> clip_server \<Rightarrow> response \<times> clip_server" where
  "handleLight i e s =
     (case cv_lights s of
        None \<Rightarrow> (light_unavailable i, s)
      | Some p \<Rightarrow> (case provider_LightsV1 (en_pro e) (en_now e) p of (r, q) \<Rightarrow>
          (case r of
             Inl _ \<Rightarrow> writeError 901 (''/lights/'' @ i) ''hue bridge pro error''
           | Inr m \<Rightarrow> (case mget m i of None \<Rightarrow> light_unavailable i | Some l \<Rightarrow> RespJSON l),
           s\<lparr>cv_lights := Some q\<rparr>)))"

definition note_rest :: "clip_server \<Rightarrow> clip_server" where
  "note_rest s = (if cv_EntertainmentMode s then s\<lparr>cv_stream := snd (noteRESTDriving (cv_stream s))\<rparr> else s)"

definition handleSetLightState :: "string \<Rightarrow> json_body \<Rightarrow> clip_env \<Rightarrow> clip_server \<Rightarrow> response \<times> clip_server" where
  "handleSetLightState i body e s =
     (case any_map body of
        None \<Rightarrow> (writeError 2 (''/lights/'' @ i @ ''/state'') ''invalid json'', s)
      | Some st \<Rightarrow>
          (case cv_lights s of
             None \<Rightarrow> (writeError 3 (''/lights/'' @ i) ''no hue bridge pro paired'', s)
           | Some p \<Rightarrow>
               if off_zone s i then (lightStateSuccess i st, s)
               else let s1 = s\<lparr>cv_activity := snd (recordWriteTime (en_gapTrace e) (en_now e) (cv_activity s))\<rparr>;
                        s2 = s1\<lparr>cv_restCalls := cv_restCalls s1 + 1\<rparr>;
                        s3 = note_rest s2
                    in (lightStateSuccess i st, s3\<lparr>cv_lights := Some (snd (SetLightV1 i st p))\<rparr>)))"

section \<open>Groups\<close>

definition bridgeGroup :: "string \<Rightarrow> (string, gval) gomap \<Rightarrow> clip_server \<Rightarrow> obj" where
  "bridgeGroup i lights s =
     (let members = groupLightIDs lights (i = ''1'') (cv_reqMembers s);
          (streamActive, owner) = (if confirmsEntertainment s \<and> i = ''1'' then stream_snapshot (cv_stream s) else (False, []));
          (anyOn, allOn) = groupOnState lights members
      in [(''name'', GStr (if i = ''0'' then ''Group 0'' else ''relume-tv Entertainment'')),
          (''lights'', GStrs members), (''sensors'', GStrs []),
          (''type'', GStr (if i = ''0'' then ''LightGroup'' else ''Entertainment'')),
          (''state'', GObj [(''all_on'', GBool allOn), (''any_on'', GBool anyOn)]),
          (''recycle'', GBool False),
          (''action'', GObj [(''on'', GBool anyOn), (''bri'', GInt 254), (''hue'', GInt 0), (''sat'', GInt 0),
             (''effect'', GStr ''none''), (''xy'', GFloats [3127 / 10000, 329 / 1000]), (''ct'', GInt 153),
             (''alert'', GStr ''none''), (''colormode'', GStr ''xy'')])]
        @ (if i = ''1'' then [(''class'', GStr ''TV''), (''locations'', GObj (groupLocations members)),
             (''stream'', GObj [(''active'', GBool streamActive), (''owner'', if owner \<noteq> [] then GStr owner else GNil),
                (''proxymode'', GStr ''auto''), (''proxynode'', GStr ''/bridge'')])]
           else []))"

definition groupsV1 :: "clip_server \<Rightarrow> obj" where
  "groupsV1 s = [(''0'', GObj (bridgeGroup ''0'' (cachedLightsV1 s) s)), (''1'', GObj (bridgeGroup ''1'' (cachedLightsV1 s) s))]"

definition handleDatastore :: "clip_env \<Rightarrow> clip_server \<Rightarrow> response \<times> clip_server" where
  "handleDatastore e s =
     (case server_lightsV1 e s of (m, s1) \<Rightarrow>
        (case shortConfig s1 of None \<Rightarrow> RespPanic
         | Some c \<Rightarrow> RespJSON (GObj [(''lights'', GObj m), (''groups'', GObj (groupsV1 s1)), (''config'', GObj c),
             (''schedules'', GObj []), (''scenes'', GObj []), (''rules'', GObj []), (''sensors'', GObj []),
             (''resourcelinks'', GObj [])]), s1))"

definition handleGroup :: "string \<Rightarrow> clip_server \<Rightarrow> response" where
  "handleGroup i s =
     (if i \<noteq> ''0'' \<and> i \<noteq> ''1'' then writeError 3 (''/groups/'' @ i) (''resource, /groups/'' @ i @ '', not available'')
      else RespJSON (GObj (bridgeGroup i (cachedLightsV1 s) s)))"

definition handleCreateGroup :: "json_body \<Rightarrow> clip_server \<Rightarrow> response \<times> clip_server" where
  "handleCreateGroup body s =
     (success [(''id'', GStr ''1'')],
      if loose_string body ''type'' = ''Entertainment''
      then (case parseGroupLights body of None \<Rightarrow> s | Some ids \<Rightarrow> setRequestedMembers ids s) else s)"

definition forward_all :: "obj \<Rightarrow> string list \<Rightarrow> clip_server \<Rightarrow> nat \<times> clip_server" where
  "forward_all action ids s =
     foldl (\<lambda>(n, t) i. if off_zone t i then (n, t) else (n + 1, ForwardLight i action t)) (0, s) ids"

text \<open>The number of lights the action was forwarded to is only logged.\<close>

definition handleGroupAction :: "string \<Rightarrow> json_body \<Rightarrow> clip_env \<Rightarrow> clip_server \<Rightarrow> response \<times> clip_server" where
  "handleGroupAction i body e s =
     (let action = (case any_map body of None \<Rightarrow> [] | Some a \<Rightarrow> a);
          s3 = (if action \<noteq> []
                then (let s1 = s\<lparr>cv_restCalls := cv_restCalls s + 1\<rparr>; (m, s2) = server_lightsV1 e s1
                      in snd (forward_all action (mkeys m) s2))
                else s)
      in (success [(''/groups/'' @ i @ ''/action'', GStr ''ok'')], s3))"

definition set_activation :: "bool \<Rightarrow> string \<Rightarrow> int \<Rightarrow> clip_server \<Rightarrow> clip_server" where
  "set_activation active user now s =
     (let st = setActive active user (cv_stream s) in
      s\<lparr>cv_stream := (if active then armWatchdog (cv_EntertainmentMode s) now st else disarmWatchdog st)\<rparr>)"

definition handleGroupUpdate :: "string \<Rightarrow> string \<Rightarrow> json_body \<Rightarrow> clip_env \<Rightarrow> clip_server \<Rightarrow> response \<times> clip_server" where
  "handleGroupUpdate user i body e s =
     (let s1 = (if i = ''1'' then (case parseGroupLights body of None \<Rightarrow> s | Some ids \<Rightarrow> setRequestedMembers ids s) else s);
          s2 = (if cv_EntertainmentMode s1 \<and> streamActiveFromBody body = Some True
                then s1\<lparr>cv_stream := snd (tryRecoverFallback (en_now e) (cv_stream s1))\<rparr> else s1);
          generic = success [(''/groups/'' @ i, GStr ''ok'')]
      in if confirmsEntertainment s2
         then (case streamActiveFromBody body of
                 Some active \<Rightarrow> (success [(''/groups/'' @ i @ ''/stream/active'', GBool active)],
                   set_activation active user (en_now e) s2)
               | None \<Rightarrow> (generic, s2))
         else (generic, s2))"

definition avail :: "int \<Rightarrow> int \<Rightarrow> gval" where
  "avail n cap = GObj [(''available'', GInt n), (''total'', GInt cap)]"

definition capabilities :: response where
  "capabilities = RespJSON (GObj [(''lights'', avail 60 63), (''sensors'', avail 240 250), (''groups'', avail 60 64),
     (''scenes'', avail 172 200), (''rules'', avail 233 250), (''schedules'', avail 95 100),
     (''resourcelinks'', avail 59 64),
     (''streaming'', GObj [(''available'', GInt 1), (''total'', GInt 1), (''channels'', GInt 20)]),
     (''timezones'', GObj [(''values'', GStrs [''Etc/UTC''])])])"

section \<open>Serving a request\<close>

text \<open>\<open>logRequests\<close>: outside debug mode the high-frequency requests are counted.\<close>

definition count_request :: "request \<Rightarrow> clip_server \<Rightarrow> clip_server" where
  "count_request rq s =
     (if cv_Debug s then s
      else case lightStateWriteID (rq_method rq) (rq_path rq) of
        Some i \<Rightarrow> s\<lparr>cv_activity := recordLightWrite i (cv_activity s)\<rparr>
      | None \<Rightarrow>
          if isGroupActionWrite (rq_method rq) (rq_path rq) then s\<lparr>cv_activity := recordGroupActionWrite (cv_activity s)\<rparr>
          else if lightStateReadID (rq_method rq) (rq_path rq) \<noteq> None then s\<lparr>cv_activity := recordLightRead (cv_activity s)\<rparr>
          else s)"

definition request_body :: "request \<Rightarrow> clip_server \<Rightarrow> json_body" where
  "request_body rq s = (if cv_Debug s then rq_body4k rq else rq_body rq)"

text \<open>The handlers that only answer from the state, behind the check of the user name.\<close>

definition handleShortConfig :: "clip_server \<Rightarrow> response \<times> clip_server" where [simp]:
  "handleShortConfig s = (json_or_panic (shortConfig s), s)"

definition handleConfig :: "string \<Rightarrow> request \<Rightarrow> clip_env \<Rightarrow> clip_server \<Rightarrow> response \<times> clip_server" where [simp]:
  "handleConfig u rq e s = (if authorized rq u s then (json_or_panic (fullConfig e s), s) else (unauthorized rq, s))"

definition handleGroups :: "string \<Rightarrow> request \<Rightarrow> clip_server \<Rightarrow> response \<times> clip_server" where [simp]:
  "handleGroups u rq s = (if authorized rq u s then (RespJSON (GObj (groupsV1 s)), s) else (unauthorized rq, s))"

definition handleEmptyCollection :: "string \<Rightarrow> request \<Rightarrow> clip_server \<Rightarrow> response \<times> clip_server" where [simp]:
  "handleEmptyCollection u rq s = (if authorized rq u s then (RespJSON (GObj []), s) else (unauthorized rq, s))"

fun handle :: "route \<Rightarrow> request \<Rightarrow> json_body \<Rightarrow> clip_env \<Rightarrow> clip_server \<Rightarrow> response \<times> clip_server" where
  "handle RDescription rq body e s = handleDescription rq s"
| "handle RPairing rq body e s = handlePairing rq body e s"
| "handle RShortConfig rq body e s = handleShortConfig s"
| "handle (RConfig u) rq body e s = handleConfig u rq e s"
| "handle (RDatastore u) rq body e s = (if authorized rq u s then handleDatastore e s else (unauthorized rq, s))"
| "handle (RLights u) rq body e s = (if authorized rq u s then handleLights e s else (unauthorized rq, s))"
| "handle (RLight u i) rq body e s = (if authorized rq u s then handleLight i e s else (unauthorized rq, s))"
| "handle (RSetLightState u i) rq body e s = (if authorized rq u s then handleSetLightState i body e s else (unauthorized rq, s))"
| "handle (RGroups u) rq body e s = handleGroups u rq s"
| "handle (RGroup u i) rq body e s = (if authorized rq u s then (handleGroup i s, s) else (unauthorized rq, s))"
| "handle (RCreateGroup u) rq body e s = (if authorized rq u s then handleCreateGroup body s else (unauthorized rq, s))"
| "handle (RGroupAction u i) rq body e s = (if authorized rq u s then handleGroupAction i body e s else (unauthorized rq, s))"
| "handle (RGroupUpdate u i) rq body e s = (if authorized rq u s then handleGroupUpdate u i body e s else (unauthorized rq, s))"
| "handle (RCapabilities u) rq body e s = (if authorized rq u s then (capabilities, s) else (unauthorized rq, s))"
| "handle (REmptyCollection u) rq body e s = handleEmptyCollection u rq s"
| "handle RUnknownAPI rq body e s = (handleUnknownAPI (rq_method rq) (rq_path rq), s)"
| "handle (RRedirectTo p) rq body e s = (RespRedirect p, s)"
| "handle RNotFound rq body e s = (RespStatus 404, s)"
| "handle RMethodNotAllowed rq body e s = (RespStatus 405, s)"

definition serve :: "request \<Rightarrow> clip_env \<Rightarrow> clip_server \<Rightarrow> response \<times> clip_server" where
  "serve rq e s = handle (route_of (rq_method rq) (rq_path rq)) rq (request_body rq s) e (count_request rq s)"

section \<open>The activity rollup and the state the web UI reads\<close>

definition flushActivity ::
  "duration \<Rightarrow> string list option \<Rightarrow> (int \<Rightarrow> duration) \<Rightarrow> int \<Rightarrow> clip_server \<Rightarrow> obj option \<times> clip_server" where
  "flushActivity window controlled rounded now s =
     (case snapshotAndReset (cv_activity s) of (snap, a) \<Rightarrow>
        let s1 = s\<lparr>cv_activity := a\<rparr> in
        if sn_lightWrites snap + sn_groupActionWrites snap + sn_lightReads snap = 0 then (None, s1)
        else let since = map_option (\<lambda>t. rounded (now - t)) (sn_lastWriteAt snap) in
          (case cv_lights s1 of
             None \<Rightarrow> (flush_attrs window snap controlled since None, s1)
           | Some p \<Rightarrow> (case DrainStatsDelta p of (d, q) \<Rightarrow>
               (flush_attrs window snap controlled since (Some d), s1\<lparr>cv_lights := Some q\<rparr>))))"

definition InFallback :: "clip_server \<Rightarrow> bool" where
  "InFallback s \<longleftrightarrow> cv_EntertainmentMode s \<and> inFallback (cv_stream s)"

definition UIStatus :: "clip_server \<Rightarrow> string \<times> bool \<times> bool" where
  "UIStatus s =
     (let fb = inFallback (cv_stream s); dtlsUp = isUp (cv_stream s) in
      (if cv_EntertainmentMode s \<and> \<not> fb then ''entertainment'' else ''rest'', dtlsUp, cv_EntertainmentMode s \<and> fb))"

definition LightsV1Snapshot :: "clip_env \<Rightarrow> clip_server \<Rightarrow> (string, gval) gomap option \<times> clip_server" where
  "LightsV1Snapshot e s =
     (case cv_lights s of None \<Rightarrow> (None, s)
      | Some p \<Rightarrow> (case provider_LightsV1 (en_pro e) (en_now e) p of (r, q) \<Rightarrow>
          (case r of Inl _ \<Rightarrow> None | Inr m \<Rightarrow> Some m, s\<lparr>cv_lights := Some q\<rparr>)))"

definition server_UUIDForV1 :: "clip_server \<Rightarrow> string \<Rightarrow> string option" where
  "server_UUIDForV1 s i = bind_opt (cv_lights s) (\<lambda>p. UUIDForV1 p i)"

definition server_V1ForUUID :: "clip_server \<Rightarrow> string \<Rightarrow> string option" where
  "server_V1ForUUID s u = bind_opt (cv_lights s) (\<lambda>p. V1ForUUID p u)"

end
