(* ===== verification/ClipProps.thy ===== *)
theory ClipProps
  imports ClipServer
begin

text \<open>
  What the CLIP v1 server guarantees: which requests may change what, the zone gate of the two write
  paths, the fence of the light writes, the stability of the TV's pairing, the echo of its group and
  the activation handshake.
\<close>

section \<open>Runs of the server\<close>

text \<open>
  Besides the requests: the backend is set or replaced, the entertainment receiver forwards a light,
  shutdown closes the writes, the DTLS stream comes and goes, a watchdog callback runs, and the
  provider's drain and fetch take their steps.
\<close>

datatype clip_event =
    CReq request clip_env
  | CSetProvider "Provider option"
  | CForward string obj
  | CCloseWrites
  | CStreamUp
  | CStreamDown
  | CWatchdog nat int
  | CActivity int
  | CTake
  | CPublish "pro_error + Light list" int

fun clip_next :: "clip_server \<Rightarrow> clip_event \<Rightarrow> clip_server" where
  "clip_next s (CReq rq e) = snd (serve rq e s)"
| "clip_next s (CSetProvider p) = SetLightProvider p s"
| "clip_next s (CForward i st) = ForwardLight i st s"
| "clip_next s CCloseWrites = snd (CloseLightWrites s)"
| "clip_next s CStreamUp = MarkDTLSStreamUp s"
| "clip_next s CStreamDown = MarkDTLSStreamDown s"
| "clip_next s (CWatchdog g now) = s\<lparr>cv_stream := watchdogFired g now (cv_stream s)\<rparr>"
| "clip_next s (CActivity now) = MarkActivity now s"
| "clip_next s CTake = s\<lparr>cv_lights := map_option (\<lambda>p. snd (drain_take p)) (cv_lights s)\<rparr>"
| "clip_next s (CPublish r now) = s\<lparr>cv_lights := map_option (\<lambda>p. snd (publish r now p)) (cv_lights s)\<rparr>"

definition clip_step :: "clip_server \<Rightarrow> clip_event \<Rightarrow> clip_server \<Rightarrow> bool" where
  "clip_step s ev s' \<longleftrightarrow> s' = clip_next s ev"

section \<open>What leaves the write queue alone\<close>

definition write_queue :: "clip_server \<Rightarrow> (string, obj) gomap" where
  "write_queue s = (case cv_lights s of None \<Rightarrow> [] | Some p \<Rightarrow> pv_pending p)"

definition quiet :: "clip_server \<Rightarrow> clip_server \<Rightarrow> bool" where
  "quiet s t \<longleftrightarrow> rel_option same_queue (cv_lights s) (cv_lights t) \<and> cv_lightsClosed t = cv_lightsClosed s
     \<and> cv_cfg t = cv_cfg s \<and> cv_file t = cv_file s \<and> cv_TVIP t = cv_TVIP s"

lemma same_queue_refl [simp, intro]: "same_queue p p"
  by (simp add: same_queue_def)

lemma same_queue_trans: "same_queue p q \<Longrightarrow> same_queue q r \<Longrightarrow> same_queue p r"
  by (simp add: same_queue_def)

lemma quiet_refl [simp, intro]: "quiet s s"
  by (simp add: quiet_def option.rel_refl)

lemma quiet_trans: "quiet s t \<Longrightarrow> quiet t u \<Longrightarrow> quiet s u"
  unfolding quiet_def by (auto simp: option_rel_Some1 option_rel_Some2 rel_option_iff same_queue_def split: option.splits)

lemma quiet_queue: "quiet s t \<Longrightarrow> write_queue t = write_queue s"
  by (auto simp: quiet_def write_queue_def rel_option_iff same_queue_def split: option.splits)

lemma quiet_updates [simp, intro]:
  "quiet s (s\<lparr>cv_activity := a\<rparr>)" "quiet s (s\<lparr>cv_stream := st\<rparr>)" "quiet s (s\<lparr>cv_restCalls := n\<rparr>)"
  "quiet s (s\<lparr>cv_fetches := n\<rparr>)" "quiet s (setRequestedMembers ids s)"
  by (simp_all add: quiet_def setRequestedMembers_def option.rel_refl)

lemma provider_LightsV1_same: "provider_LightsV1 a now p = (r, q) \<Longrightarrow> same_queue p q"
proof -
  obtain act p1 where b: "lights_begin now p = (act, p1)" by fastforce
  have "same_queue p p1" using same_queue_ops(3) [of p now] by (simp add: b)
  moreover have "same_queue p1 (snd (publish a now p1))" by simp
  ultimately show "provider_LightsV1 a now p = (r, q) \<Longrightarrow> same_queue p q"
    by (auto simp: provider_LightsV1_def b Let_def split: lights_action.splits if_splits intro: same_queue_trans)
qed

lemma quiet_server_lightsV1: "server_lightsV1 e s = (m, s') \<Longrightarrow> quiet s s' \<and> cv_reqMembers s' = cv_reqMembers s"
  by (auto simp: server_lightsV1_def quiet_def split: option.splits prod.splits sum.splits dest: provider_LightsV1_same)

lemma count_request_eq: "\<exists>a. count_request rq s = s\<lparr>cv_activity := a\<rparr>"
proof -
  have "\<exists>a. s = s\<lparr>cv_activity := a\<rparr>" by (rule exI [of _ "cv_activity s"]) simp
  then show ?thesis by (auto simp: count_request_def split: option.splits)
qed

lemma count_request_same [simp]:
  "quiet s (count_request rq s)" "cv_cfg (count_request rq s) = cv_cfg s"
  "cv_reqMembers (count_request rq s) = cv_reqMembers s" "cv_lights (count_request rq s) = cv_lights s"
  "cv_stream (count_request rq s) = cv_stream s" "cv_EntertainmentMode (count_request rq s) = cv_EntertainmentMode s"
  "cv_TVIP (count_request rq s) = cv_TVIP s" "cv_file (count_request rq s) = cv_file s"
  using count_request_eq [of rq s] by auto

lemma off_zone_count [simp]: "off_zone (count_request rq s) i = off_zone s i"
  by (simp add: off_zone_def AllowsMember_def cong: option.case_cong)

lemma quiet_group_update: "handleGroupUpdate u i body e s = (r, s') \<Longrightarrow> quiet s s'"
proof -
  define s1 where "s1 = (if i = ''1'' then (case parseGroupLights body of None \<Rightarrow> s | Some ids \<Rightarrow> setRequestedMembers ids s) else s)"
  define s2 where "s2 = (if cv_EntertainmentMode s1 \<and> streamActiveFromBody body = Some True
                then s1\<lparr>cv_stream := snd (tryRecoverFallback (en_now e) (cv_stream s1))\<rparr> else s1)"
  assume "handleGroupUpdate u i body e s = (r, s')"
  then have "s' = s2 \<or> (\<exists>st. s' = s2\<lparr>cv_stream := st\<rparr>)"
    unfolding handleGroupUpdate_def Let_def s1_def [symmetric] s2_def [symmetric]
    by (auto simp: set_activation_def Let_def split: if_splits option.splits)
  moreover have "quiet s s1" by (simp add: s1_def split: option.split)
  moreover have "quiet s1 s2" by (simp add: s2_def)
  ultimately show ?thesis using quiet_trans quiet_updates(2) by metis
qed

lemma quiet_lights: "handleLights e s = (r, s') \<Longrightarrow> quiet s s'" "handleLight i e s = (r, s') \<Longrightarrow> quiet s s'"
  "handleDatastore e s = (r, s') \<Longrightarrow> quiet s s'"
  by (auto simp: handleLights_def handleLight_def handleDatastore_def quiet_def
      split: prod.splits option.splits dest: quiet_server_lightsV1 [unfolded quiet_def] provider_LightsV1_same)

text \<open>Only pairing changes the configuration, and only the two write handlers the queue.\<close>

fun writes_route :: "route \<Rightarrow> bool" where
  "writes_route (RSetLightState _ _) = True"
| "writes_route (RGroupAction _ _) = True"
| "writes_route _ = False"

lemma handle_quiet:
  assumes "handle r rq body e s = (resp, s')" "\<not> writes_route r" "r \<noteq> RPairing" shows "quiet s s'"
  using assms by (cases r)
    (auto simp: handleDescription_def handleCreateGroup_def Let_def split: if_splits option.splits
      dest: quiet_lights quiet_group_update)

section \<open>The invariant\<close>

definition users_ok :: "Config \<Rightarrow> bool" where
  "users_ok c \<longleftrightarrow> gomap_ok (cf_APIUsers c) \<and> distinct (map (\<lambda>(_, u). au_DeviceType u) (cf_APIUsers c))
     \<and> (\<forall>(k, u) \<in> set (cf_APIUsers c). au_Username u = k)"

definition fence_ok :: "clip_server \<Rightarrow> bool" where
  "fence_ok s \<longleftrightarrow> (cv_lightsClosed s \<longrightarrow> (\<forall>p. cv_lights s = Some p \<longrightarrow> pv_closed p \<and> pv_pending p = []))"

definition clip_inv :: "clip_server \<Rightarrow> bool" where
  "clip_inv s \<longleftrightarrow> users_ok (cv_cfg s) \<and> fence_ok s"

definition clip_init :: "clip_server \<Rightarrow> bool" where
  "clip_init s \<longleftrightarrow> users_ok (cv_cfg s) \<and> \<not> cv_lightsClosed s"

lemma AddAPIUser_cfg: "AddAPIUser w u c f = (err, c', f') \<Longrightarrow> cf_APIUsers c' = mput (au_Username u) u (cf_APIUsers c)"
  by (auto simp: AddAPIUser_def saving_def split: prod.splits)

lemma find_None_device:
  "APIUserByDeviceType c dt = None \<longleftrightarrow> dt \<notin> (\<lambda>(_, u). au_DeviceType u) ` set (cf_APIUsers c)"
  by (auto simp: APIUserByDeviceType_def find_None_iff)

lemma device_types_put:
  assumes "distinct (map (\<lambda>(_, u). au_DeviceType u) m)" "au_DeviceType u \<notin> (\<lambda>(_, v). au_DeviceType v) ` set m"
  shows "distinct (map (\<lambda>(_, v). au_DeviceType v) (mput k u m))
    \<and> (\<lambda>(_, v). au_DeviceType v) ` set (mput k u m) \<subseteq> insert (au_DeviceType u) ((\<lambda>(_, v). au_DeviceType v) ` set m)"
  using assms by (induction m) (auto split: if_splits, force+)

lemma users_ok_add:
  assumes "users_ok c" "APIUserByDeviceType c (au_DeviceType u) = None"
    "cf_APIUsers c' = mput (au_Username u) u (cf_APIUsers c)"
  shows "users_ok c'"
proof -
  have "gomap_ok (cf_APIUsers c')" using assms by (simp add: users_ok_def)
  moreover have "distinct (map (\<lambda>(_, u). au_DeviceType u) (cf_APIUsers c'))"
    using device_types_put [of "cf_APIUsers c" u "au_Username u"] assms by (simp add: users_ok_def find_None_device)
  moreover have "\<forall>(k, v) \<in> set (cf_APIUsers c'). au_Username v = k"
  proof safe
    fix k v assume m: "(k, v) \<in> set (cf_APIUsers c')"
    then have "mget (cf_APIUsers c') k = Some v" using \<open>gomap_ok (cf_APIUsers c')\<close> by (simp add: gomap_ok_mem)
    then have "k = au_Username u \<and> v = u \<or> mget (cf_APIUsers c) k = Some v" by (auto simp: assms(3) split: if_splits)
    then show "au_Username v = k" using assms(1) by (auto simp: users_ok_def dest: map_of_SomeD)
  qed
  ultimately show ?thesis by (simp add: users_ok_def)
qed

lemma handlePairing_cases:
  assumes "handlePairing rq body e s = (r, s')"
  obtains "s' = s"
  | dt b u c' f' n where "pairing_request body = Some (dt, b)" "server_isTV rq s" "APIUserByDeviceType (cv_cfg s) dt = None"
      "au_Username u = randomHex (en_user e)" "au_DeviceType u = dt"
      "cf_APIUsers c' = mput (au_Username u) u (cf_APIUsers (cv_cfg s))"
      "s' = s\<lparr>cv_cfg := c', cv_file := f', cv_paired := n\<rparr>"
proof (cases "pairing_request body")
  case None
  then show ?thesis using assms that(1) by (simp add: handlePairing_def)
next
  case (Some db)
  obtain dt b where db: "db = (dt, b)" by (cases db)
  show ?thesis
  proof (cases "server_isTV rq s \<and> APIUserByDeviceType (cv_cfg s) dt = None")
    case False
    then show ?thesis using assms Some db that(1)
      by (auto simp: handlePairing_def split: if_splits option.splits)
  next
    case True
    define u where "u = \<lparr>au_Username = randomHex (en_user e), au_DeviceType = dt,
      au_ClientKey = (if b then ToUpper (randomHex (en_key e)) else [])\<rparr>"
    obtain err c' f' where a: "AddAPIUser (en_write e) u (cv_cfg s) (cv_file s) = (err, c', f')" using prod_cases3 by blast
    have "\<exists>n. s' = s\<lparr>cv_cfg := c', cv_file := f', cv_paired := n\<rparr>"
    proof (cases "err = None")
      case True2: True
      then show ?thesis using assms Some db True a
        by (intro exI [of _ "cv_paired s + 1"]) (auto simp: handlePairing_def Let_def u_def)
    next
      case False
      then have "s' = s\<lparr>cv_cfg := c', cv_file := f'\<rparr>" using assms Some db True a
        by (auto simp: handlePairing_def Let_def u_def)
      then show ?thesis by (intro exI [of _ "cv_paired s"]) simp
    qed
    then obtain n where n: "s' = s\<lparr>cv_cfg := c', cv_file := f', cv_paired := n\<rparr>" ..
    show ?thesis
    proof (rule that(2))
      show "pairing_request body = Some (dt, b)" "server_isTV rq s" "APIUserByDeviceType (cv_cfg s) dt = None"
        using Some db True by simp_all
      show "au_Username u = randomHex (en_user e)" "au_DeviceType u = dt" by (simp_all add: u_def)
    qed (rule AddAPIUser_cfg [OF a], rule n)
  qed
qed

lemma pairing_inv:
  assumes "handlePairing rq body e s = (r, s')" "clip_inv s" shows "clip_inv s'"
  using assms(1)
proof (rule handlePairing_cases)
  assume "s' = s" then show ?thesis using assms(2) by simp
next
  fix dt b u c' f' n
  assume "APIUserByDeviceType (cv_cfg s) dt = None" "au_DeviceType u = dt"
    "cf_APIUsers c' = mput (au_Username u) u (cf_APIUsers (cv_cfg s))" "s' = s\<lparr>cv_cfg := c', cv_file := f', cv_paired := n\<rparr>"
  then show ?thesis using assms(2) users_ok_add [of "cv_cfg s" u c'] by (simp add: clip_inv_def fence_ok_def)
qed

lemma quiet_inv: "quiet s t \<Longrightarrow> clip_inv s \<Longrightarrow> clip_inv t"
  by (auto simp: quiet_def clip_inv_def fence_ok_def rel_option_iff same_queue_def split: option.splits)

text \<open>A write keeps the fence: a closed provider refuses it.\<close>

definition same_but_lights :: "clip_server \<Rightarrow> clip_server \<Rightarrow> bool" where
  "same_but_lights s t \<longleftrightarrow> cv_cfg t = cv_cfg s \<and> cv_lightsClosed t = cv_lightsClosed s \<and> cv_reqMembers t = cv_reqMembers s \<and> cv_TVIP t = cv_TVIP s"

lemma ForwardLight_same: "same_but_lights s (ForwardLight i st s)"
  by (simp add: same_but_lights_def ForwardLight_def split: option.split)

lemma ForwardLight_fence: "fence_ok s \<Longrightarrow> fence_ok (ForwardLight i st s)"
  by (auto simp: fence_ok_def ForwardLight_def SetLightV1_closed split: option.split)

lemma same_but_lights_off_zone: "same_but_lights s t \<Longrightarrow> off_zone t i = off_zone s i"
  by (simp add: same_but_lights_def off_zone_def AllowsMember_def cong: option.case_cong)

lemma same_but_lights_trans: "same_but_lights s t \<Longrightarrow> same_but_lights t u \<Longrightarrow> same_but_lights s u"
  by (simp add: same_but_lights_def)

lemma ForwardLight_queue: "v \<noteq> i \<Longrightarrow> mget (write_queue (ForwardLight i st s)) v = mget (write_queue s) v"
  by (auto simp: ForwardLight_def write_queue_def SetLightV1_def Let_def split: option.split)

lemma forward_all_props:
  "same_but_lights s (snd (forward_all action ids s)) \<and> (fence_ok s \<longrightarrow> fence_ok (snd (forward_all action ids s)))
   \<and> (\<forall>v. off_zone s v \<or> v \<notin> set ids \<longrightarrow> mget (write_queue (snd (forward_all action ids s))) v = mget (write_queue s) v)"
proof (induction ids rule: rev_induct)
  case Nil
  then show ?case by (simp add: forward_all_def same_but_lights_def)
next
  case (snoc i ids)
  let ?t = "snd (forward_all action ids s)"
  have t: "snd (forward_all action (ids @ [i]) s) = (if off_zone ?t i then ?t else ForwardLight i action ?t)"
    by (simp add: forward_all_def split: prod.split)
  have z: "off_zone ?t i = off_zone s i" using snoc by (simp add: same_but_lights_off_zone)
  show ?case
  proof (cases "off_zone s i")
    case True
    then show ?thesis using snoc by (simp add: t z)
  next
    case False
    then have "mget (write_queue (ForwardLight i action ?t)) v = mget (write_queue s) v" if "off_zone s v \<or> v \<notin> set (ids @ [i])" for v
      using that snoc ForwardLight_queue [of v i action ?t] by (cases "v = i") auto
    then show ?thesis using snoc False ForwardLight_same ForwardLight_fence same_but_lights_trans
      by (auto simp: t z)
  qed
qed

text \<open>The two write handlers.\<close>

lemma note_rest_same [simp]:
  "cv_lights (note_rest s) = cv_lights s" "cv_lightsClosed (note_rest s) = cv_lightsClosed s"
  "cv_cfg (note_rest s) = cv_cfg s" "cv_reqMembers (note_rest s) = cv_reqMembers s" "cv_TVIP (note_rest s) = cv_TVIP s"
  by (simp_all add: note_rest_def)

lemma set_light_state_cases:
  assumes "handleSetLightState i body e s = (r, s')"
  obtains "s' = s" | t st where "\<not> off_zone s i" "quiet s t" "s' = ForwardLight i st t"
proof (cases "cv_lights s")
  case None
  then show ?thesis using assms that(1) by (auto simp: handleSetLightState_def split: option.splits)
next
  case (Some p)
  show ?thesis
  proof (cases "any_map body = None \<or> off_zone s i")
    case True
    then show ?thesis using assms Some that(1) by (auto simp: handleSetLightState_def split: option.splits)
  next
    case False
    then obtain st where st: "any_map body = Some st" "\<not> off_zone s i" by auto
    define t where "t = note_rest (s\<lparr>cv_activity := snd (recordWriteTime (en_gapTrace e) (en_now e) (cv_activity s)),
      cv_restCalls := cv_restCalls s + 1\<rparr>)"
    have "quiet s t" by (simp add: t_def note_rest_def quiet_def option.rel_refl)
    moreover have "s' = ForwardLight i st t" using assms Some st
      by (simp add: handleSetLightState_def ForwardLight_def t_def Let_def)
    ultimately show ?thesis using that(2) st(2) by blast
  qed
qed

lemma group_action_cases:
  assumes "handleGroupAction i body e s = (r, s')"
  obtains "s' = s" | t action ids where "quiet s t" "cv_reqMembers t = cv_reqMembers s" "s' = snd (forward_all action ids t)"
proof (cases "any_map body = None \<or> any_map body = Some []")
  case True
  then show ?thesis using assms that(1) by (auto simp: handleGroupAction_def Let_def)
next
  case False
  then obtain a where a: "any_map body = Some a" "a \<noteq> []" by auto
  obtain m t where m: "server_lightsV1 e (s\<lparr>cv_restCalls := cv_restCalls s + 1\<rparr>) = (m, t)" by fastforce
  have "quiet s t" "cv_reqMembers t = cv_reqMembers s"
    using quiet_server_lightsV1 [OF m] quiet_trans [OF quiet_updates(3)] by auto
  moreover have "s' = snd (forward_all a (mkeys m) t)" using assms a m by (simp add: handleGroupAction_def Let_def)
  ultimately show ?thesis by (rule that(2))
qed

lemma off_zone_members: "cv_reqMembers t = cv_reqMembers s \<Longrightarrow> off_zone t i = off_zone s i"
  by (simp add: off_zone_def AllowsMember_def cong: option.case_cong)

lemma handle_writes:
  assumes "handle r rq body e s = (resp, s')" "writes_route r"
  shows "(clip_inv s \<longrightarrow> clip_inv s') \<and> cv_cfg s' = cv_cfg s
    \<and> (\<forall>v. mget (write_queue s') v \<noteq> mget (write_queue s) v \<longrightarrow>
        (\<exists>u. route_user r = Some u \<and> HasAPIUser (cv_cfg s) u) \<and> \<not> off_zone s v)"
proof (cases r)
  case (RSetLightState u i)
  show ?thesis
  proof (cases "HasAPIUser (cv_cfg s) u")
    case False
    then show ?thesis using assms by (simp add: RSetLightState authorized_def)
  next
    case True
    then have "handleSetLightState i body e s = (resp, s')" using assms by (simp add: RSetLightState authorized_def)
    then show ?thesis
    proof (rule set_light_state_cases)
      fix t st assume t: "\<not> off_zone s i" "quiet s t" "s' = ForwardLight i st t"
      have "cv_cfg t = cv_cfg s" using t(2) by (simp add: quiet_def)
      moreover have "clip_inv s \<longrightarrow> clip_inv s'" using quiet_inv [OF t(2)] ForwardLight_same [of t i st] ForwardLight_fence [of t i st]
        by (simp add: t(3) clip_inv_def same_but_lights_def)
      moreover have "mget (write_queue s') v = mget (write_queue s) v" if "off_zone s v" for v
        using that t(1) ForwardLight_queue [of v i st t] quiet_queue [OF t(2)] by (cases "v = i") (simp_all add: t(3))
      moreover have "cv_cfg s' = cv_cfg t" using ForwardLight_same [of t i st] by (simp add: t(3) same_but_lights_def)
      ultimately show ?thesis using True by (auto simp: RSetLightState)
    qed simp
  qed
next
  case (RGroupAction u i)
  show ?thesis
  proof (cases "HasAPIUser (cv_cfg s) u")
    case False
    then show ?thesis using assms by (simp add: RGroupAction authorized_def)
  next
    case True
    then have "handleGroupAction i body e s = (resp, s')" using assms by (simp add: RGroupAction authorized_def)
    then show ?thesis
    proof (rule group_action_cases)
      fix t action ids assume t: "quiet s t" "cv_reqMembers t = cv_reqMembers s" "s' = snd (forward_all action ids t)"
      note f = forward_all_props [of t action ids]
      have "cv_cfg t = cv_cfg s" using t(1) by (simp add: quiet_def)
      moreover have "clip_inv s \<longrightarrow> clip_inv s'" using quiet_inv [OF t(1)] f by (simp add: t(3) clip_inv_def same_but_lights_def)
      ultimately show ?thesis using f quiet_queue [OF t(1)] True off_zone_members [OF t(2)]
        by (auto simp: t(3) RGroupAction same_but_lights_def)
    qed simp
  qed
qed (use assms(2) in simp_all)

lemma serve_inv: "clip_inv s \<Longrightarrow> serve rq e s = (resp, s') \<Longrightarrow> clip_inv s'"
proof -
  assume i: "clip_inv s" and "serve rq e s = (resp, s')"
  then have h: "handle (route_of (rq_method rq) (rq_path rq)) rq (request_body rq s) e (count_request rq s) = (resp, s')"
    by (simp add: serve_def)
  have i1: "clip_inv (count_request rq s)" using i by (rule quiet_inv [rotated]) simp
  show ?thesis
  proof (cases "route_of (rq_method rq) (rq_path rq) = RPairing")
    case True
    then show ?thesis using h pairing_inv i1 by simp
  next
    case False
    then show ?thesis using handle_writes [OF h] handle_quiet [OF h] quiet_inv i1 by blast
  qed
qed

lemma same_queue_drain: "pv_closed p \<Longrightarrow> pv_pending p = [] \<Longrightarrow> pv_closed (snd (drain_take p)) \<and> pv_pending (snd (drain_take p)) = []"
  by (simp add: drain_take_def)

lemma clip_inv_step: "clip_inv s \<Longrightarrow> clip_step s ev s' \<Longrightarrow> clip_inv s'"
proof (cases ev)
  case (CReq rq e)
  assume "clip_inv s" "clip_step s ev s'"
  then show ?thesis using serve_inv [of s rq e "fst (serve rq e s)"] by (simp add: CReq clip_step_def)
next
  case (CForward i st)
  assume "clip_inv s" "clip_step s ev s'"
  then show ?thesis using ForwardLight_same [of s i st] ForwardLight_fence [of s i st]
    by (simp add: CForward clip_step_def clip_inv_def same_but_lights_def)
next
  case (CPublish r now)
  assume "clip_inv s" "clip_step s ev s'"
  moreover have "quiet s s'" using \<open>clip_step s ev s'\<close> by (cases "cv_lights s") (simp_all add: CPublish clip_step_def quiet_def)
  ultimately show ?thesis using quiet_inv by blast
next
  case CTake
  assume "clip_inv s" "clip_step s ev s'"
  then show ?thesis using same_queue_drain by (auto simp: CTake clip_step_def clip_inv_def fence_ok_def)
qed (auto simp: clip_step_def clip_inv_def fence_ok_def SetLightProvider_def CloseLightWrites_def provider_Close_def
      MarkDTLSStreamUp_def MarkDTLSStreamDown_def MarkActivity_def Let_def split: option.splits)

lemma clip_inv_init: "clip_init s \<Longrightarrow> clip_inv s"
  by (simp add: clip_init_def clip_inv_def fence_ok_def)

interpretation clip: invariant_system clip_init clip_step clip_inv
  by unfold_locales (auto intro: clip_inv_init clip_inv_step)

section \<open>Who may change what\<close>

lemma serve_writes:
  assumes "serve rq e s = (resp, s')" "mget (write_queue s') v \<noteq> mget (write_queue s) v"
  shows "writes_route (route_of (rq_method rq) (rq_path rq))
    \<and> (\<exists>u. route_user (route_of (rq_method rq) (rq_path rq)) = Some u \<and> HasAPIUser (cv_cfg s) u)
    \<and> (\<forall>n. Atoi v = Some n \<longrightarrow> 0 \<le> n \<and> n \<le> 65535 \<and> AllowsMember s (of_int n))"
proof -
  let ?r = "route_of (rq_method rq) (rq_path rq)" and ?t = "count_request rq s"
  have h: "handle ?r rq (request_body rq s) e ?t = (resp, s')" using assms(1) by (simp add: serve_def)
  have q: "write_queue ?t = write_queue s" by (simp add: quiet_queue)
  have "?r \<noteq> RPairing"
  proof
    assume "?r = RPairing"
    with h have "handlePairing rq (request_body rq s) e ?t = (resp, s')" by simp
    then have "write_queue s' = write_queue ?t" by (rule handlePairing_cases) (auto simp: write_queue_def)
    then show False using assms(2) q by simp
  qed
  then have w: "writes_route ?r" using handle_quiet [OF h] quiet_queue [of ?t s'] assms(2) q by metis
  from handle_writes [OF h w] have "\<exists>u. route_user ?r = Some u \<and> HasAPIUser (cv_cfg s) u" "\<not> off_zone s v"
    using assms(2) q by auto
  then show ?thesis using w by (auto simp: off_zone_def split: option.splits)
qed


definition demo_user :: APIUser where
  "demo_user = \<lparr>au_Username = ''tv'', au_DeviceType = ''dt'', au_ClientKey = ''00FF''\<rparr>"

definition demo_server :: clip_server where
  "demo_server = (New (demo_config\<lparr>cf_APIUsers := [(''tv'', demo_user)]\<rparr>) FileAbsent ''10.0.0.2'' 80 0)
     \<lparr>cv_lights := Some NewLightProvider, cv_reqMembers := Some (set_of_ids [1]), cv_EntertainmentMode := True\<rparr>"

definition demo_env :: clip_env where
  "demo_env = \<lparr>en_now = 1000, en_pro = Inr [], en_user = [1, 2], en_key = [3], en_write = sure_write,
     en_ifaces = None, en_gapTrace = False\<rparr>"

definition tv_request :: "string \<Rightarrow> string \<Rightarrow> gval \<Rightarrow> request" where
  "tv_request m path b = \<lparr>rq_method = m, rq_path = path, rq_remote = ''10.0.0.9:1234'', rq_ua = ''Android TV'',
     rq_body = Some b, rq_body4k = Some b\<rparr>"

lemma serve_tv_request:
  "serve (tv_request m path b) e s =
     handle (route_of m path) (tv_request m path b) (Some b) e (count_request (tv_request m path b) s)"
  by (simp add: serve_def tv_request_def request_body_def)

lemma demo_routes:
  "route_of ''PUT'' ''/api/tv/lights/1/state'' = RSetLightState ''tv'' ''1''"
  "route_of ''PUT'' ''/api/tv/lights/65537/state'' = RSetLightState ''tv'' ''65537''"
  "route_of ''POST'' ''/api/tv/groups'' = RCreateGroup ''tv''"
  "route_of ''PUT'' ''/api/tv/groups/1'' = RGroupUpdate ''tv'' ''1''"
  "route_of ''POST'' ''/api'' = RPairing"
  "route_of ''GET'' ''/api/xx/lights'' = RLights ''xx''"
  by code_simp+

lemma handleSetLightState_off: "off_zone s i \<Longrightarrow> snd (handleSetLightState i body e s) = s"
  by (simp add: handleSetLightState_def split: option.split)



definition stranger_request :: request where
  "stranger_request = \<lparr>rq_method = ''GET'', rq_path = ''/api/xx/lights'', rq_remote = ''10.0.0.66:99'', rq_ua = ''curl'',
     rq_body = None, rq_body4k = None\<rparr>"


section \<open>The fence of the light writes\<close>

lemma lightsClosed_kept: "clip_step s ev s' \<Longrightarrow> clip_inv s \<Longrightarrow> cv_lightsClosed s \<Longrightarrow> cv_lightsClosed s'"
proof (cases ev)
  case (CReq rq e)
  assume "clip_step s ev s'" "cv_lightsClosed s"
  let ?r = "route_of (rq_method rq) (rq_path rq)"
  obtain resp where h: "handle ?r rq (request_body rq s) e (count_request rq s) = (resp, s')"
    using \<open>clip_step s ev s'\<close> by (auto simp: CReq clip_step_def serve_def intro: prod.collapse [symmetric])
  have c: "cv_lightsClosed (count_request rq s)" using \<open>cv_lightsClosed s\<close> count_request_same(1) [of s rq] by (simp add: quiet_def)
  show ?thesis
  proof (cases ?r)
    case RPairing
    then have "handlePairing rq (request_body rq s) e (count_request rq s) = (resp, s')" using h by simp
    then show ?thesis by (rule handlePairing_cases) (use c in simp_all)
  next
    case (RSetLightState u i)
    show ?thesis
    proof (cases "authorized rq u (count_request rq s)")
      case True
      then have "handleSetLightState i (request_body rq s) e (count_request rq s) = (resp, s')" using h by (simp add: RSetLightState)
      then show ?thesis
        by (rule set_light_state_cases) (use c ForwardLight_same in \<open>auto simp: quiet_def same_but_lights_def\<close>)
    qed (use h c in \<open>simp add: RSetLightState\<close>)
  next
    case (RGroupAction u i)
    show ?thesis
    proof (cases "authorized rq u (count_request rq s)")
      case True
      then have "handleGroupAction i (request_body rq s) e (count_request rq s) = (resp, s')" using h by (simp add: RGroupAction)
      then show ?thesis
        by (rule group_action_cases) (use c forward_all_props in \<open>auto simp: quiet_def same_but_lights_def\<close>)
    qed (use h c in \<open>simp add: RGroupAction\<close>)
  qed (use handle_quiet [OF h] c in \<open>auto simp: quiet_def\<close>)
next
  case (CForward i st)
  assume "clip_step s ev s'" "cv_lightsClosed s"
  then show ?thesis using ForwardLight_same [of s i st] by (simp add: CForward clip_step_def same_but_lights_def)
qed (auto simp: clip_step_def SetLightProvider_def CloseLightWrites_def MarkDTLSStreamUp_def MarkDTLSStreamDown_def
      MarkActivity_def Let_def split: option.splits prod.splits)

lemma lightsClosed_run:
  "run clip_step s es s' \<Longrightarrow> clip_inv s \<Longrightarrow> cv_lightsClosed s \<Longrightarrow> cv_lightsClosed s'"
proof (induction rule: run.induct)
  case (run_snoc s es s1 e s2)
  have "clip_inv s1" using run_snoc.hyps(1) run_snoc.prems(1) by (rule clip.run_inv)
  then show ?case using lightsClosed_kept run_snoc by blast
qed simp

text \<open>
  C14: \<open>CloseLightWrites\<close> is final.  Whatever happens afterwards, the TV's writes, forwarded stream
  frames, a re-pairing that installs a new provider, the server never again has a provider that is
  open or has a write queued, and the drain of the one it has starts no write to the Pro.
\<close>

theorem close_light_writes_final:
  assumes "clip_init s0" "run clip_step s0 (es @ CCloseWrites # es') s" "cv_lights s = Some p"
  shows "pv_closed p \<and> pv_pending p = [] \<and> (\<forall>v st u v2. forward_begin v st p \<noteq> FwdWrite u v2)"
proof -
  obtain s1 where s1: "run clip_step s0 es s1" "run clip_step s1 (CCloseWrites # es') s"
    using assms(2) by (rule run_append_cases)
  obtain s2 where s2: "clip_step s1 CCloseWrites s2" "run clip_step s2 es' s" using s1(2) by (rule run_Cons_cases)
  have i: "clip_inv s2" "clip_inv s"
    using clip.reachable_inv [OF assms(1) run_snoc [OF s1(1) s2(1)]] clip.reachable_inv [OF assms(1,2)] .
  have "cv_lightsClosed s2" using s2(1)
    by (auto simp: clip_step_def CloseLightWrites_def Let_def split: option.splits prod.splits)
  then have "cv_lightsClosed s" using lightsClosed_run s2(2) i(1) by blast
  then show ?thesis using i(2) assms(3) closed_no_write(1) by (auto simp: clip_inv_def fence_ok_def)
qed

lemma demo_server_init: "clip_init demo_server"
  by (simp add: clip_init_def demo_server_def New_def users_ok_def demo_config_def gomap_ok_def demo_user_def)

lemma close_light_writes_final_witness:
  "\<exists>s p. run clip_step demo_server ([] @ CCloseWrites # [CSetProvider (Some NewLightProvider), CForward ''1'' []]) s
     \<and> cv_lights s = Some p \<and> pv_pending p = []"
proof -
  let ?es = "[] @ CCloseWrites # [CSetProvider (Some NewLightProvider), CForward ''1'' []]"
  obtain s where e: "exec (\<lambda>s ev. Some (clip_next s ev)) demo_server ?es = Some s" by simp
  have r: "run clip_step demo_server ?es s" by (rule exec_run [OF e]) (simp add: clip_step_def)
  obtain p where "cv_lights s = Some p" using e
    by (auto simp: SetLightProvider_def ForwardLight_def split: option.splits if_splits)
  from close_light_writes_final [OF demo_server_init r this] this r show ?thesis by blast
qed

section \<open>Pairing\<close>

text \<open>What the pairing of a device type leaves behind: its user, found by both keys.\<close>

definition has_pairing :: "Config \<Rightarrow> APIUser \<Rightarrow> bool" where
  "has_pairing c u \<longleftrightarrow> mget (cf_APIUsers c) (au_Username u) = Some u"

lemma find_sat: "find P xs = Some x \<Longrightarrow> x \<in> set xs \<and> P x"
  by (induction xs) (auto split: if_splits)

lemma has_pairing_found:
  assumes "users_ok c" "has_pairing c u" shows "APIUserByDeviceType c (au_DeviceType u) = Some u"
proof -
  have m: "(au_Username u, u) \<in> set (cf_APIUsers c)" using assms(2) by (simp add: has_pairing_def map_of_SomeD)
  obtain x where x: "find (\<lambda>(_, v). au_DeviceType v = au_DeviceType u) (cf_APIUsers c) = Some x"
    using m by (cases "find (\<lambda>(_, v). au_DeviceType v = au_DeviceType u) (cf_APIUsers c)") (auto simp: find_None_iff)
  then have "x \<in> set (cf_APIUsers c)" "au_DeviceType (snd x) = au_DeviceType u"
    using find_sat [OF x] by auto
  moreover have "inj_on (\<lambda>(_, u). au_DeviceType u) (set (cf_APIUsers c))"
    using assms(1) by (simp add: users_ok_def distinct_map)
  ultimately have "x = (au_Username u, u)" using m
    by (intro inj_onD [of "\<lambda>(_, u). au_DeviceType u" "set (cf_APIUsers c)"]) (simp_all add: split_beta)
  then show ?thesis using x by (simp add: APIUserByDeviceType_def)
qed

lemma serve_pairing_cfg:
  assumes "serve rq e s = (resp, s')"
  obtains "cv_cfg s' = cv_cfg s" | v where "au_Username v = randomHex (en_user e)"
    "cf_APIUsers (cv_cfg s') = mput (au_Username v) v (cf_APIUsers (cv_cfg s))"
proof -
  let ?t = "count_request rq s" and ?r = "route_of (rq_method rq) (rq_path rq)"
  have h: "handle ?r rq (request_body rq s) e ?t = (resp, s')" using assms by (simp add: serve_def)
  show ?thesis
  proof (cases "?r = RPairing")
    case True
    then have "handlePairing rq (request_body rq s) e ?t = (resp, s')" using h by simp
    then show ?thesis by (rule handlePairing_cases) (auto intro: that)
  next
    case False
    then have "cv_cfg s' = cv_cfg ?t" using handle_writes [OF h] handle_quiet [OF h] by (auto simp: quiet_def)
    then show ?thesis using that(1) by simp
  qed
qed

fun fresh_user :: "string \<Rightarrow> clip_event \<Rightarrow> bool" where
  "fresh_user name (CReq rq e) = (randomHex (en_user e) \<noteq> name)"
| "fresh_user name _ = True"

lemma has_pairing_step:
  assumes "clip_step s ev s'" "fresh_user (au_Username u) ev" "has_pairing (cv_cfg s) u" shows "has_pairing (cv_cfg s') u"
proof (cases ev)
  case (CReq rq e)
  then have "serve rq e s = (fst (serve rq e s), s')" using assms(1) by (simp add: clip_step_def)
  then show ?thesis by (rule serve_pairing_cfg) (use assms(2,3) CReq in \<open>auto simp: has_pairing_def\<close>)
next
  case (CForward i st)
  then show ?thesis using assms ForwardLight_same [of s i st] by (simp add: clip_step_def same_but_lights_def)
qed (use assms in \<open>auto simp: clip_step_def SetLightProvider_def CloseLightWrites_def MarkDTLSStreamUp_def
      MarkDTLSStreamDown_def MarkActivity_def Let_def split: option.splits prod.splits\<close>)

lemma has_pairing_run:
  "run clip_step s es s' \<Longrightarrow> list_all (fresh_user (au_Username u)) es \<Longrightarrow> has_pairing (cv_cfg s) u \<Longrightarrow> has_pairing (cv_cfg s') u"
proof (induction rule: run.induct)
  case (run_snoc s es s1 e s2)
  then show ?case using has_pairing_step by auto
qed simp



text \<open>A new pairing is such a pairing, also when the save fails.\<close>

lemma handlePairing_pairs:
  assumes "handlePairing rq body e s = (r, s')" "pairing_request body = Some (dt, b)" "server_isTV rq s"
  shows "\<exists>u. au_DeviceType u = dt \<and> (users_ok (cv_cfg s) \<longrightarrow> has_pairing (cv_cfg s') u)"
  using assms(1)
proof (rule handlePairing_cases)
  assume s': "s' = s"
  show ?thesis
  proof (cases "APIUserByDeviceType (cv_cfg s) dt")
    case None
    obtain x where x: "x = \<lparr>au_Username = randomHex (en_user e), au_DeviceType = dt,
      au_ClientKey = (if b then ToUpper (randomHex (en_key e)) else [])\<rparr>" by simp
    obtain err c f where a: "AddAPIUser (en_write e) x (cv_cfg s) (cv_file s) = (err, c, f)" using prod_cases3 by blast
    have "cv_cfg s' = c" using assms None a x by (auto simp: handlePairing_def Let_def split: if_splits)
    then show ?thesis using AddAPIUser_cfg [OF a] by (intro exI [of _ x]) (simp add: has_pairing_def x)
  next
    case (Some u)
    then obtain k where k: "find (\<lambda>(_, v). au_DeviceType v = dt) (cf_APIUsers (cv_cfg s)) = Some (k, u)"
      by (auto simp: APIUserByDeviceType_def)
    then have m: "(k, u) \<in> set (cf_APIUsers (cv_cfg s))" "au_DeviceType u = dt" using find_sat [OF k] by auto
    have "has_pairing (cv_cfg s) u" if "users_ok (cv_cfg s)"
      using m(1) that by (auto simp: users_ok_def has_pairing_def gomap_ok_mem [symmetric])
    then show ?thesis using m(2) s' by blast
  qed
next
  fix dt' b' u c' f' n
  assume "pairing_request body = Some (dt', b')" "au_DeviceType u = dt'"
    "cf_APIUsers c' = mput (au_Username u) u (cf_APIUsers (cv_cfg s))" "s' = s\<lparr>cv_cfg := c', cv_file := f', cv_paired := n\<rparr>"
  then show ?thesis using assms(2) by (intro exI [of _ u]) (simp add: has_pairing_def)
qed

section \<open>The TV's group\<close>

lemma member_id_iff: "member_id l = Some w \<longleftrightarrow> Atoi (TrimSpace l) = Some (uint w) \<and> 1 \<le> uint w"
proof -
  have "uint (of_int n :: u16) = n" if "1 \<le> n" "n \<le> 65535" for n
    using that by (simp add: uint_word_of_int)
  then show ?thesis using uint_u16_bounds [of w] by (auto simp: member_id_def split: option.splits if_splits)
qed

lemma set_map_filter: "set (List.map_filter f xs) = {y. \<exists>x \<in> set xs. f x = Some y}"
  by (induction xs) (auto simp: List.map_filter_simps split: option.splits)

lemma parseGroupLights_ids:
  assumes "parseGroupLights body = Some ids"
  shows "\<exists>ls. bind_opt body (dec_struct (\<lambda>o'. dec_slice dec_string (jfield o' ''lights''))) = Some ls
    \<and> (\<forall>w. w \<in> set ids \<longleftrightarrow> (\<exists>l \<in> set ls. Atoi (TrimSpace l) = Some (uint w) \<and> 1 \<le> uint w))"
  using assms by (auto simp: parseGroupLights_def Let_def set_map_filter member_id_iff split: option.splits if_splits)

lemma groupLocations_keys: "set (mkeys (groupLocations ms)) = set ms"
proof -
  have "set (mkeys (foldl (\<lambda>m (i, d). mput d (f i) m) m0 (zip [k..<k + length ms] ms))) = set (mkeys m0) \<union> set ms" for f m0 k
  proof (induction ms arbitrary: m0 k)
    case (Cons x ms)
    have "[k..<k + length (x # ms)] = k # [Suc k..<Suc k + length ms]"
      by (simp add: upt_conv_Cons del: upt_Suc)
    then show ?case using Cons [of "mput x (f k) m0" "Suc k"] by (simp del: set_map)
  qed simp
  from this [of "\<lambda>i. GFloats [of_int (math_Round (location_x (length ms) i * 100)) / 100, 1, 0]" "[]" 0]
  show ?thesis by (simp add: groupLocations_def del: set_map)
qed

lemma group_member_iff:
  "group_member True (cv_reqMembers s) k = Some n \<longleftrightarrow> Atoi k = Some n \<and> 0 \<le> n \<and> n \<le> 65535 \<and> AllowsMember s (of_int n)"
  by (auto simp: group_member_def AllowsMember_def split: option.splits if_splits)

text \<open>The positions stay on the wall: between \<open>-1\<close> and \<open>1\<close>.\<close>

lemma location_x_range: "i < n \<Longrightarrow> -1 \<le> location_x n i \<and> location_x n i \<le> 1"
  by (auto simp: location_x_def field_simps)

lemma bridgeGroup_lookup:
  "oget (bridgeGroup i lights s) ''lights'' = GStrs (groupLightIDs lights (i = ''1'') (cv_reqMembers s))"
  "oget (bridgeGroup ''1'' lights s) ''locations'' = GObj (groupLocations (groupLightIDs lights True (cv_reqMembers s)))"
  by (simp_all add: bridgeGroup_def Let_def oget_def split: prod.splits)

text \<open>
  C37: the TV's zone is taken over exactly.  When the TV creates its entertainment group, the zone is the
  set of ids it listed, read without wrap-around and with everything unusable ignored; the streamer is
  told the same ids; and the group the TV reads back lists, in ascending order and each with a
  position, exactly the known lights of the zone.
\<close>

theorem group_zone_echoed:
  assumes "loose_string body ''type'' = ''Entertainment''" "parseGroupLights body = Some ids"
    "s1 = snd (handleCreateGroup body s)"
  shows "(\<exists>ls. bind_opt body (dec_struct (\<lambda>o'. dec_slice dec_string (jfield o' ''lights''))) = Some ls
       \<and> (\<forall>w. AllowsMember s1 w \<longleftrightarrow> (\<exists>l \<in> set ls. Atoi (TrimSpace l) = Some (uint w) \<and> 1 \<le> uint w)))
    \<and> cv_pushed s1 = cv_pushed s @ [ids]
    \<and> (\<exists>ns. oget (bridgeGroup ''1'' lights s1) ''lights'' = GStrs (map Itoa ns) \<and> sorted ns
         \<and> set ns = {n. 0 \<le> n \<and> n \<le> 65535 \<and> AllowsMember s1 (of_int n) \<and> (\<exists>k \<in> set (mkeys lights). Atoi k = Some n)}
         \<and> set (mkeys (as_map (oget (bridgeGroup ''1'' lights s1) ''locations''))) = Itoa ` set ns)"
proof -
  have s1: "s1 = setRequestedMembers ids s" using assms by (simp add: handleCreateGroup_def)
  have m: "AllowsMember s1 w \<longleftrightarrow> w \<in> set ids" for w by (simp add: s1 AllowsMember_def setRequestedMembers_def)
  define ns where "ns = sort (List.map_filter (group_member True (cv_reqMembers s1)) (mkeys lights))"
  have "set ns = {n. 0 \<le> n \<and> n \<le> 65535 \<and> AllowsMember s1 (of_int n) \<and> (\<exists>k \<in> set (mkeys lights). Atoi k = Some n)}"
    unfolding ns_def set_sort set_map_filter group_member_iff by blast
  moreover have "sorted ns" by (simp add: ns_def)
  moreover have l: "groupLightIDs lights True (cv_reqMembers s1) = map Itoa ns" by (simp add: groupLightIDs_def ns_def)
  ultimately have "\<exists>ns. oget (bridgeGroup ''1'' lights s1) ''lights'' = GStrs (map Itoa ns) \<and> sorted ns
         \<and> set ns = {n. 0 \<le> n \<and> n \<le> 65535 \<and> AllowsMember s1 (of_int n) \<and> (\<exists>k \<in> set (mkeys lights). Atoi k = Some n)}
         \<and> set (mkeys (as_map (oget (bridgeGroup ''1'' lights s1) ''locations''))) = Itoa ` set ns"
    by (intro exI [of _ ns]) (simp only: bridgeGroup_lookup as_map_def gval.case groupLocations_keys, simp)
  moreover have "cv_pushed s1 = cv_pushed s @ [ids]" by (simp add: s1 setRequestedMembers_def)
  ultimately show ?thesis using parseGroupLights_ids [OF assms(2)] m by auto
qed

definition group_body :: json_body where
  "group_body = Some (GObj [(''type'', GStr ''Entertainment''), (''lights'', GArr [GStr ''2'', GStr '' 1'', GStr ''x''])])"

lemma group_zone_echoed_witness:
  "\<exists>ns. oget (bridgeGroup ''1'' [(''2'', GNil), (''1'', GNil), (''3'', GNil)] (snd (handleCreateGroup group_body demo_server))) ''lights''
     = GStrs (map Itoa ns) \<and> sorted ns"
proof -
  have "loose_string group_body ''type'' = ''Entertainment''" by code_simp
  moreover have "parseGroupLights group_body = Some [2, 1]" by code_simp
  ultimately show ?thesis using group_zone_echoed [OF _ _ refl] by blast
qed

section \<open>The activation handshake\<close>

definition stream_block :: "bool \<Rightarrow> string \<Rightarrow> gval" where
  "stream_block active owner = GObj [(''active'', GBool active), (''owner'', if owner \<noteq> [] then GStr owner else GNil),
     (''proxymode'', GStr ''auto''), (''proxynode'', GStr ''/bridge'')]"

lemma bridgeGroup_stream:
  "oget (bridgeGroup ''1'' lights s) ''stream'' =
     (if confirmsEntertainment s then stream_block (ss_active (cv_stream s)) (ss_owner (cv_stream s)) else stream_block False [])"
  by (simp add: bridgeGroup_def Let_def oget_def stream_block_def stream_snapshot_def split: prod.splits)

text \<open>Whether the server will confirm an activation: entertainment mode, and no fallback left standing.\<close>

definition will_confirm :: "int \<Rightarrow> clip_server \<Rightarrow> bool" where
  "will_confirm now s \<longleftrightarrow> cv_EntertainmentMode s \<and> (\<not> inFallback (cv_stream s) \<or> fst (tryRecoverFallback now (cv_stream s)))"

text \<open>
  The activation handshake.  An activation is confirmed exactly in entertainment mode with no REST
  fallback standing (one whose cooldown is over is lifted first).  Then the group the TV reads back
  shows the stream active under its own user name, and unless its DTLS stream is already up a
  fallback timer is running; otherwise the answer is the generic one, the stream state does not
  change, and the group shows an inactive stream, so the TV keeps to the REST path.
\<close>

theorem activation_handshake:
  assumes "streamActiveFromBody body = Some True" "handleGroupUpdate user i body e s = (resp, s')"
  shows "if will_confirm (en_now e) s
    then resp = success [(''/groups/'' @ i @ ''/stream/active'', GBool True)]
      \<and> oget (bridgeGroup ''1'' lights s') ''stream'' = stream_block True user
      \<and> (isUp (cv_stream s) \<or> (\<exists>t. ss_watchdog (cv_stream s') = Some t \<and> tm_pending t \<and> tm_gen t = ss_gen (cv_stream s')
            \<and> tm_deadline t = en_now e + ss_fallbackTimeout (cv_stream s)))
    else resp = success [(''/groups/'' @ i, GStr ''ok'')] \<and> cv_stream s' = cv_stream s
      \<and> oget (bridgeGroup ''1'' lights s') ''stream'' = stream_block False []"
proof -
  let ?st = "cv_stream s" and ?rec = "snd (tryRecoverFallback (en_now e) (cv_stream s))"
  define s1 where "s1 = (if i = ''1'' then (case parseGroupLights body of None \<Rightarrow> s | Some ids \<Rightarrow> setRequestedMembers ids s) else s)"
  have s1: "cv_stream s1 = ?st" "cv_EntertainmentMode s1 = cv_EntertainmentMode s"
    by (simp_all add: s1_def setRequestedMembers_def split: option.split)
  define s2 where "s2 = (if cv_EntertainmentMode s1 \<and> streamActiveFromBody body = Some True
    then s1\<lparr>cv_stream := snd (tryRecoverFallback (en_now e) (cv_stream s1))\<rparr> else s1)"
  have s2: "cv_EntertainmentMode s2 = cv_EntertainmentMode s"
      "cv_stream s2 = (if cv_EntertainmentMode s then ?rec else ?st)" by (simp_all add: s2_def s1 assms(1))
  have rec: "(fst (tryRecoverFallback (en_now e) ?st) \<and> ?rec = ?st\<lparr>ss_fallback := False\<rparr>)
      \<or> (\<not> fst (tryRecoverFallback (en_now e) ?st) \<and> ?rec = ?st)" by (simp add: tryRecoverFallback_def)
  have conf: "confirmsEntertainment s2 = will_confirm (en_now e) s"
    using rec by (auto simp: confirmsEntertainment_def will_confirm_def s2 inFallback_def)
  have h: "(resp, s') = (if confirmsEntertainment s2
       then (success [(''/groups/'' @ i @ ''/stream/active'', GBool True)], set_activation True user (en_now e) s2)
       else (success [(''/groups/'' @ i, GStr ''ok'')], s2))"
    using assms(2) unfolding handleGroupUpdate_def Let_def s1_def [symmetric] s2_def [symmetric]
    by (simp only: assms(1) option.case)
  show ?thesis
  proof (cases "will_confirm (en_now e) s")
    case True
    then have em: "cv_EntertainmentMode s" "cv_EntertainmentMode s2" "\<not> ss_fallback ?rec" "cv_stream s2 = ?rec"
      using conf by (auto simp: confirmsEntertainment_def inFallback_def s2)
    have up: "ss_streamUp ?rec = ss_streamUp ?st" "ss_fallbackTimeout ?rec = ss_fallbackTimeout ?st" using rec by auto
    have s': "s' = s2\<lparr>cv_stream := armWatchdog True (en_now e) (setActive True user ?rec)\<rparr>"
      using h conf True em by (simp add: set_activation_def Let_def)
    have st': "ss_active (cv_stream s')" "ss_owner (cv_stream s') = user" "\<not> ss_fallback (cv_stream s')"
      using em(3) by (simp_all add: s' armWatchdog_def setActive_def Let_def)
    then have "oget (bridgeGroup ''1'' lights s') ''stream'' = stream_block True user"
      using em(2) by (simp add: bridgeGroup_stream confirmsEntertainment_def inFallback_def s')
    moreover have "isUp ?st \<or> (\<exists>t. ss_watchdog (cv_stream s') = Some t \<and> tm_pending t \<and> tm_gen t = ss_gen (cv_stream s')
            \<and> tm_deadline t = en_now e + ss_fallbackTimeout ?st)"
      using em(3) up by (simp add: s' armWatchdog_def setActive_def Let_def isUp_def)
    ultimately show ?thesis using True h conf by simp
  next
    case False
    then have s': "s' = s2" using h conf by simp
    have "cv_stream s2 = ?st" using False rec by (auto simp: s2 will_confirm_def)
    then show ?thesis using False h conf by (simp add: s' bridgeGroup_stream)
  qed
qed

definition activate_body :: json_body where
  "activate_body = Some (GObj [(''stream'', GObj [(''active'', GBool True)])])"

lemma activation_handshake_witness:
  "oget (bridgeGroup ''1'' [] (snd (handleGroupUpdate ''tv'' ''1'' activate_body demo_env demo_server))) ''stream'' = stream_block True ''tv''"
proof -
  have b: "streamActiveFromBody activate_body = Some True" by code_simp
  have c: "will_confirm (en_now demo_env) demo_server"
    by (simp add: will_confirm_def demo_server_def New_def inFallback_def newStreamState_def)
  from activation_handshake [OF b surjective_pairing] c show ?thesis by simp
qed

end
