(* ===== verification/Setup.thy ===== *)
theory Setup
  imports Systems
begin

text \<open>
  The setup wizard's state machine (\<open>cmd/relume-tv/setup.go\<close>).  Every method holds the mutex for its
  whole body.  What the machine reads from outside, whether a Pro and a TV are paired and whether the
  TV drives the lights, is a \<open>signals\<close> record that is fixed during one pass.  The steps that are
  logged and the calls of \<open>commit\<close> are recorded in the state.
\<close>

section \<open>Steps\<close>

definition stepPairPro :: int where "stepPairPro = 1"
definition stepProPowerOff :: int where "stepProPowerOff = 2"
definition stepRebootTV :: int where "stepRebootTV = 3"
definition stepTVScan :: int where "stepTVScan = 4"
definition stepProPowerOn :: int where "stepProPowerOn = 5"
definition stepAssignBulbs :: int where "stepAssignBulbs = 6"
definition stepDone :: int where "stepDone = 7"
definition setupSteps :: int where "setupSteps = 6"

lemmas step_defs = stepPairPro_def stepProPowerOff_def stepRebootTV_def stepTVScan_def stepProPowerOn_def
  stepAssignBulbs_def stepDone_def

definition setupTitles :: "int \<Rightarrow> string" where
  "setupTitles n =
     (if n = stepPairPro then ''pair the Hue Bridge Pro''
      else if n = stepRebootTV then ''reboot your TV''
      else if n = stepProPowerOff then ''disconnect the Hue Bridge Pro from power''
      else if n = stepTVScan then ''start the relume-tv scan in the TV's Ambilight+Hue settings''
      else if n = stepProPowerOn then ''turn the Hue Bridge Pro back on''
      else if n = stepAssignBulbs then ''assign your color bulbs in the TV's Ambilight+Hue menu''
      else [])"

record signals =
  sg_proPaired :: bool
  sg_tvPaired :: bool
  sg_active :: bool

record setupStatus =
  su_step :: int
  su_discoveryOK :: bool
  su_discoveredHost :: string
  su_bridgeIsPro :: bool
  su_precondMsg :: string
  su_proReachable :: bool
  su_everReachable :: bool
  su_tvDescriptorSeen :: bool
  su_powerCycleSkipped :: bool
  su_committed :: bool
  su_commits :: nat
  su_entered :: "int list"

definition newSetupStatus :: "bool \<Rightarrow> setupStatus" where
  "newSetupStatus committed =
     (let s = \<lparr>su_step = stepPairPro, su_discoveryOK = True, su_discoveredHost = [], su_bridgeIsPro = False,
        su_precondMsg = [], su_proReachable = False, su_everReachable = False, su_tvDescriptorSeen = False,
        su_powerCycleSkipped = False, su_committed = False, su_commits = 0, su_entered = []\<rparr>
      in if committed then s\<lparr>su_step := stepDone, su_committed := True\<rparr> else s)"

definition CurrentStep :: "setupStatus \<Rightarrow> int" where
  "CurrentStep s = su_step s"

definition Precond :: "setupStatus \<Rightarrow> bool \<times> string \<times> bool \<times> string" where
  "Precond s = (su_discoveryOK s, su_discoveredHost s, su_bridgeIsPro s, su_precondMsg s)"

definition ProReachable :: "setupStatus \<Rightarrow> bool" where
  "ProReachable s = su_proReachable s"

definition TVDescriptorSeen :: "setupStatus \<Rightarrow> bool" where
  "TVDescriptorSeen s = su_tvDescriptorSeen s"

definition PowerCycleSkipped :: "setupStatus \<Rightarrow> bool" where
  "PowerCycleSkipped s = su_powerCycleSkipped s"

section \<open>Advancing\<close>

definition doCommit :: "setupStatus \<Rightarrow> setupStatus" where
  "doCommit s = (if su_committed s then s else s\<lparr>su_committed := True, su_commits := su_commits s + 1\<rparr>)"

text \<open>One round of the loop: the state with \<open>powerCycleSkipped\<close> set where it is, and the next step.\<close>

definition next_step :: "signals \<Rightarrow> setupStatus \<Rightarrow> setupStatus \<times> int" where
  "next_step sg s =
     (let n = su_step s in
      if n = stepPairPro then (s, if sg_proPaired sg then stepProPowerOff else n)
      else if n = stepProPowerOff then
        (if sg_tvPaired sg then (s\<lparr>su_powerCycleSkipped := True\<rparr>, stepRebootTV)
         else (s, if su_everReachable s \<and> \<not> su_proReachable s then stepRebootTV else n))
      else if n = stepRebootTV then (s, if sg_tvPaired sg \<or> su_tvDescriptorSeen s then stepTVScan else n)
      else if n = stepTVScan then (s, if sg_tvPaired sg then stepProPowerOn else n)
      else if n = stepProPowerOn then (s, if su_proReachable s then stepAssignBulbs else n)
      else if n = stepAssignBulbs then (s, if sg_active sg then stepDone else n)
      else (s, n))"

lemma next_step_cases:
  assumes "next_step sg s = (s1, n)" shows "n = su_step s \<or> n = su_step s + 1" "su_step s1 = su_step s"
  using assms by (auto simp: next_step_def step_defs Let_def split: if_splits)

function recompute :: "signals \<Rightarrow> setupStatus \<Rightarrow> setupStatus" where
  "recompute sg s =
     (if su_step s < stepDone
      then (case next_step sg s of (s1, n) \<Rightarrow>
        if n = su_step s then s1
        else let s2 = s1\<lparr>su_step := n, su_entered := su_entered s1 @ [n]\<rparr> in
          if n = stepDone then doCommit s2 else recompute sg s2)
      else s)"
  by auto
termination
  by (relation "measure (\<lambda>(sg, s). nat (stepDone - su_step s))") (auto dest!: next_step_cases(1) [OF sym])

declare recompute.simps [simp del]

definition setPrecond :: "bool \<Rightarrow> string \<Rightarrow> bool \<Rightarrow> string \<Rightarrow> setupStatus \<Rightarrow> setupStatus" where
  "setPrecond ok host isPro msg s = s\<lparr>su_discoveryOK := ok, su_discoveredHost := host, su_bridgeIsPro := isPro,
     su_precondMsg := msg\<rparr>"

definition setReachable :: "signals \<Rightarrow> bool \<Rightarrow> setupStatus \<Rightarrow> setupStatus" where
  "setReachable sg reachable s =
     (let s1 = (if reachable then s\<lparr>su_everReachable := True\<rparr> else s)
      in recompute sg (s1\<lparr>su_proReachable := reachable\<rparr>))"

definition markTVDescriptorSeen :: "signals \<Rightarrow> setupStatus \<Rightarrow> setupStatus" where
  "markTVDescriptorSeen sg s =
     (if su_step s = stepRebootTV then recompute sg (s\<lparr>su_tvDescriptorSeen := True\<rparr>) else s)"

definition recomputeNow :: "signals \<Rightarrow> setupStatus \<Rightarrow> setupStatus" where
  "recomputeNow sg s = recompute sg s"

section \<open>The machine and its specification\<close>

datatype setup_event =
    SReachable signals bool
  | SDescriptor signals
  | SRecompute signals
  | SPrecond bool string bool string

fun setup_next :: "setupStatus \<Rightarrow> setup_event \<Rightarrow> setupStatus" where
  "setup_next s (SReachable sg r) = setReachable sg r s"
| "setup_next s (SDescriptor sg) = markTVDescriptorSeen sg s"
| "setup_next s (SRecompute sg) = recomputeNow sg s"
| "setup_next s (SPrecond ok host isPro msg) = setPrecond ok host isPro msg s"

definition setup_step :: "setupStatus \<Rightarrow> setup_event \<Rightarrow> setupStatus \<Rightarrow> bool" where
  "setup_step s e s' \<longleftrightarrow> s' = setup_next s e"

text \<open>
  What the wizard promises its user: six stages, each completed once and in order, the power-off
  stage either done or skipped, and the configuration saved when the last one is completed.
\<close>

datatype stage = PairPro | PowerOff | SkipPowerCycle | RebootTV | TVScan | PowerOn | AssignBulbs

record wizard =
  wz_at :: int
  wz_skipped :: bool
  wz_saves :: nat

fun stage_no :: "stage \<Rightarrow> int" where
  "stage_no PairPro = 1"
| "stage_no PowerOff = 2"
| "stage_no SkipPowerCycle = 2"
| "stage_no RebootTV = 3"
| "stage_no TVScan = 4"
| "stage_no PowerOn = 5"
| "stage_no AssignBulbs = 6"

inductive wizard_step :: "wizard \<Rightarrow> stage \<Rightarrow> wizard \<Rightarrow> bool" where
  "wz_at w = stage_no x \<Longrightarrow>
   wizard_step w x \<lparr>wz_at = wz_at w + 1, wz_skipped = (wz_skipped w \<or> x = SkipPowerCycle),
     wz_saves = wz_saves w + (if x = AssignBulbs then 1 else 0)\<rparr>"

inductive_cases wizard_stepE: "wizard_step w x w'"

definition wizard_of :: "setupStatus \<Rightarrow> wizard" where
  "wizard_of s = \<lparr>wz_at = su_step s, wz_skipped = su_powerCycleSkipped s, wz_saves = su_commits s\<rparr>"

definition setup_inv :: "setupStatus \<Rightarrow> bool" where
  "setup_inv s \<longleftrightarrow> 1 \<le> su_step s \<and> su_step s \<le> 7 \<and> (su_committed s \<longleftrightarrow> su_step s = 7)"

definition setup_init :: "setupStatus \<Rightarrow> bool" where
  "setup_init s \<longleftrightarrow> (\<exists>c. s = newSetupStatus c)"

text \<open>A round that advances is one stage of the wizard.\<close>

lemma next_step_stage:
  assumes "next_step sg s = (s1, n)" "n \<noteq> su_step s"
  obtains x where "su_step s = stage_no x" "n = su_step s + 1" "x = AssignBulbs \<longleftrightarrow> n = stepDone"
    "su_powerCycleSkipped s1 = (su_powerCycleSkipped s \<or> x = SkipPowerCycle)" "su_commits s1 = su_commits s"
    "su_committed s1 = su_committed s"
proof -
  consider "su_step s = 1" | "su_step s = 2" "sg_tvPaired sg" | "su_step s = 2" "\<not> sg_tvPaired sg" | "su_step s = 3"
    | "su_step s = 4" | "su_step s = 5" | "su_step s = 6"
    using assms by (auto simp: next_step_def step_defs Let_def split: if_splits)
  then show ?thesis
  proof cases
    case 1 then show ?thesis using assms that [of PairPro] by (auto simp: next_step_def step_defs Let_def split: if_splits)
  next
    case 2 then show ?thesis using assms that [of SkipPowerCycle] by (auto simp: next_step_def step_defs Let_def split: if_splits)
  next
    case 3 then show ?thesis using assms that [of PowerOff] by (auto simp: next_step_def step_defs Let_def split: if_splits)
  next
    case 4 then show ?thesis using assms that [of RebootTV] by (auto simp: next_step_def step_defs Let_def split: if_splits)
  next
    case 5 then show ?thesis using assms that [of TVScan] by (auto simp: next_step_def step_defs Let_def split: if_splits)
  next
    case 6 then show ?thesis using assms that [of PowerOn] by (auto simp: next_step_def step_defs Let_def split: if_splits)
  next
    case 7 then show ?thesis using assms that [of AssignBulbs] by (auto simp: next_step_def step_defs Let_def split: if_splits)
  qed
qed

lemma next_step_stay: "next_step sg s = (s1, su_step s) \<Longrightarrow> s1 = s"
  by (auto simp: next_step_def step_defs Let_def split: if_splits)

text \<open>One round of \<open>recompute\<close> as an unfolding rule, and the invariant it keeps.\<close>

definition advanced :: "setupStatus \<Rightarrow> int \<Rightarrow> setupStatus" where
  "advanced s1 n = (let s2 = s1\<lparr>su_step := n, su_entered := su_entered s1 @ [n]\<rparr> in if n = stepDone then doCommit s2 else s2)"

lemma recompute_done: "su_step s = stepDone \<Longrightarrow> recompute sg s = s"
  by (simp add: recompute.simps)

lemma recompute_round:
  assumes "setup_inv s"
  shows "recompute sg s = (case next_step sg s of (s1, n) \<Rightarrow> if n = su_step s then s else recompute sg (advanced s1 n))"
proof (cases "su_step s < stepDone")
  case True
  obtain s1 n where n: "next_step sg s = (s1, n)" by fastforce
  show ?thesis
  proof (cases "n = su_step s")
    case True2: True
    have r: "recompute sg s = s1" using True n True2 by (subst recompute.simps) simp
    have "s1 = s" using next_step_stay [of sg s s1] n True2 by simp
    then show ?thesis using r n True2 by simp
  next
    case False
    then have "recompute sg s = (if n = stepDone then doCommit (s1\<lparr>su_step := n, su_entered := su_entered s1 @ [n]\<rparr>)
        else recompute sg (s1\<lparr>su_step := n, su_entered := su_entered s1 @ [n]\<rparr>))"
      using True n by (subst recompute.simps) (simp add: Let_def)
    moreover have "recompute sg (doCommit (s1\<lparr>su_step := stepDone, su_entered := su_entered s1 @ [stepDone]\<rparr>))
        = doCommit (s1\<lparr>su_step := stepDone, su_entered := su_entered s1 @ [stepDone]\<rparr>)"
      by (rule recompute_done) (simp add: doCommit_def)
    ultimately show ?thesis using False n by (simp add: advanced_def Let_def)
  qed
next
  case False
  then have d: "su_step s = stepDone" using assms by (simp add: setup_inv_def step_defs)
  have "next_step sg s = (s, su_step s)" using d by (simp add: next_step_def step_defs Let_def)
  then show ?thesis using d by (simp add: recompute_done)
qed

lemma advanced_inv:
  assumes "setup_inv s" "next_step sg s = (s1, n)" "n \<noteq> su_step s"
  shows "setup_inv (advanced s1 n) \<and> su_step (advanced s1 n) = su_step s + 1
    \<and> (\<exists>x. wizard_step (wizard_of s) x (wizard_of (advanced s1 n)))"
proof -
  obtain x where x: "su_step s = stage_no x" "n = su_step s + 1" "x = AssignBulbs \<longleftrightarrow> n = stepDone"
    "su_powerCycleSkipped s1 = (su_powerCycleSkipped s \<or> x = SkipPowerCycle)" "su_commits s1 = su_commits s"
    "su_committed s1 = su_committed s" using assms(2,3) by (rule next_step_stage)
  have "\<not> su_committed s" using x(1) assms(1) by (cases x) (simp_all add: setup_inv_def)
  then have "wizard_of (advanced s1 n) = \<lparr>wz_at = wz_at (wizard_of s) + 1, wz_skipped = (wz_skipped (wizard_of s) \<or> x = SkipPowerCycle),
     wz_saves = wz_saves (wizard_of s) + (if x = AssignBulbs then 1 else 0)\<rparr>"
    using x by (simp add: wizard_of_def advanced_def Let_def doCommit_def)
  then have "wizard_step (wizard_of s) x (wizard_of (advanced s1 n))"
    using wizard_step.intros [of "wizard_of s" x] x(1) by (simp add: wizard_of_def)
  moreover have "setup_inv (advanced s1 n)" "su_step (advanced s1 n) = su_step s + 1"
    using x \<open>\<not> su_committed s\<close> assms(1) by (auto simp: setup_inv_def advanced_def Let_def doCommit_def step_defs)
  ultimately show ?thesis by blast
qed

text \<open>A pass keeps the invariant, is a run of the wizard, and stops only at a stage whose signal is missing.\<close>

lemma recompute_props:
  "setup_inv s \<Longrightarrow> setup_inv (recompute sg s)
     \<and> (\<exists>fs. run wizard_step (wizard_of s) fs (wizard_of (recompute sg s)))
     \<and> snd (next_step sg (recompute sg s)) = su_step (recompute sg s)"
proof (induction "nat (7 - su_step s)" arbitrary: s rule: less_induct)
  case less
  obtain s1 n where n: "next_step sg s = (s1, n)" by fastforce
  show ?case
  proof (cases "n = su_step s")
    case True
    then have "recompute sg s = s" using recompute_round [OF less.prems] n by simp
    then show ?thesis using less.prems n True by auto
  next
    case False
    have r: "recompute sg s = recompute sg (advanced s1 n)" using recompute_round [OF less.prems] n False by simp
    note a = advanced_inv [OF less.prems n False]
    obtain x where x: "wizard_step (wizard_of s) x (wizard_of (advanced s1 n))" using a by blast
    have "su_step s < 7" using a by (simp add: setup_inv_def)
    then have "nat (7 - su_step (advanced s1 n)) < nat (7 - su_step s)" using a by simp
    from less.hyps [OF this] a obtain fs where
      "run wizard_step (wizard_of (advanced s1 n)) fs (wizard_of (recompute sg (advanced s1 n)))"
      "setup_inv (recompute sg (advanced s1 n))"
      "snd (next_step sg (recompute sg (advanced s1 n))) = su_step (recompute sg (advanced s1 n))" by blast
    moreover have "run wizard_step (wizard_of s) (x # fs) (wizard_of (recompute sg (advanced s1 n)))"
      using x calculation(1) by (rule run_Cons)
    ultimately show ?thesis using r by auto
  qed
qed

lemma setup_step_cases:
  assumes "setup_step s e s'" "setup_inv s"
  obtains t sg where "s' = recompute sg t" "wizard_of t = wizard_of s" "setup_inv t"
  | "wizard_of s' = wizard_of s" "setup_inv s'"
  using assms by (cases e)
    (force simp: setup_step_def setReachable_def markTVDescriptorSeen_def recomputeNow_def setPrecond_def wizard_of_def
      setup_inv_def Let_def split: if_splits)+

lemma setup_inv_init: "setup_init s \<Longrightarrow> setup_inv s"
  by (auto simp: setup_init_def newSetupStatus_def setup_inv_def Let_def step_defs split: if_splits)

lemma setup_inv_step: "setup_inv s \<Longrightarrow> setup_step s e s' \<Longrightarrow> setup_inv s'"
  using recompute_props by (blast elim: setup_step_cases)

lemma setup_refines: "setup_inv s \<Longrightarrow> setup_step s e s' \<Longrightarrow> \<exists>fs. run wizard_step (wizard_of s) fs (wizard_of s')"
proof -
  assume i: "setup_inv s" and "setup_step s e s'"
  from this(2,1) show ?thesis
  proof (rule setup_step_cases)
    fix t sg assume "s' = recompute sg t" "wizard_of t = wizard_of s" "setup_inv t"
    then show ?thesis using recompute_props [of t sg] by auto
  qed auto
qed

interpretation wizard_ref: refinement setup_init setup_step setup_inv wizard_of wizard_step
  by unfold_locales (auto intro: setup_inv_init setup_inv_step setup_refines)

section \<open>Which signals a step needs\<close>

text \<open>The evidence in the events so far for having left a step.\<close>

fun sig_of :: "setup_event \<Rightarrow> signals option" where
  "sig_of (SReachable sg _) = Some sg"
| "sig_of (SDescriptor sg) = Some sg"
| "sig_of (SRecompute sg) = Some sg"
| "sig_of (SPrecond _ _ _ _) = None"

definition seen_signal :: "(signals \<Rightarrow> bool) \<Rightarrow> setup_event list \<Rightarrow> bool" where
  "seen_signal P es \<longleftrightarrow> (\<exists>e \<in> set es. \<exists>sg. sig_of e = Some sg \<and> P sg)"

definition seen_reach :: "bool \<Rightarrow> setup_event list \<Rightarrow> bool" where
  "seen_reach r es \<longleftrightarrow> (\<exists>sg. SReachable sg r \<in> set es)"

definition evidence :: "setup_event list \<Rightarrow> int \<Rightarrow> bool" where
  "evidence es k \<longleftrightarrow>
     (if k = 1 then seen_signal sg_proPaired es
      else if k = 2 then seen_signal sg_tvPaired es \<or> (seen_reach True es \<and> seen_reach False es)
      else if k = 3 then seen_signal sg_tvPaired es \<or> (\<exists>sg. SDescriptor sg \<in> set es)
      else if k = 4 then seen_signal sg_tvPaired es
      else if k = 5 then seen_reach True es
      else k = 6 \<and> seen_signal sg_active es)"

text \<open>
  What the state remembers of the events; a Pro that was seen reachable and is not any more was
  reported unreachable.
\<close>

definition remembers :: "setupStatus \<Rightarrow> setup_event list \<Rightarrow> bool" where
  "remembers s es \<longleftrightarrow> (su_everReachable s \<longrightarrow> seen_reach True es) \<and> (su_proReachable s \<longrightarrow> seen_reach True es)
     \<and> (su_everReachable s \<and> \<not> su_proReachable s \<longrightarrow> seen_reach False es)
     \<and> (su_tvDescriptorSeen s \<longrightarrow> (\<exists>sg. SDescriptor sg \<in> set es))"

definition setup_hist :: "setupStatus \<Rightarrow> setup_event list \<Rightarrow> setupStatus \<Rightarrow> bool" where
  "setup_hist s0 es s \<longleftrightarrow> remembers s es \<and> (\<forall>k. su_step s0 \<le> k \<and> k < su_step s \<longrightarrow> evidence es k)"

lemma seen_mono: "seen_signal P es \<Longrightarrow> seen_signal P (es @ [e])" "seen_reach r es \<Longrightarrow> seen_reach r (es @ [e])"
  by (auto simp: seen_signal_def seen_reach_def)

lemma evidence_mono: "evidence es k \<Longrightarrow> evidence (es @ [e]) k"
  by (auto simp: evidence_def seen_mono split: if_splits)

lemma advanced_fields [simp]:
  "su_everReachable (advanced s1 n) = su_everReachable s1" "su_proReachable (advanced s1 n) = su_proReachable s1"
  "su_tvDescriptorSeen (advanced s1 n) = su_tvDescriptorSeen s1"
  by (simp_all add: advanced_def doCommit_def Let_def)

lemma next_step_fields:
  "next_step sg s = (s1, n) \<Longrightarrow> su_everReachable s1 = su_everReachable s \<and> su_proReachable s1 = su_proReachable s
     \<and> su_tvDescriptorSeen s1 = su_tvDescriptorSeen s"
  by (auto simp: next_step_def Let_def split: if_splits)

text \<open>A round that advances has its evidence in the event of the pass and in what is remembered.\<close>

lemma next_step_evidence:
  assumes "next_step sg s = (s1, n)" "n \<noteq> su_step s" "remembers s es" "seen_signal (\<lambda>g. g = sg) es"
  shows "evidence es (su_step s)"
proof -
  have sg: "seen_signal P es" if "P sg" for P using assms(4) that by (auto simp: seen_signal_def)
  show ?thesis using assms(1-3)
    by (auto simp: next_step_def step_defs Let_def evidence_def remembers_def intro: sg split: if_splits)
qed

lemma recompute_evidence:
  "setup_inv s \<Longrightarrow> remembers s es \<Longrightarrow> seen_signal (\<lambda>g. g = sg) es \<Longrightarrow>
     remembers (recompute sg s) es \<and> (\<forall>k. su_step s \<le> k \<and> k < su_step (recompute sg s) \<longrightarrow> evidence es k)"
proof (induction "nat (7 - su_step s)" arbitrary: s rule: less_induct)
  case less
  obtain s1 n where n: "next_step sg s = (s1, n)" by fastforce
  show ?case
  proof (cases "n = su_step s")
    case True
    then show ?thesis using recompute_round [OF less.prems(1)] n less.prems(2) by auto
  next
    case False
    have r: "recompute sg s = recompute sg (advanced s1 n)" using recompute_round [OF less.prems(1)] n False by simp
    note a = advanced_inv [OF less.prems(1) n False]
    have "su_step s < 7" using a by (simp add: setup_inv_def)
    then have m: "nat (7 - su_step (advanced s1 n)) < nat (7 - su_step s)" using a by simp
    have "remembers (advanced s1 n) es" using less.prems(2) next_step_fields [OF n] by (simp add: remembers_def)
    with less.hyps [OF m] a less.prems(3) have i: "remembers (recompute sg s) es"
      "\<forall>k. su_step s + 1 \<le> k \<and> k < su_step (recompute sg s) \<longrightarrow> evidence es k" by (simp_all add: r)
    have "evidence es (su_step s)" using next_step_evidence n False less.prems(2,3) by blast
    then show ?thesis using i by (metis add1_zle_eq order_le_less)
  qed
qed

lemma setup_hist_step:
  assumes "setup_inv s" "setup_hist s0 es s" "setup_step s e s'"
  shows "setup_hist s0 (es @ [e]) s'"
proof -
  have old: "\<forall>k. su_step s0 \<le> k \<and> k < su_step s \<longrightarrow> evidence (es @ [e]) k"
    using assms(2) evidence_mono by (simp add: setup_hist_def)
  have pass: ?thesis if "s' = recompute sg t" "su_step t = su_step s" "setup_inv t" "remembers t (es @ [e])" "sig_of e = Some sg" for sg t
  proof -
    have "seen_signal (\<lambda>g. g = sg) (es @ [e])" using that(5) by (auto simp: seen_signal_def)
    from recompute_evidence [OF that(3,4) this] show ?thesis using old that(1,2)
      by (simp add: setup_hist_def) (meson not_le)
  qed
  have rem: "remembers s es" using assms(2) by (simp add: setup_hist_def)
  show ?thesis
  proof (cases e)
    case (SReachable sg r)
    let ?t = "(if r then s\<lparr>su_everReachable := True\<rparr> else s)\<lparr>su_proReachable := r\<rparr>"
    have "seen_reach r (es @ [e])" by (auto simp: seen_reach_def SReachable)
    then have "remembers ?t (es @ [e])" using rem by (auto simp: remembers_def seen_mono)
    moreover have "setup_inv ?t" using assms(1) by (simp add: setup_inv_def)
    ultimately show ?thesis using assms(3) by (intro pass [of sg ?t]) (simp_all add: SReachable setup_step_def setReachable_def Let_def)
  next
    case (SDescriptor sg)
    show ?thesis
    proof (cases "su_step s = stepRebootTV")
      case True
      let ?t = "s\<lparr>su_tvDescriptorSeen := True\<rparr>"
      have "remembers ?t (es @ [e])" using rem by (auto simp: remembers_def seen_mono SDescriptor)
      moreover have "setup_inv ?t" using assms(1) by (simp add: setup_inv_def)
      ultimately show ?thesis using assms(3) True
        by (intro pass [of sg ?t]) (simp_all add: SDescriptor setup_step_def markTVDescriptorSeen_def)
    next
      case False
      then have "s' = s" using assms(3) by (simp add: SDescriptor setup_step_def markTVDescriptorSeen_def)
      then show ?thesis using old rem by (auto simp: setup_hist_def remembers_def seen_mono)
    qed
  next
    case (SRecompute sg)
    have "remembers s (es @ [e])" using rem by (auto simp: remembers_def seen_mono)
    then show ?thesis using assms(1,3) by (intro pass [of sg s]) (simp_all add: SRecompute setup_step_def recomputeNow_def)
  next
    case (SPrecond ok host isPro msg)
    then show ?thesis using assms(3) old rem
      by (auto simp: setup_step_def setPrecond_def setup_hist_def remembers_def seen_mono)
  qed
qed

lemma setup_hist_init: "setup_init s \<Longrightarrow> setup_hist s [] s"
  by (auto simp: setup_init_def setup_hist_def newSetupStatus_def remembers_def Let_def split: if_splits)

interpretation wizard_hist: history_system setup_init setup_step setup_inv setup_hist
  by unfold_locales (auto intro: setup_hist_init setup_hist_step)

section \<open>Property\<close>

lemma wizard_run_saves:
  "run wizard_step w fs w' \<Longrightarrow> wz_at w \<le> wz_at w' \<and> (wz_at w \<le> 6 \<longrightarrow> wz_saves w' = wz_saves w + (if wz_at w' = 7 then 1 else 0) \<and> wz_at w' \<le> 7)
     \<and> (wz_at w = 7 \<longrightarrow> w' = w)"
proof (induction rule: run.induct)
  case (run_snoc w fs w1 x w2)
  from run_snoc.hyps(2) have "wz_at w1 = stage_no x" "w2 = \<lparr>wz_at = wz_at w1 + 1, wz_skipped = (wz_skipped w1 \<or> x = SkipPowerCycle),
     wz_saves = wz_saves w1 + (if x = AssignBulbs then 1 else 0)\<rparr>" by (auto elim: wizard_stepE)
  then show ?case using run_snoc.IH by (cases x) (auto split: if_splits)
qed simp

text \<open>
  C13: the wizard keeps its promise to the user.  Every run of the machine is a run of the specification:
  the six stages in order, each completed once.  A step is left only on evidence: a paired Pro, a Pro
  that was seen on and then off (or a TV already paired), the TV's descriptor fetch or its pairing,
  the paired TV, the Pro back, the TV driving the lights.  The configuration is saved exactly when
  the last step is left, once, and never for an installation that was set up before.
\<close>

theorem setup_refines_wizard:
  assumes "run setup_step (newSetupStatus committed) es s"
  shows "(\<exists>fs. run wizard_step (wizard_of (newSetupStatus committed)) fs (wizard_of s))
    \<and> (\<forall>k. su_step (newSetupStatus committed) \<le> k \<and> k < su_step s \<longrightarrow> evidence es k)
    \<and> su_commits s = (if \<not> committed \<and> su_step s = stepDone then 1 else 0)"
proof -
  have i: "setup_init (newSetupStatus committed)" by (auto simp: setup_init_def)
  obtain fs where fs: "run wizard_step (wizard_of (newSetupStatus committed)) fs (wizard_of s)"
    using wizard_ref.reachable_refines [OF i assms] ..
  have "su_commits s = (if \<not> committed \<and> su_step s = stepDone then 1 else 0)"
    using wizard_run_saves [OF fs] by (cases committed) (auto simp: wizard_of_def newSetupStatus_def Let_def step_defs)
  moreover have "setup_hist (newSetupStatus committed) es s" using wizard_hist.reachable_hist [OF assms i] .
  ultimately show ?thesis using fs by (auto simp: setup_hist_def)
qed

definition quiet_signals :: signals where
  "quiet_signals = \<lparr>sg_proPaired = True, sg_tvPaired = False, sg_active = False\<rparr>"

definition demo_setup :: "setup_event list" where
  "demo_setup = [SRecompute quiet_signals, SReachable quiet_signals True, SReachable quiet_signals False,
     SDescriptor quiet_signals, SReachable (quiet_signals\<lparr>sg_tvPaired := True\<rparr>) True,
     SRecompute (quiet_signals\<lparr>sg_tvPaired := True, sg_active := True\<rparr>)]"

lemma setup_refines_wizard_witness:
  "\<exists>s. run setup_step (newSetupStatus False) demo_setup s \<and> su_step s = 7 \<and> su_commits s = 1"
proof -
  have "case exec (\<lambda>s e. Some (setup_next s e)) (newSetupStatus False) demo_setup of None \<Rightarrow> False | Some s \<Rightarrow> su_step s = 7"
    by code_simp
  then obtain s where e: "exec (\<lambda>s e. Some (setup_next s e)) (newSetupStatus False) demo_setup = Some s" "su_step s = 7"
    by (auto split: option.splits)
  have r: "run setup_step (newSetupStatus False) demo_setup s" by (rule exec_run [OF e(1)]) (simp add: setup_step_def)
  from setup_refines_wizard [OF r] e(2) r show ?thesis by (auto simp: step_defs)
qed

text \<open>The machine does not hang: after every pass the current step's own signal is missing, or setup is done.\<close>

lemma recompute_exhausts: "setup_inv s \<Longrightarrow> snd (next_step sg (recompute sg s)) = su_step (recompute sg s)"
  using recompute_props by blast

end
