(* ===== verification/Watcher.thy ===== *)
theory Watcher
  imports Systems ConfigStore HueClient Setup
begin

text \<open>
  Finding, pairing and following the Hue Bridge Pro: the selection at the first pairing, the watcher
  that re-discovers a paired Pro whose address changed (\<open>cmd/relume-tv/pro.go\<close>), and the pairing in
  the background (\<open>autoPairPro\<close>, \<open>reconnectProConfig\<close> in \<open>main.go\<close>).  What these functions ask of
  the network is a \<open>seams\<close> record over a world \<open>'w\<close>; \<open>newProWatcher\<close> wires the production seams.
  Of a log line its level is kept.
\<close>

section \<open>What is asked of the network\<close>

record 'w seams =
  sm_healthCheck :: "BridgePro \<Rightarrow> 'w \<Rightarrow> pro_error option \<times> 'w"
  sm_discover :: "'w \<Rightarrow> DiscoveredBridge list option \<times> 'w"
  sm_fetchFingerprint :: "string \<Rightarrow> 'w \<Rightarrow> string option \<times> 'w"
  sm_now :: "'w \<Rightarrow> int"

text \<open>
  The production seams: a Pro answers over a connection verified against its pairing (\<open>tr\<close>), the
  multicast query and the TLS handshake are the world's.
\<close>

definition newProWatcher ::
  "(BridgePro \<Rightarrow> 'w transport) \<Rightarrow> (cert \<Rightarrow> nat list) \<Rightarrow> ('w \<Rightarrow> ServiceEntry list option \<times> 'w)
     \<Rightarrow> (string \<Rightarrow> 'w \<Rightarrow> cert list option \<times> 'w) \<Rightarrow> ('w \<Rightarrow> int) \<Rightarrow> string \<Rightarrow> 'w seams" where
  "newProWatcher tr sha256 query dial clock ownID =
     \<lparr>sm_healthCheck = (\<lambda>p w. case BridgeInfo (tr p) (NewClient p) w of
          (Inl e, w') \<Rightarrow> (Some e, w') | (Inr _, w') \<Rightarrow> (None, w')),
      sm_discover = (\<lambda>w. case query w of (es, w') \<Rightarrow> (Discover ownID es, w')),
      sm_fetchFingerprint = (\<lambda>host w. case dial host w of (conn, w') \<Rightarrow> (FetchLeafFingerprint sha256 conn, w')),
      sm_now = clock\<rparr>"

section \<open>Selecting a bridge\<close>

text \<open>A reconnect takes only the bridge whose id was stored: host and id, both empty when it is not there.\<close>

definition resolveProHost ::
  "string \<Rightarrow> ('w \<Rightarrow> DiscoveredBridge list option \<times> 'w) \<Rightarrow> 'w \<Rightarrow> (string \<times> string) option \<times> 'w" where
  "resolveProHost want discover w =
     (case discover w of
        (None, w') \<Rightarrow> (None, w')
      | (Some bridges, w') \<Rightarrow>
          (if bridges = [] then Some ([], [])
           else if want \<noteq> [] then
             (case find (\<lambda>b. db_ID b = want) bridges of
                Some b \<Rightarrow> Some (db_InternalIPAddress b, db_ID b)
              | None \<Rightarrow> Some ([], []))
           else Some ([], []), w'))"

datatype select_error = ErrDiscover | ErrNoProBridge "string list" | ErrProModelUnknown nat

text \<open>The loop over the discovered bridges, with the models seen so far and whether any answered.\<close>

fun select_loop ::
  "(string \<Rightarrow> 'w \<Rightarrow> (model_error + string) \<times> 'w) \<Rightarrow> DiscoveredBridge list \<Rightarrow> string list \<Rightarrow> bool \<Rightarrow> 'w
     \<Rightarrow> (string list \<times> bool + string \<times> string \<times> string) \<times> 'w" where
  "select_loop fetchModel [] seen responded w = (Inl (seen, responded), w)"
| "select_loop fetchModel (b # bs) seen responded w =
     (case (if db_ModelID b = [] then fetchModel (db_InternalIPAddress b) w else (Inr (db_ModelID b), w)) of
        (Inl _, w') \<Rightarrow> select_loop fetchModel bs seen responded w'
      | (Inr mid, w') \<Rightarrow>
          if mid = ModelHueBridgePro then (Inr (db_InternalIPAddress b, db_ID b, mid), w')
          else select_loop fetchModel bs (seen @ [mid]) True w')"

definition selectProForPairing ::
  "('w \<Rightarrow> DiscoveredBridge list option \<times> 'w) \<Rightarrow> (string \<Rightarrow> 'w \<Rightarrow> (model_error + string) \<times> 'w) \<Rightarrow> 'w
     \<Rightarrow> (select_error + string \<times> string \<times> string) \<times> 'w" where
  "selectProForPairing discover fetchModel w =
     (case discover w of
        (None, w1) \<Rightarrow> (Inl ErrDiscover, w1)
      | (Some bridges, w1) \<Rightarrow>
          if bridges = [] then (Inr ([], [], []), w1)
          else (case select_loop fetchModel bridges [] False w1 of
              (Inr r, w2) \<Rightarrow> (Inr r, w2)
            | (Inl (seen, responded), w2) \<Rightarrow>
                (Inl (if responded then ErrNoProBridge seen else ErrProModelUnknown (length bridges)), w2)))"

definition pinProShell ::
  "string \<Rightarrow> string \<Rightarrow> bool \<Rightarrow> (string \<Rightarrow> 'w \<Rightarrow> string option \<times> 'w) \<Rightarrow> 'w \<Rightarrow> BridgePro option \<times> 'w" where
  "pinProShell host discoveryID skipTLS fetchFingerprint w =
     (let pro = zero_BridgePro\<lparr>bp_Host := host, bp_SkipTLSVerify := skipTLS, bp_DiscoveryID := discoveryID\<rparr> in
      if \<not> skipTLS
      then (case fetchFingerprint host w of
              (None, w') \<Rightarrow> (None, w')
            | (Some fp, w') \<Rightarrow> (Some (pro\<lparr>bp_CertSHA256 := fp\<rparr>), w'))
      else (Some pro, w))"

definition reconnectProConfig :: "BridgePro \<Rightarrow> string \<Rightarrow> string \<Rightarrow> bool \<Rightarrow> BridgePro" where
  "reconnectProConfig old host certSHA256 skipTLS =
     \<lparr>bp_Host = host, bp_AppKey = bp_AppKey old, bp_ClientKey = bp_ClientKey old, bp_CertSHA256 = certSHA256,
      bp_SkipTLSVerify = (skipTLS \<or> bp_SkipTLSVerify old), bp_Name = bp_Name old, bp_BridgeID = bp_BridgeID old,
      bp_DiscoveryID = bp_DiscoveryID old\<rparr>"

text \<open>
  A reference for the loop: what every bridge answered, in order, and the first Pro among the answers.
\<close>

fun probe :: "(string \<Rightarrow> 'w \<Rightarrow> (model_error + string) \<times> 'w) \<Rightarrow> DiscoveredBridge list \<Rightarrow> 'w \<Rightarrow> string option list" where
  "probe fetchModel [] w = []"
| "probe fetchModel (b # bs) w =
     (if db_ModelID b \<noteq> [] then Some (db_ModelID b) # probe fetchModel bs w
      else (case fetchModel (db_InternalIPAddress b) w of
          (Inl _, w') \<Rightarrow> None # probe fetchModel bs w'
        | (Inr m, w') \<Rightarrow> Some m # probe fetchModel bs w'))"

lemma select_loop_probe:
  "fst (select_loop fetchModel bs seen responded w) =
     (case find (\<lambda>(b, m). m = Some ModelHueBridgePro) (zip bs (probe fetchModel bs w)) of
        Some (b, m) \<Rightarrow> Inr (db_InternalIPAddress b, db_ID b, ModelHueBridgePro)
      | None \<Rightarrow> (let ms = List.map_filter id (probe fetchModel bs w) in Inl (seen @ ms, responded \<or> ms \<noteq> [])))"
proof (induction bs arbitrary: seen responded w)
  case (Cons b bs)
  show ?case
  proof (cases "db_ModelID b = []")
    case True
    then show ?thesis by (cases "fetchModel (db_InternalIPAddress b) w" rule: prod.exhaust, rename_tac r w')
      (case_tac r, auto simp: List.map_filter_simps Let_def Cons.IH split: option.split)
  next
    case False
    then show ?thesis by (auto simp: List.map_filter_simps Let_def Cons.IH split: option.split)
  qed
qed (simp add: List.map_filter_simps)

text \<open>
  The first pairing selects the right bridge and explains every failure.  The loop that stops at
  the first Pro computes what its specification says: with the models all bridges answer, in order,
  the result is the first bridge that is a Hue Bridge Pro; without one the error lists the models
  that did answer, or says that none did; an empty network and a failed discovery are told apart.
\<close>

theorem selectProForPairing_spec:
  "fst (selectProForPairing discover fetchModel w) =
     (case discover w of
        (None, w1) \<Rightarrow> Inl ErrDiscover
      | (Some bs, w1) \<Rightarrow>
          if bs = [] then Inr ([], [], [])
          else (case find (\<lambda>(b, m). m = Some ModelHueBridgePro) (zip bs (probe fetchModel bs w1)) of
              Some (b, m) \<Rightarrow> Inr (db_InternalIPAddress b, db_ID b, ModelHueBridgePro)
            | None \<Rightarrow> (case List.map_filter id (probe fetchModel bs w1) of
                  [] \<Rightarrow> Inl (ErrProModelUnknown (length bs))
                | m # ms \<Rightarrow> Inl (ErrNoProBridge (m # ms)))))"
proof (cases "discover w")
  case (Pair bso w1)
  show ?thesis
  proof (cases bso)
    case (Some bs)
    have "fst (selectProForPairing discover fetchModel w) = (if bs = [] then Inr ([], [], [])
        else (case fst (select_loop fetchModel bs [] False w1) of
              Inr r \<Rightarrow> Inr r
            | Inl (seen, responded) \<Rightarrow> Inl (if responded then ErrNoProBridge seen else ErrProModelUnknown (length bs))))"
      using Pair Some by (auto simp: selectProForPairing_def split: prod.split sum.split)
    then show ?thesis using Pair Some by (auto simp: select_loop_probe Let_def split: option.split list.split)
  qed (simp add: selectProForPairing_def Pair)
qed

lemma select_found:
  assumes "selectProForPairing discover fetchModel w = (Inr (host, i, mid), w')" "host \<noteq> []"
  obtains bs w1 b m where "discover w = (Some bs, w1)" "b \<in> set bs" "db_InternalIPAddress b = host" "db_ID b = i"
    "mid = ModelHueBridgePro"
proof -
  obtain bs w1 where bs: "discover w = (Some bs, w1)" "bs \<noteq> []"
    and l: "fst (select_loop fetchModel bs [] False w1) = Inr (host, i, mid)"
    using assms by (auto simp: selectProForPairing_def split: prod.splits option.splits sum.splits if_splits)
  from l obtain b m where f: "find (\<lambda>(b, m). m = Some ModelHueBridgePro) (zip bs (probe fetchModel bs w1)) = Some (b, m)"
    and b: "db_InternalIPAddress b = host" "db_ID b = i" "mid = ModelHueBridgePro"
    by (auto simp: select_loop_probe Let_def split: option.splits)
  from f have "(b, m) \<in> set (zip bs (probe fetchModel bs w1))" by (auto simp: find_Some_iff in_set_conv_nth)
  then have "b \<in> set bs" by (rule set_zip_leftD)
  then show ?thesis using that bs b by blast
qed

section \<open>The watcher\<close>

datatype log_level = LevelDebug | LevelInfo | LevelWarn | LevelError

text \<open>The levels of \<open>slog\<close> in their order, by the numbers the package gives them.\<close>

fun level_no :: "log_level \<Rightarrow> int" where
  "level_no LevelDebug = -4"
| "level_no LevelInfo = 0"
| "level_no LevelWarn = 4"
| "level_no LevelError = 8"

instantiation log_level :: linorder
begin

definition less_eq_log_level :: "log_level \<Rightarrow> log_level \<Rightarrow> bool" where
  "l \<le> m \<longleftrightarrow> level_no l \<le> level_no m"

definition less_log_level :: "log_level \<Rightarrow> log_level \<Rightarrow> bool" where
  "l < m \<longleftrightarrow> level_no l < level_no m"

instance
proof
  fix l m :: log_level
  show "l \<le> m \<Longrightarrow> m \<le> l \<Longrightarrow> l = m" by (cases l; cases m; simp add: less_eq_log_level_def)
qed (auto simp: less_eq_log_level_def less_log_level_def)

end

text \<open>
  The watcher with what it acts on: the configuration and its file, the pairings handed to
  \<open>applyProvider\<close>, the values reported to \<open>onReachable\<close> (none when it is not wired) and the levels logged.
\<close>

record 'w watch =
  wa_skipTLS :: bool
  wa_interval :: duration
  wa_onReachable :: bool
  wa_lastDiscover :: gotime
  wa_cfg :: Config
  wa_file :: file_state
  wa_env :: 'w
  wa_applied :: "BridgePro list"
  wa_reports :: "bool list"
  wa_logged :: "log_level list"

definition discoverThrottleSetup :: duration where
  "discoverThrottleSetup = 15 * second"

definition discoverThrottleSteady :: duration where
  "discoverThrottleSteady = 60 * second"

definition discoverThrottle :: "'w watch \<Rightarrow> duration" where
  "discoverThrottle s = (if Committed (wa_cfg s) then discoverThrottleSteady else discoverThrottleSetup)"

definition checkInterval :: "'w watch \<Rightarrow> duration" where
  "checkInterval s = (if wa_interval s \<le> 0 \<or> Committed (wa_cfg s) then 60 * second else wa_interval s)"

definition reportReachable :: "bool \<Rightarrow> 'w watch \<Rightarrow> 'w watch" where
  "reportReachable b s = (if wa_onReachable s then s\<lparr>wa_reports := wa_reports s @ [b]\<rparr> else s)"

definition logged :: "log_level \<Rightarrow> 'w watch \<Rightarrow> 'w watch" where
  "logged l s = s\<lparr>wa_logged := wa_logged s @ [l]\<rparr>"

definition retryLog :: "'w watch \<Rightarrow> 'w watch" where
  "retryLog s = logged (if Committed (wa_cfg s) then LevelWarn else LevelDebug) s"

text \<open>The second half of a tick: from the discovery on, for a Pro that does not answer.\<close>

definition rediscover :: "writer \<Rightarrow> 'w seams \<Rightarrow> BridgePro \<Rightarrow> 'w watch \<Rightarrow> bool \<times> 'w watch" where
  "rediscover write sm pro s =
     (case resolveProHost (bp_DiscoveryID pro) (sm_discover sm) (wa_env s) of (r, w1) \<Rightarrow>
        let s1 = s\<lparr>wa_env := w1\<rparr>; giveUp = (\<lambda>t. (False, reportReachable False (retryLog t))) in
        (case r of
           None \<Rightarrow> giveUp s1
         | Some (host, discoveryID) \<Rightarrow>
             if host = [] then giveUp s1
             else (case (if \<not> wa_skipTLS s1 \<and> \<not> bp_SkipTLSVerify pro then sm_fetchFingerprint sm host w1
                         else (Some (bp_CertSHA256 pro), w1)) of
                 (None, w2) \<Rightarrow> giveUp (s1\<lparr>wa_env := w2\<rparr>)
               | (Some certSHA, w2) \<Rightarrow>
                   let updated0 = reconnectProConfig pro host certSHA (wa_skipTLS s1);
                     updated = (if discoveryID \<noteq> [] then updated0\<lparr>bp_DiscoveryID := discoveryID\<rparr> else updated0) in
                   (case sm_healthCheck sm updated w2 of
                      (Some _, w3) \<Rightarrow> giveUp (s1\<lparr>wa_env := w3\<rparr>)
                    | (None, w3) \<Rightarrow>
                        (case SetPro write (Some updated) (wa_cfg s1) (wa_file s1) of (err, c', f') \<Rightarrow>
                           let s2 = s1\<lparr>wa_env := w3, wa_cfg := c', wa_file := f'\<rparr> in
                           if err \<noteq> None then (False, reportReachable False (logged LevelError s2))
                           else (True, reportReachable True (logged LevelInfo
                             (s2\<lparr>wa_applied := wa_applied s2 @ [updated]\<rparr>))))))))"

definition tick :: "writer \<Rightarrow> 'w seams \<Rightarrow> 'w watch \<Rightarrow> bool \<times> 'w watch" where
  "tick write sm s =
     (case GetPro (wa_cfg s) of
        None \<Rightarrow> (False, reportReachable False s)
      | Some pro \<Rightarrow>
          (case sm_healthCheck sm pro (wa_env s) of
             (None, w1) \<Rightarrow> (False, reportReachable True (s\<lparr>wa_env := w1\<rparr>))
           | (Some err, w1) \<Rightarrow>
               let s1 = s\<lparr>wa_env := w1\<rparr> in
               if isQueueFull err \<or> isDomain err then (False, reportReachable True (logged LevelWarn s1))
               else let s2 = retryLog s1; now = sm_now sm w1 in
                 if (case wa_lastDiscover s2 of None \<Rightarrow> False | Some d \<Rightarrow> now - d < discoverThrottle s2)
                 then (False, reportReachable False s2)
                 else rediscover write sm pro (s2\<lparr>wa_lastDiscover := Some now\<rparr>)))"

section \<open>What a tick may change\<close>

text \<open>
  \<open>follows sm skip pro new w w'\<close>: from world \<open>w\<close> on, discovery found the bridge with the stored id at
  \<open>new\<close>'s host, its certificate was fetched there unless verification is off, and it answered the
  health check under the new pairing, in world \<open>w'\<close>.
\<close>

definition follows :: "'w seams \<Rightarrow> bool \<Rightarrow> BridgePro \<Rightarrow> BridgePro \<Rightarrow> 'w \<Rightarrow> 'w \<Rightarrow> bool" where
  "follows sm skip pro new w w' \<longleftrightarrow>
     (\<exists>bs b w1 w2 fp. sm_discover sm w = (Some bs, w1) \<and> b \<in> set bs \<and> db_ID b = bp_DiscoveryID pro
        \<and> bp_DiscoveryID pro \<noteq> [] \<and> db_InternalIPAddress b \<noteq> []
        \<and> (if skip \<or> bp_SkipTLSVerify pro then fp = bp_CertSHA256 pro \<and> w2 = w1
           else sm_fetchFingerprint sm (db_InternalIPAddress b) w1 = (Some fp, w2))
        \<and> new = reconnectProConfig pro (db_InternalIPAddress b) fp skip
        \<and> sm_healthCheck sm new w2 = (None, w'))"

lemma resolveProHost_found:
  assumes "resolveProHost want discover w = (Some (host, i), w1)" "host \<noteq> []"
  obtains bs b where "discover w = (Some bs, w1)" "b \<in> set bs" "db_ID b = want" "want \<noteq> []"
    "db_InternalIPAddress b = host" "i = want"
proof -
  obtain bs where bs: "discover w = (Some bs, w1)" "want \<noteq> []"
    and f: "(case find (\<lambda>b. db_ID b = want) bs of Some b \<Rightarrow> Some (db_InternalIPAddress b, db_ID b) | None \<Rightarrow> Some ([], [])) = Some (host, i)"
    using assms by (auto simp: resolveProHost_def split: prod.splits option.splits if_splits)
  with assms(2) obtain b where "find (\<lambda>b. db_ID b = want) bs = Some b" "db_InternalIPAddress b = host" "db_ID b = i"
    by (auto split: option.splits)
  then show ?thesis using that [of bs b] bs by (auto simp: find_Some_iff)
qed

lemma report_fields [simp]:
  "wa_skipTLS (reportReachable b s) = wa_skipTLS s" "wa_lastDiscover (reportReachable b s) = wa_lastDiscover s"
  "wa_cfg (reportReachable b s) = wa_cfg s" "wa_file (reportReachable b s) = wa_file s"
  "wa_env (reportReachable b s) = wa_env s" "wa_applied (reportReachable b s) = wa_applied s"
  "wa_logged (reportReachable b s) = wa_logged s" "wa_onReachable (reportReachable b s) = wa_onReachable s"
  "wa_reports (reportReachable b s) = wa_reports s @ (if wa_onReachable s then [b] else [])"
  by (simp_all add: reportReachable_def)

lemma logged_fields [simp]:
  "wa_skipTLS (logged l s) = wa_skipTLS s" "wa_lastDiscover (logged l s) = wa_lastDiscover s"
  "wa_cfg (logged l s) = wa_cfg s" "wa_file (logged l s) = wa_file s" "wa_env (logged l s) = wa_env s"
  "wa_applied (logged l s) = wa_applied s" "wa_logged (logged l s) = wa_logged s @ [l]"
  "wa_onReachable (logged l s) = wa_onReachable s" "wa_reports (logged l s) = wa_reports s"
  by (simp_all add: logged_def)

lemma retry_fields [simp]:
  "wa_skipTLS (retryLog s) = wa_skipTLS s" "wa_lastDiscover (retryLog s) = wa_lastDiscover s"
  "wa_cfg (retryLog s) = wa_cfg s" "wa_file (retryLog s) = wa_file s" "wa_env (retryLog s) = wa_env s"
  "wa_applied (retryLog s) = wa_applied s" "wa_onReachable (retryLog s) = wa_onReachable s"
  "wa_reports (retryLog s) = wa_reports s"
  "wa_logged (retryLog s) = wa_logged s @ [if Committed (wa_cfg s) then LevelWarn else LevelDebug]"
  by (simp_all add: retryLog_def)

text \<open>The three ways a re-discovery ends: no evidence, a failed save, a reconnect.\<close>

lemma rediscover_cases:
  assumes "rediscover write sm pro s = (r, s')"
  obtains (kept) "\<not> r" "wa_cfg s' = wa_cfg s" "wa_file s' = wa_file s" "wa_applied s' = wa_applied s"
      "wa_reports s' = wa_reports s @ (if wa_onReachable s then [False] else [])"
      "wa_logged s' = wa_logged s @ [if Committed (wa_cfg s) then LevelWarn else LevelDebug]"
  | (unsaved) new w3 e where "\<not> r" "follows sm (wa_skipTLS s) pro new (wa_env s) w3"
      "SetPro write (Some new) (wa_cfg s) (wa_file s) = (Some e, wa_cfg s', wa_file s')" "wa_applied s' = wa_applied s"
      "wa_reports s' = wa_reports s @ (if wa_onReachable s then [False] else [])" "wa_logged s' = wa_logged s @ [LevelError]"
  | (moved) new w3 where "r" "follows sm (wa_skipTLS s) pro new (wa_env s) w3"
      "SetPro write (Some new) (wa_cfg s) (wa_file s) = (None, wa_cfg s', wa_file s')" "wa_applied s' = wa_applied s @ [new]"
      "wa_reports s' = wa_reports s @ (if wa_onReachable s then [True] else [])" "wa_logged s' = wa_logged s @ [LevelInfo]"
proof -
  obtain res w1 where res: "resolveProHost (bp_DiscoveryID pro) (sm_discover sm) (wa_env s) = (res, w1)" by fastforce
  show ?thesis
  proof (cases res)
    case None
    show ?thesis using assms by (intro kept) (auto simp: rediscover_def res None)
  next
    case (Some hi)
    obtain host i where hi: "hi = (host, i)" by fastforce
    show ?thesis
    proof (cases "host = []")
      case True
      show ?thesis using assms by (intro kept) (auto simp: rediscover_def res Some hi True)
    next
      case False
      obtain bs b where b: "sm_discover sm (wa_env s) = (Some bs, w1)" "b \<in> set bs" "db_ID b = bp_DiscoveryID pro"
        "bp_DiscoveryID pro \<noteq> []" "db_InternalIPAddress b = host" "i = bp_DiscoveryID pro"
        using resolveProHost_found [OF _ False] res Some hi by metis
      define fetch where "fetch = (if \<not> wa_skipTLS s \<and> \<not> bp_SkipTLSVerify pro then sm_fetchFingerprint sm host w1
                         else (Some (bp_CertSHA256 pro), w1))"
      obtain fpo w2 where f: "fetch = (fpo, w2)" by fastforce
      show ?thesis
      proof (cases fpo)
        case None
        show ?thesis using assms f [unfolded fetch_def] by (intro kept) (auto simp: rediscover_def res Some hi False None Let_def)
      next
        case fp: (Some fp)
        define new where "new = reconnectProConfig pro host fp (wa_skipTLS s)"
        have new2: "new\<lparr>bp_DiscoveryID := i\<rparr> = new" using b(6) by (simp add: new_def reconnectProConfig_def)
        obtain ho w3 where h: "sm_healthCheck sm new w2 = (ho, w3)" by fastforce
        have eq: "rediscover write sm pro s = (case sm_healthCheck sm new w2 of
            (Some _, w3) \<Rightarrow> (False, reportReachable False (retryLog (s\<lparr>wa_env := w3\<rparr>)))
          | (None, w3) \<Rightarrow> (case SetPro write (Some new) (wa_cfg s) (wa_file s) of (err, c', f') \<Rightarrow>
               let s2 = s\<lparr>wa_env := w3, wa_cfg := c', wa_file := f'\<rparr> in
               if err \<noteq> None then (False, reportReachable False (logged LevelError s2))
               else (True, reportReachable True (logged LevelInfo (s2\<lparr>wa_applied := wa_applied s2 @ [new]\<rparr>)))))"
          using f [unfolded fetch_def] b(4,6) new2
          by (simp add: rediscover_def res Some hi False fp Let_def new_def [symmetric] cong: option.case_cong if_cong)
        show ?thesis
        proof (cases ho)
          case (Some e)
          show ?thesis using assms by (intro kept) (auto simp: eq h Some)
        next
          case None
          have fol: "follows sm (wa_skipTLS s) pro new (wa_env s) w3"
            using b h None fp f False unfolding follows_def fetch_def new_def
            by (intro exI [of _ bs] exI [of _ b] exI [of _ w1] exI [of _ w2] exI [of _ fp]) (auto split: if_splits)
          obtain err c' f' where sp: "SetPro write (Some new) (wa_cfg s) (wa_file s) = (err, c', f')" by (metis prod_cases3)
          show ?thesis
          proof (cases err)
            case e: None
            show ?thesis using assms fol sp e by (intro moved [of new w3]) (auto simp: eq h None Let_def)
          next
            case (Some e)
            show ?thesis using assms fol sp Some by (intro unsaved [of new w3 e]) (auto simp: eq h None Let_def)
          qed
        qed
      qed
    qed
  qed
qed

definition busy :: "pro_error \<Rightarrow> bool" where
  "busy e \<longleftrightarrow> isQueueFull e \<or> isDomain e"

definition throttled :: "'w seams \<Rightarrow> 'w watch \<Rightarrow> 'w \<Rightarrow> bool" where
  "throttled sm s w \<longleftrightarrow> (case wa_lastDiscover s of None \<Rightarrow> False | Some d \<Rightarrow> sm_now sm w - d < discoverThrottle s)"

lemma tick_unfold:
  assumes "GetPro (wa_cfg s) = Some pro" "sm_healthCheck sm pro (wa_env s) = (h, w1)"
  shows "tick write sm s = (case h of
      None \<Rightarrow> (False, reportReachable True (s\<lparr>wa_env := w1\<rparr>))
    | Some e \<Rightarrow>
        if busy e then (False, reportReachable True (logged LevelWarn (s\<lparr>wa_env := w1\<rparr>)))
        else if throttled sm s w1 then (False, reportReachable False (retryLog (s\<lparr>wa_env := w1\<rparr>)))
        else rediscover write sm pro (retryLog (s\<lparr>wa_env := w1\<rparr>)\<lparr>wa_lastDiscover := Some (sm_now sm w1)\<rparr>))"
  using assms by (simp add: tick_def busy_def throttled_def Let_def discoverThrottle_def split: option.split)

lemma tick_moves_lemma:
  assumes "tick write sm s = (r, s')" "GetPro (wa_cfg s) = Some pro" "sm_healthCheck sm pro (wa_env s) = (h, w1)"
  shows "(\<not> r \<and> wa_cfg s' = wa_cfg s \<and> wa_file s' = wa_file s \<and> wa_applied s' = wa_applied s
      \<or> (\<exists>e err new w3. h = Some e \<and> \<not> busy e \<and> \<not> throttled sm s w1 \<and> follows sm (wa_skipTLS s) pro new w1 w3
          \<and> SetPro write (Some new) (wa_cfg s) (wa_file s) = (err, wa_cfg s', wa_file s')
          \<and> r = (err = None) \<and> wa_applied s' = wa_applied s @ (if r then [new] else [])))
    \<and> wa_reports s' = wa_reports s @ (if wa_onReachable s then [h = None \<or> (\<exists>e. h = Some e \<and> busy e) \<or> r] else [])"
proof (cases "\<exists>e. h = Some e \<and> \<not> busy e \<and> \<not> throttled sm s w1")
  case False
  then show ?thesis using assms(1) tick_unfold [OF assms(2,3), of "write"]
    by (cases h) (auto split: if_splits)
next
  case True
  then obtain e where e: "h = Some e" "\<not> busy e" "\<not> throttled sm s w1" by blast
  define t where "t = retryLog (s\<lparr>wa_env := w1\<rparr>)\<lparr>wa_lastDiscover := Some (sm_now sm w1)\<rparr>"
  have t: "wa_cfg t = wa_cfg s" "wa_file t = wa_file s" "wa_applied t = wa_applied s" "wa_reports t = wa_reports s"
    "wa_onReachable t = wa_onReachable s" "wa_skipTLS t = wa_skipTLS s" "wa_env t = w1" by (simp_all add: t_def)
  have "rediscover write sm pro t = (r, s')"
    using assms(1) tick_unfold [OF assms(2,3), of "write"] e by (simp add: t_def)
  then show ?thesis
  proof (cases rule: rediscover_cases)
    case kept then show ?thesis using e t by simp
  next
    case (unsaved new w3 e') then show ?thesis using e t by auto
  next
    case (moved new w3) then show ?thesis using e t by auto
  qed
qed

text \<open>
  The power cycle of the wizard takes the Pro away on purpose: until the commit, a tick that finds it
  gone logs nothing at or above a warning, unless the save of a reconnect fails.
\<close>

lemma setup_tick_quiet:
  assumes "tick write sm s = (r, s')" "GetPro (wa_cfg s) = Some pro" "sm_healthCheck sm pro (wa_env s) = (h, w1)"
    and "\<not> Committed (wa_cfg s)" "\<And>e. h = Some e \<Longrightarrow> \<not> busy e"
    and "\<And>new. fst (SetPro write (Some new) (wa_cfg s) (wa_file s)) = None"
  shows "\<exists>ls. wa_logged s' = wa_logged s @ ls \<and> (\<forall>l\<in>set ls. l < LevelWarn)"
proof (cases "\<exists>e. h = Some e \<and> \<not> throttled sm s w1")
  case False
  then show ?thesis using assms(1,4,5) tick_unfold [OF assms(2,3), of "write"]
    by (cases h) (auto simp: less_log_level_def)
next
  case True
  then obtain e where e: "h = Some e" "\<not> busy e" "\<not> throttled sm s w1" using assms(5) by blast
  define t where "t = retryLog (s\<lparr>wa_env := w1\<rparr>)\<lparr>wa_lastDiscover := Some (sm_now sm w1)\<rparr>"
  have t: "wa_cfg t = wa_cfg s" "wa_file t = wa_file s" "wa_logged t = wa_logged s @ [LevelDebug]"
    using assms(4) by (simp_all add: t_def)
  have "rediscover write sm pro t = (r, s')"
    using assms(1) tick_unfold [OF assms(2,3), of "write"] e by (simp add: t_def)
  then show ?thesis
  proof (cases rule: rediscover_cases)
    case (unsaved new w3 e')
    then show ?thesis using assms(6) [of new] t by simp
  qed (use t assms(4) in \<open>auto simp: less_log_level_def\<close>)
qed


text \<open>A moved Pro: the bridge answers at its new address only.\<close>

definition demo_stored :: BridgePro where
  "demo_stored = zero_BridgePro\<lparr>bp_Host := ''10.0.0.5'', bp_AppKey := ''k'', bp_ClientKey := ''AB'', bp_DiscoveryID := ''b1''\<rparr>"

definition demo_moved :: BridgePro where
  "demo_moved = demo_stored\<lparr>bp_Host := ''10.0.0.9'', bp_CertSHA256 := ''ff''\<rparr>"

definition demo_seams :: "int seams" where
  "demo_seams = \<lparr>sm_healthCheck = (\<lambda>p w. (if bp_Host p = ''10.0.0.9'' then None else Some (ErrUnreachable GET ''/''), w)),
     sm_discover = (\<lambda>w. (Some [\<lparr>db_ID = ''b0'', db_InternalIPAddress = ''10.0.0.7'', db_Port = 443, db_ModelID = ''BSB002''\<rparr>,
        \<lparr>db_ID = ''b1'', db_InternalIPAddress = ''10.0.0.9'', db_Port = 443, db_ModelID = ''BSB003''\<rparr>], w)),
     sm_fetchFingerprint = (\<lambda>host w. (Some ''ff'', w)), sm_now = (\<lambda>w. w)\<rparr>"

definition demo_watch :: "int watch" where
  "demo_watch = \<lparr>wa_skipTLS = False, wa_interval = 0, wa_onReachable = True, wa_lastDiscover = None,
     wa_cfg = demo_config\<lparr>cf_Pro := Some demo_stored\<rparr>, wa_file = FileAbsent, wa_env = 7, wa_applied = [],
     wa_reports = [], wa_logged = []\<rparr>"

lemmas demo_watch_simps = demo_watch_def demo_seams_def demo_stored_def demo_moved_def zero_BridgePro_def
  demo_config_def GetPro_def

lemma demo_tick:
  "tick sure_write demo_seams demo_watch =
     (True, demo_watch\<lparr>wa_lastDiscover := Some 7, wa_cfg := (wa_cfg demo_watch)\<lparr>cf_Pro := Some demo_moved\<rparr>,
        wa_applied := [demo_moved], wa_reports := [True], wa_logged := [LevelDebug, LevelInfo]\<rparr>)"
  by (simp add: tick_def rediscover_def resolveProHost_def reconnectProConfig_def reportReachable_def logged_def
      retryLog_def Committed_def config_ops demo_watch_simps Let_def)


section \<open>Following one bridge\<close>

datatype watch_event = WTick | WWorld | WConfig config_event

text \<open>
  Between two ticks the network changes as it likes and the rest of the program uses the
  configuration; the pairing itself is stored by the watcher alone.
\<close>

inductive watch_step :: "'w seams \<Rightarrow> 'w watch \<Rightarrow> watch_event \<Rightarrow> 'w watch \<Rightarrow> bool" for sm where
  ws_Tick: "tick write sm s = (r, s') \<Longrightarrow> watch_step sm s WTick s'"
| ws_World: "watch_step sm s WWorld (s\<lparr>wa_env := w\<rparr>)"
| ws_Config: "config_step (wa_cfg s, wa_file s) e (c, f) \<Longrightarrow> \<forall>p. e \<noteq> EvSetPro p \<Longrightarrow>
    watch_step sm s (WConfig e) (s\<lparr>wa_cfg := c, wa_file := f\<rparr>)"

inductive_cases watch_stepE: "watch_step sm s e s'"

definition same_bridge :: "BridgePro \<Rightarrow> BridgePro \<Rightarrow> bool" where
  "same_bridge p q \<longleftrightarrow> bp_AppKey q = bp_AppKey p \<and> bp_ClientKey q = bp_ClientKey p \<and> bp_Name q = bp_Name p
     \<and> bp_BridgeID q = bp_BridgeID p \<and> bp_DiscoveryID q = bp_DiscoveryID p"

definition watch_init :: "BridgePro \<Rightarrow> 'w watch \<Rightarrow> bool" where
  "watch_init pro s \<longleftrightarrow> GetPro (wa_cfg s) = Some pro \<and> wa_applied s = [] \<and> LevelError \<notin> set (wa_logged s)"

definition watch_inv :: "BridgePro \<Rightarrow> 'w watch \<Rightarrow> bool" where
  "watch_inv pro s \<longleftrightarrow> (\<exists>p. GetPro (wa_cfg s) = Some p \<and> same_bridge pro p
     \<and> (LevelError \<notin> set (wa_logged s) \<longrightarrow> p = last (pro # wa_applied s)))
   \<and> (\<forall>p\<in>set (wa_applied s). same_bridge pro p)"

lemma same_bridge_refl: "same_bridge p p"
  by (simp add: same_bridge_def)

lemma follows_same_bridge: "follows sm skip p q w w' \<Longrightarrow> same_bridge pro p \<Longrightarrow> same_bridge pro q"
  by (auto simp: follows_def same_bridge_def reconnectProConfig_def)

lemma SetPro_stores: "SetPro write p c f = (err, c', f') \<Longrightarrow> GetPro c' = p"
  by (auto simp: SetPro_def saving_def GetPro_def split: prod.splits)

lemma config_step_keeps_pro:
  "config_step (c, f) e (c', f') \<Longrightarrow> \<forall>p. e \<noteq> EvSetPro p \<Longrightarrow> GetPro c' = GetPro c"
  by (auto elim!: config_stepE simp: config_ops GetPro_def split: prod.splits if_splits)

lemma rediscover_logged: "rediscover write sm pro s = (r, s') \<Longrightarrow> set (wa_logged s) \<subseteq> set (wa_logged s')"
  by (erule rediscover_cases) auto

lemma tick_logged:
  assumes "tick write sm s = (r, s')" "GetPro (wa_cfg s) = Some pro"
  shows "set (wa_logged s) \<subseteq> set (wa_logged s')"
proof -
  obtain h w1 where h: "sm_healthCheck sm pro (wa_env s) = (h, w1)" by fastforce
  show ?thesis using assms(1) tick_unfold [OF assms(2) h, of "write"]
    by (auto split: option.splits if_splits dest!: rediscover_logged)
qed

lemma tick_unsaved_logged:
  assumes "tick write sm s = (r, s')" "GetPro (wa_cfg s) = Some pro" "\<not> r" "wa_cfg s' \<noteq> wa_cfg s"
  shows "LevelError \<in> set (wa_logged s')"
proof -
  obtain h w1 where h: "sm_healthCheck sm pro (wa_env s) = (h, w1)" by fastforce
  define t where "t = retryLog (s\<lparr>wa_env := w1\<rparr>)\<lparr>wa_lastDiscover := Some (sm_now sm w1)\<rparr>"
  have "rediscover write sm pro t = (r, s')"
    using assms tick_unfold [OF assms(2) h, of "write"] by (auto simp: t_def split: option.splits if_splits)
  then show ?thesis by (cases rule: rediscover_cases) (use assms in \<open>auto simp: t_def\<close>)
qed

lemma watch_inv_tick:
  assumes "watch_inv pro s" "tick write sm s = (r, s')" shows "watch_inv pro s'"
proof -
  obtain p where p: "GetPro (wa_cfg s) = Some p" "same_bridge pro p"
    "LevelError \<notin> set (wa_logged s) \<longrightarrow> p = last (pro # wa_applied s)" "\<forall>q\<in>set (wa_applied s). same_bridge pro q"
    using assms(1) by (auto simp: watch_inv_def)
  note lg = tick_logged [OF assms(2) p(1)]
  obtain h w1 where h: "sm_healthCheck sm p (wa_env s) = (h, w1)" by fastforce
  from tick_moves_lemma [OF assms(2) p(1) h]
  consider (kept) "wa_cfg s' = wa_cfg s" "wa_applied s' = wa_applied s"
    | (moved) err new w3 where "follows sm (wa_skipTLS s) p new w1 w3"
       "SetPro write (Some new) (wa_cfg s) (wa_file s) = (err, wa_cfg s', wa_file s')"
       "r = (err = None)" "wa_applied s' = wa_applied s @ (if r then [new] else [])" by blast
  then show ?thesis
  proof cases
    case kept
    then show ?thesis using p lg by (auto simp: watch_inv_def)
  next
    case moved
    have new: "same_bridge pro new" using moved(1) p(2) by (rule follows_same_bridge)
    have cfg: "GetPro (wa_cfg s') = Some new" using SetPro_stores moved(2) .
    show ?thesis
    proof (cases r)
      case True
      then show ?thesis using p new cfg moved(4) by (auto simp: watch_inv_def)
    next
      case False
      have "LevelError \<notin> set (wa_logged s') \<Longrightarrow> wa_cfg s' = wa_cfg s"
        using tick_unsaved_logged [OF assms(2) p(1) False] by blast
      then show ?thesis using p new cfg moved(4) False lg by (auto simp: watch_inv_def)
    qed
  qed
qed

lemma watch_inv_step: "watch_inv pro s \<Longrightarrow> watch_step sm s e s' \<Longrightarrow> watch_inv pro s'"
  by (erule watch_stepE) (auto intro: watch_inv_tick, auto simp: watch_inv_def dest: config_step_keeps_pro)

interpretation watcher: invariant_system "watch_init pro" "watch_step sm" "watch_inv pro" for pro :: BridgePro and sm :: "'w seams"
proof unfold_locales
  show "watch_inv pro s" if "watch_init pro s" for s :: "'w watch"
    using that by (simp add: watch_init_def watch_inv_def same_bridge_refl)
qed (rule watch_inv_step)

text \<open>
  C21: the watcher follows one bridge.  However the network changes, whatever saves fail and whatever
  else the program stores, every provider the watcher installs and the stored pairing are for the
  bridge that was paired, with its credentials and its discovery id; and as long as no save of a
  pairing failed, the installed provider is the one of the stored pairing.
\<close>

theorem watcher_follows_one_bridge:
  assumes "GetPro (wa_cfg s0) = Some pro" "wa_applied s0 = []" "LevelError \<notin> set (wa_logged s0)"
    and "run (watch_step sm) s0 es s"
  shows "\<exists>p. GetPro (wa_cfg s) = Some p \<and> same_bridge pro p \<and> (\<forall>q\<in>set (wa_applied s). same_bridge pro q)
    \<and> (LevelError \<notin> set (wa_logged s) \<longrightarrow> p = last (pro # wa_applied s))"
proof -
  have "watch_inv pro s" using watcher.reachable_inv [OF _ assms(4), of pro] assms(1-3) by (simp add: watch_init_def)
  then show ?thesis by (auto simp: watch_inv_def)
qed

lemma watcher_follows_one_bridge_witness:
  "\<exists>s. run (watch_step demo_seams) demo_watch [WTick] s \<and> wa_applied s = [demo_moved]
     \<and> GetPro (wa_cfg s) = Some (last (demo_stored # wa_applied s)) \<and> same_bridge demo_stored demo_moved"
proof -
  obtain s where s: "tick sure_write demo_seams demo_watch = (True, s)" using demo_tick by blast
  have a: "wa_applied s = [demo_moved]" "LevelError \<notin> set (wa_logged s)" using s demo_tick by auto
  have r: "run (watch_step demo_seams) demo_watch [WTick] s" using s by (intro run_single ws_Tick)
  have "\<exists>p. GetPro (wa_cfg s) = Some p \<and> same_bridge demo_stored p \<and> (\<forall>q\<in>set (wa_applied s). same_bridge demo_stored q)
    \<and> (LevelError \<notin> set (wa_logged s) \<longrightarrow> p = last (demo_stored # wa_applied s))"
    by (rule watcher_follows_one_bridge [OF _ _ _ r]) (simp_all add: demo_watch_def GetPro_def)
  then show ?thesis using r a by (intro exI [of _ s]) auto
qed

text \<open>
  The restriction is needed: when the save of the new pairing fails, the memory already holds it, so
  the next tick finds a healthy Pro and reports it, and the provider keeps writing to the old host.
\<close>

definition failing_write :: writer where
  "failing_write v f = (False, f)"

lemma failed_save_strands_provider:
  "\<exists>s1 s2. tick failing_write demo_seams (demo_watch\<lparr>wa_cfg := (wa_cfg demo_watch)\<lparr>cf_persist := True\<rparr>\<rparr>) = (False, s1)
     \<and> tick sure_write demo_seams s1 = (False, s2) \<and> GetPro (wa_cfg s2) = Some demo_moved
     \<and> wa_applied s2 = [] \<and> wa_reports s2 = [False, True]"
  by (simp add: tick_def rediscover_def resolveProHost_def reconnectProConfig_def reportReachable_def logged_def
      retryLog_def Committed_def config_ops demo_watch_simps failing_write_def Let_def)

section \<open>The watcher's loop\<close>

text \<open>
  \<open>run\<close> ticks after every \<open>run.Sleep\<close> that was not cut short by the end of the context.  That sleep is
  library code: a round is what the rest of the program and the network did while it lasted, with the
  file system its tick will meet, and the rounds end with the context.  The first component lists the
  lengths the loop asked to sleep.
\<close>

fun watch_rounds :: "'w seams \<Rightarrow> (writer \<times> ('w watch \<Rightarrow> 'w watch)) list \<Rightarrow> 'w watch \<Rightarrow> duration list \<times> 'w watch" where
  "watch_rounds sm [] s = ([checkInterval s], s)"
| "watch_rounds sm ((write, slept) # rounds) s =
     (case watch_rounds sm rounds (snd (tick write sm (slept s))) of (ds, s') \<Rightarrow> (checkInterval s # ds, s'))"

definition proWatcher_run ::
  "'w seams \<Rightarrow> (writer \<times> ('w watch \<Rightarrow> 'w watch)) list \<Rightarrow> 'w watch \<Rightarrow> duration list \<times> 'w watch" where
  "proWatcher_run sm rounds s = (if GetPro (wa_cfg s) = None then ([], s) else watch_rounds sm rounds s)"

text \<open>While it sleeps, the watcher itself does nothing.\<close>

definition sleeps :: "'w seams \<Rightarrow> ('w watch \<Rightarrow> 'w watch) \<Rightarrow> bool" where
  "sleeps sm f \<longleftrightarrow> (\<forall>s. \<exists>es. WTick \<notin> set es \<and> run (watch_step sm) s es (f s))"

lemma sleepsE: "sleeps sm f \<Longrightarrow> (\<And>es. WTick \<notin> set es \<Longrightarrow> run (watch_step sm) s es (f s) \<Longrightarrow> P) \<Longrightarrow> P"
  by (force simp: sleeps_def)

lemma rediscover_commits: "rediscover write sm pro s = (r, s') \<Longrightarrow>
  cf_persist (wa_cfg s') = cf_persist (wa_cfg s) \<and> wa_interval s' = wa_interval s"
  by (auto simp: rediscover_def Let_def SetPro_def saving_def reportReachable_def retryLog_def logged_def
      split: prod.splits option.splits if_splits)

lemma tick_commits: "tick write sm s = (r, s') \<Longrightarrow>
  cf_persist (wa_cfg s') = cf_persist (wa_cfg s) \<and> wa_interval s' = wa_interval s"
  by (auto simp: tick_def Let_def reportReachable_def retryLog_def logged_def
      split: prod.splits option.splits if_splits dest: rediscover_commits)

lemma watch_step_commits: "watch_step sm s e s' \<Longrightarrow>
  (cf_persist (wa_cfg s) \<longrightarrow> cf_persist (wa_cfg s')) \<and> wa_interval s' = wa_interval s"
  by (erule watch_stepE)
    (auto dest: tick_commits elim!: config_stepE simp: config_ops split: prod.splits if_splits)

lemma watch_run_commits: "run (watch_step sm) s es s' \<Longrightarrow>
  (cf_persist (wa_cfg s) \<longrightarrow> cf_persist (wa_cfg s')) \<and> wa_interval s' = wa_interval s"
  by (induction rule: run.induct) (auto dest!: watch_step_commits)

text \<open>The loop only makes steps of the watcher's system: one tick for every sleep that ended.\<close>

lemma watch_rounds_run:
  assumes "watch_rounds sm rounds s = (ds, s')" "\<forall>(write, slept)\<in>set rounds. sleeps sm slept"
  shows "\<exists>es. run (watch_step sm) s es s' \<and> count_list es WTick = length rounds"
  using assms
proof (induction sm rounds s arbitrary: ds rule: watch_rounds.induct)
  case (2 sm "write" slept rounds s)
  obtain es where es: "WTick \<notin> set es" "run (watch_step sm) s es (slept s)" using "2.prems"(2) by (auto elim: sleepsE [where s = s])
  obtain r t where t: "tick write sm (slept s) = (r, t)" by fastforce
  from "2.prems" t obtain ds' where "watch_rounds sm rounds t = (ds', s')" by (auto split: prod.splits)
  with "2.IH" t "2.prems"(2) obtain fs where fs: "run (watch_step sm) t fs s'" "count_list fs WTick = length rounds" by fastforce
  have "run (watch_step sm) s (es @ WTick # fs) s'"
    using run_append [OF run_Cons [OF ws_Tick [OF t] fs(1)] es(2)] .
  then show ?case using fs(2) es(1) by (intro exI [of _ "es @ WTick # fs"]) simp
qed (auto intro: exI [of _ "[]"])

text \<open>
  The cadence only ever slows down: once the loop has asked for the steady interval, it never asks for
  another one, since nothing takes a commit back.
\<close>

lemma checkInterval_mono:
  assumes "run (watch_step sm) s es s'" "checkInterval s = 60 * second" shows "checkInterval s' = 60 * second"
  using watch_run_commits [OF assms(1)] assms(2) by (auto simp: checkInterval_def Committed_def split: if_splits)

lemma watch_rounds_cadence:
  assumes "watch_rounds sm rounds s = (ds, s')" "\<forall>(write, slept)\<in>set rounds. sleeps sm slept"
  shows "length ds = Suc (length rounds) \<and> set ds \<subseteq> {60 * second, wa_interval s}
    \<and> (checkInterval s = 60 * second \<longrightarrow> set ds = {60 * second}) \<and> sorted_wrt (\<lambda>d d'. d = 60 * second \<longrightarrow> d' = 60 * second) ds"
  using assms
proof (induction sm rounds s arbitrary: ds rule: watch_rounds.induct)
  case (1 sm s)
  then show ?case by (auto simp: checkInterval_def)
next
  case (2 sm "write" slept rounds s)
  obtain es where es: "run (watch_step sm) s es (slept s)" using "2.prems"(2) by (auto elim: sleepsE [where s = s])
  obtain r t where t: "tick write sm (slept s) = (r, t)" by fastforce
  have st: "run (watch_step sm) s (es @ [WTick]) t" using run_snoc [OF es ws_Tick [OF t]] .
  from "2.prems"(1) t obtain ds' where ds: "watch_rounds sm rounds t = (ds', s')" "ds = checkInterval s # ds'"
    by (auto split: prod.splits)
  have IH: "length ds' = Suc (length rounds) \<and> set ds' \<subseteq> {60 * second, wa_interval t}
    \<and> (checkInterval t = 60 * second \<longrightarrow> set ds' = {60 * second}) \<and> sorted_wrt (\<lambda>d d'. d = 60 * second \<longrightarrow> d' = 60 * second) ds'"
    using "2.IH" [of ds'] "2.prems"(2) ds(1) t by simp
  have "wa_interval t = wa_interval s" using watch_run_commits [OF st] by simp
  moreover have "checkInterval s \<in> {60 * second, wa_interval s}" by (simp add: checkInterval_def)
  ultimately show ?case using IH ds(2) checkInterval_mono [OF st] by auto
qed

text \<open>
  The whole loop of a paired Pro, from a watcher that has installed nothing yet, follows that one
  bridge, ticks once per sleep and slows down at most once.
\<close>

theorem proWatcher_run_follows:
  assumes "proWatcher_run sm rounds s = (ds, s')" "\<forall>(write, slept)\<in>set rounds. sleeps sm slept"
    and "GetPro (wa_cfg s) = Some pro" "watch_init pro s"
  shows "watch_inv pro s' \<and> length ds = Suc (length rounds) \<and> set ds \<subseteq> {60 * second, wa_interval s}
    \<and> sorted_wrt (\<lambda>d d'. d = 60 * second \<longrightarrow> d' = 60 * second) ds"
proof -
  have r: "watch_rounds sm rounds s = (ds, s')" using assms(1,3) by (simp add: proWatcher_run_def)
  obtain es where "run (watch_step sm) s es s'" using watch_rounds_run [OF r assms(2)] by blast
  then have "watch_inv pro s'" using watcher.reachable_inv [OF assms(4)] by blast
  then show ?thesis using watch_rounds_cadence [OF r assms(2)] by blast
qed

section \<open>Pairing in the background\<close>

definition setupWatcherInterval :: duration where
  "setupWatcherInterval = 4 * second"

text \<open>The precondition reported to the wizard for the outcome of a selection.\<close>

definition precond_of :: "select_error + string \<times> string \<times> string \<Rightarrow> setup_event" where
  "precond_of r =
     (case r of
        Inr (host, _, _) \<Rightarrow>
          if host \<noteq> [] then SPrecond True host True []
          else SPrecond True [] False (''No Hue Bridge Pro found yet '' @ [CHR 0xE2, CHR 0x80, CHR 0x94]
            @ '' please turn it on and connect it to the same network.'')
      | Inl (ErrNoProBridge _) \<Rightarrow> SPrecond True [] False
          ''A Hue bridge was found, but it is not a Hue Bridge Pro (BSB003). relume-tv requires a Hue Bridge Pro.''
      | Inl (ErrProModelUnknown _) \<Rightarrow> SPrecond True [] False
          ''A bridge was found but could not be reached to confirm it is a Hue Bridge Pro. Is it powered on?''
      | Inl ErrDiscover \<Rightarrow> SPrecond False [] False
          ''Can't run local (mDNS) discovery. Turn your Hue Bridge Pro on and make sure this host is on the same network.'')"

text \<open>
  The two retry loops end when a bridge is found or the program stops (the inner \<open>None\<close>); \<open>sleep\<close> tells
  whether it ran to its end.  Neither has a bound, so not returning is the value \<open>None\<close>.
\<close>

partial_function (option) discover_until ::
  "('w \<Rightarrow> DiscoveredBridge list option \<times> 'w) \<Rightarrow> (string \<Rightarrow> 'w \<Rightarrow> (model_error + string) \<times> 'w)
     \<Rightarrow> (duration \<Rightarrow> 'w \<Rightarrow> bool \<times> 'w) \<Rightarrow> setup_event list \<Rightarrow> 'w
     \<Rightarrow> ((string \<times> string) option \<times> setup_event list \<times> 'w) option" where
  "discover_until discover fetchModel sleep evs w =
     (case selectProForPairing discover fetchModel w of (r, w1) \<Rightarrow>
        (case r of Inl _ \<Rightarrow> (case sleep (10 * second) w1 of (ok, w2) \<Rightarrow>
             if \<not> ok then Some (None, evs @ [precond_of r], w2)
             else discover_until discover fetchModel sleep (evs @ [precond_of r]) w2)
         | Inr (host, i, m) \<Rightarrow>
             if host \<noteq> [] then Some (Some (host, i), evs @ [precond_of r], w1)
             else (case sleep (10 * second) w1 of (ok, w2) \<Rightarrow>
               if \<not> ok then Some (None, evs @ [precond_of r], w2)
               else discover_until discover fetchModel sleep (evs @ [precond_of r]) w2)))"

partial_function (option) pin_until ::
  "(string \<Rightarrow> 'w \<Rightarrow> string option \<times> 'w) \<Rightarrow> (duration \<Rightarrow> 'w \<Rightarrow> bool \<times> 'w) \<Rightarrow> string \<Rightarrow> string \<Rightarrow> bool \<Rightarrow> 'w
     \<Rightarrow> (BridgePro option \<times> 'w) option" where
  "pin_until fetchFingerprint sleep host discoveryID skipTLS w =
     (case pinProShell host discoveryID skipTLS fetchFingerprint w of (p, w1) \<Rightarrow>
        (case p of Some pro \<Rightarrow> Some (Some pro, w1)
         | None \<Rightarrow> (case sleep (15 * second) w1 of (ok, w2) \<Rightarrow>
             if \<not> ok then Some (None, w2)
             else pin_until fetchFingerprint sleep host discoveryID skipTLS w2)))"

declare discover_until.simps [code] pin_until.simps [code]

text \<open>
  What the pairing acts on: the configuration and its file, the calls to the setup machine, the
  providers installed and the watcher it starts.  The link-button loop is that of the client; the
  signals of the final \<open>recomputeNow\<close> are read off the configuration (\<open>active\<close>: the TV drives lights).
\<close>

record 'w pairing =
  ap_cfg :: Config
  ap_file :: file_state
  ap_env :: 'w
  ap_setup :: "setup_event list"
  ap_providers :: "BridgePro list"
  ap_watcher :: "'w watch option"

definition signals_of :: "Config \<Rightarrow> bool \<Rightarrow> signals" where
  "signals_of c active = \<lparr>sg_proPaired = (GetPro c \<noteq> None), sg_tvPaired = (PairedDeviceTypes c \<noteq> []), sg_active = active\<rparr>"

record 'w pair_seams =
  pp_fetchModel :: "string \<Rightarrow> 'w \<Rightarrow> (model_error + string) \<times> 'w"
  pp_pair :: "BridgePro \<Rightarrow> 'w \<Rightarrow> (pair_error + PairResult) \<times> 'w"
  pp_info :: "'w \<Rightarrow> (pro_error + string \<times> string) \<times> 'w"
  pp_lights :: "BridgePro \<Rightarrow> 'w \<Rightarrow> (pro_error + Light list) \<times> 'w"
  pp_sleep :: "duration \<Rightarrow> 'w \<Rightarrow> bool \<times> 'w"
  pp_active :: "'w \<Rightarrow> bool"

definition paired_watch :: "bool \<Rightarrow> 'w pairing \<Rightarrow> 'w watch" where
  "paired_watch skipTLS s =
     \<lparr>wa_skipTLS = skipTLS, wa_interval = setupWatcherInterval, wa_onReachable = True, wa_lastDiscover = None,
      wa_cfg = ap_cfg s, wa_file = ap_file s, wa_env = ap_env s, wa_applied = [], wa_reports = [], wa_logged = []\<rparr>"

text \<open>Storing the pairing and hot-loading the lights, after the link button.\<close>

definition install_pairing :: "writer \<Rightarrow> 'w pair_seams \<Rightarrow> bool \<Rightarrow> BridgePro \<Rightarrow> 'w pairing \<Rightarrow> 'w pairing" where
  "install_pairing write ps skipTLS paired s =
     (case SetPro write (Some paired) (ap_cfg s) (ap_file s) of (err, c', f') \<Rightarrow>
        let s1 = s\<lparr>ap_cfg := c', ap_file := f'\<rparr> in
        if err \<noteq> None then s1
        else (case pp_lights ps paired (ap_env s1) of (_, w1) \<Rightarrow>
          let s2 = s1\<lparr>ap_providers := ap_providers s1 @ [paired], ap_env := w1,
                ap_setup := ap_setup s1 @ [SRecompute (signals_of c' (pp_active ps w1))]\<rparr>
          in s2\<lparr>ap_watcher := Some (paired_watch skipTLS s2)\<rparr>))"

definition autoPairPro :: "writer \<Rightarrow> 'w seams \<Rightarrow> 'w pair_seams \<Rightarrow> bool \<Rightarrow> 'w pairing \<Rightarrow> 'w pairing option" where
  "autoPairPro write sm ps skipTLS s =
     (case discover_until (sm_discover sm) (pp_fetchModel ps) (pp_sleep ps) (ap_setup s) (ap_env s) of
        None \<Rightarrow> None
      | Some (None, evs, w1) \<Rightarrow> Some (s\<lparr>ap_setup := evs, ap_env := w1\<rparr>)
      | Some (Some (host, discoveryID), evs, w1) \<Rightarrow>
          (case pin_until (sm_fetchFingerprint sm) (pp_sleep ps) host discoveryID skipTLS w1 of
             None \<Rightarrow> None
           | Some (None, w2) \<Rightarrow> Some (s\<lparr>ap_setup := evs, ap_env := w2\<rparr>)
           | Some (Some pro, w2) \<Rightarrow>
               (case WaitForLinkButton (pp_pair ps pro) (pp_info ps) (sm_now sm) (pp_sleep ps (3 * second)) pro None w2 of
                  None \<Rightarrow> None
                | Some (Inl _, _, w3) \<Rightarrow> Some (s\<lparr>ap_setup := evs, ap_env := w3\<rparr>)
                | Some (Inr paired, _, w3) \<Rightarrow>
                    Some (install_pairing write ps skipTLS paired (s\<lparr>ap_setup := evs, ap_env := w3\<rparr>)))))"

text \<open>What the loops return when they return.\<close>

definition discovered_ok ::
  "('w \<Rightarrow> DiscoveredBridge list option \<times> 'w) \<Rightarrow> (string \<Rightarrow> 'w \<Rightarrow> (model_error + string) \<times> 'w) \<Rightarrow> setup_event list
     \<Rightarrow> (string \<times> string) option \<times> setup_event list \<times> 'w \<Rightarrow> bool" where
  "discovered_ok discover fetchModel evs z \<longleftrightarrow>
     (\<exists>fs. fst (snd z) = evs @ fs \<and> (\<forall>e\<in>set fs. \<exists>o'. e = precond_of o')
      \<and> (\<forall>host i. fst z = Some (host, i) \<longrightarrow> host \<noteq> [] \<and> fs \<noteq> [] \<and> last fs = SPrecond True host True []
          \<and> (\<exists>wa m. selectProForPairing discover fetchModel wa = (Inr (host, i, m), snd (snd z)))))"

lemma discover_until_result:
  assumes "discover_until discover fetchModel sleep evs w = Some z"
  shows "discovered_ok discover fetchModel evs z"
proof (rule discover_until.raw_induct [where P = "\<lambda>d f _ evs _ z. discovered_ok d f evs z", OF _ assms])
  fix du d f sl evs w z
  assume IH: "\<And>d f sl evs w z. du d f sl evs w = Some z \<Longrightarrow> discovered_ok d f evs z"
    and eq: "(case selectProForPairing d f w of (r, w1) \<Rightarrow>
        (case r of Inl _ \<Rightarrow> (case sl (10 * second) w1 of (ok, w2) \<Rightarrow>
             if \<not> ok then Some (None, evs @ [precond_of r], w2) else du d f sl (evs @ [precond_of r]) w2)
         | Inr (host, i, m) \<Rightarrow>
             if host \<noteq> [] then Some (Some (host, i), evs @ [precond_of r], w1)
             else (case sl (10 * second) w1 of (ok, w2) \<Rightarrow>
               if \<not> ok then Some (None, evs @ [precond_of r], w2) else du d f sl (evs @ [precond_of r]) w2))) = Some z"
  obtain res w1 where sel: "selectProForPairing d f w = (res, w1)" by fastforce
  show "discovered_ok d f evs z"
  proof (cases "\<exists>host i m. res = Inr (host, i, m) \<and> host \<noteq> []")
    case True
    then obtain host i m where res: "res = Inr (host, i, m)" "host \<noteq> []" by blast
    then have "z = (Some (host, i), evs @ [precond_of res], w1)" using eq sel by simp
    moreover have "precond_of res = SPrecond True host True []" using res by (simp add: precond_of_def)
    ultimately show ?thesis using sel res unfolding discovered_ok_def
      by (intro exI [of _ "[precond_of res]"]) (auto intro: sym)
  next
    case False
    obtain ok w2 where sl: "sl (10 * second) w1 = (ok, w2)" by fastforce
    have eq2: "(if \<not> ok then Some (None, evs @ [precond_of res], w2) else du d f sl (evs @ [precond_of res]) w2) = Some z"
      using eq sel sl False by (auto split: sum.splits prod.splits if_splits)
    show ?thesis
    proof (cases ok)
      case True
      then have "du d f sl (evs @ [precond_of res]) w2 = Some z" using eq2 by simp
      from IH [OF this] obtain fs where "fst (snd z) = (evs @ [precond_of res]) @ fs" "\<forall>e\<in>set fs. \<exists>o'. e = precond_of o'"
        "\<forall>host i. fst z = Some (host, i) \<longrightarrow> host \<noteq> [] \<and> fs \<noteq> [] \<and> last fs = SPrecond True host True []
          \<and> (\<exists>wa m. selectProForPairing d f wa = (Inr (host, i, m), snd (snd z)))"
        unfolding discovered_ok_def by blast
      then show ?thesis unfolding discovered_ok_def by (intro exI [of _ "precond_of res # fs"]) auto
    next
      case no: False
      then have "z = (None, evs @ [precond_of res], w2)" using eq2 by simp
      then show ?thesis unfolding discovered_ok_def by (intro exI [of _ "[precond_of res]"]) auto
    qed
  qed
qed

lemma pin_until_result:
  assumes "pin_until fetchFingerprint sleep host discoveryID skipTLS w = Some z"
  shows "\<forall>pro. fst z = Some pro \<longrightarrow> (\<exists>u. pinProShell host discoveryID skipTLS fetchFingerprint u = (Some pro, snd z))"
proof (rule pin_until.raw_induct [where P = "\<lambda>f _ h i k _ z. \<forall>pro. fst z = Some pro \<longrightarrow>
    (\<exists>u. pinProShell h i k f u = (Some pro, snd z))", OF _ assms])
  fix pu f sl h i k w z
  assume IH: "\<And>f sl h i k w z. pu f sl h i k w = Some z \<Longrightarrow> \<forall>pro. fst z = Some pro \<longrightarrow> (\<exists>u. pinProShell h i k f u = (Some pro, snd z))"
    and eq: "(case pinProShell h i k f w of (p, w1) \<Rightarrow>
        (case p of None \<Rightarrow> (case sl (15 * second) w1 of (ok, w2) \<Rightarrow>
             if \<not> ok then Some (None, w2) else pu f sl h i k w2)
         | Some pro \<Rightarrow> Some (Some pro, w1))) = Some z"
  show "\<forall>pro. fst z = Some pro \<longrightarrow> (\<exists>u. pinProShell h i k f u = (Some pro, snd z))"
  proof (cases "fst (pinProShell h i k f w)")
    case None
    then show ?thesis using eq by (auto split: prod.splits if_splits dest!: IH)
  next
    case (Some pro)
    then obtain w1 where "pinProShell h i k f w = (Some pro, w1)" by (cases "pinProShell h i k f w") simp
    moreover from this have "z = (Some pro, w1)" using eq by simp
    ultimately show ?thesis by (intro allI impI exI [of _ w]) simp
  qed
qed

lemma pinProShell_shape:
  assumes "pinProShell host i skipTLS fetchFingerprint w = (Some pro, w')"
  shows "pro = zero_BridgePro\<lparr>bp_Host := host, bp_SkipTLSVerify := skipTLS, bp_DiscoveryID := i, bp_CertSHA256 := bp_CertSHA256 pro\<rparr>"
    "\<not> skipTLS \<Longrightarrow> fetchFingerprint host w = (Some (bp_CertSHA256 pro), w')"
  using assms by (auto simp: pinProShell_def Let_def zero_BridgePro_def split: if_splits prod.splits option.splits)

lemma autoPairPro_cases:
  assumes "autoPairPro write sm ps skipTLS s = Some s'"
  obtains (none) "ap_providers s' = ap_providers s" "ap_watcher s' = ap_watcher s"
  | (paired) host i evs w1 pro w2 paired seen w3 where
      "discover_until (sm_discover sm) (pp_fetchModel ps) (pp_sleep ps) (ap_setup s) (ap_env s) = Some (Some (host, i), evs, w1)"
      "pin_until (sm_fetchFingerprint sm) (pp_sleep ps) host i skipTLS w1 = Some (Some pro, w2)"
      "WaitForLinkButton (pp_pair ps pro) (pp_info ps) (sm_now sm) (pp_sleep ps (3 * second)) pro None w2 = Some (Inr paired, seen, w3)"
      "s' = install_pairing write ps skipTLS paired (s\<lparr>ap_setup := evs, ap_env := w3\<rparr>)"
  using assms by (auto simp: autoPairPro_def split: option.splits sum.splits prod.splits)

lemma install_pairing_cases:
  assumes "s' = install_pairing write ps skipTLS paired s"
  obtains (none) "ap_providers s' = ap_providers s" "ap_watcher s' = ap_watcher s"
  | (installed) sg t where "ap_providers s' = ap_providers s @ [paired]" "GetPro (ap_cfg s') = Some paired"
      "ap_setup s' = ap_setup s @ [SRecompute sg]" "sg_proPaired sg" "ap_watcher s' = Some t" "wa_onReachable t"
      "GetPro (wa_cfg t) = Some paired"
proof -
  obtain err c' f' where sp: "SetPro write (Some paired) (ap_cfg s) (ap_file s) = (err, c', f')" by (metis prod_cases3)
  have pro: "GetPro c' = Some paired" using SetPro_stores sp .
  show ?thesis
  proof (cases err)
    case None
    obtain l w1 where "pp_lights ps paired (ap_env s) = (l, w1)" by fastforce
    then have "\<exists>sg t. ap_providers s' = ap_providers s @ [paired] \<and> GetPro (ap_cfg s') = Some paired
        \<and> ap_setup s' = ap_setup s @ [SRecompute sg] \<and> sg_proPaired sg \<and> ap_watcher s' = Some t \<and> wa_onReachable t
        \<and> GetPro (wa_cfg t) = Some paired"
      using assms sp None pro by (simp add: install_pairing_def Let_def signals_of_def paired_watch_def)
    then show ?thesis using installed by blast
  next
    case (Some e)
    then show ?thesis using assms sp by (intro none) (simp_all add: install_pairing_def Let_def)
  qed
qed


text \<open>A first start: the network shows a Gen-2 bridge and the Pro, and the button is pressed.\<close>

definition demo_pair_seams :: "int pair_seams" where
  "demo_pair_seams = \<lparr>pp_fetchModel = (\<lambda>h w. (Inl ModelFetch, w)),
     pp_pair = (\<lambda>p w. (Inr \<lparr>pr_AppKey = ''k'', pr_ClientKey = ''AB''\<rparr>, w)),
     pp_info = (\<lambda>w. (Inl ErrNoBridgeResource, w)), pp_lights = (\<lambda>p w. (Inr [], w)),
     pp_sleep = (\<lambda>d w. (True, w + d)), pp_active = (\<lambda>w. False)\<rparr>"

definition demo_unpaired :: "int pairing" where
  "demo_unpaired = \<lparr>ap_cfg = demo_fresh, ap_file = FileAbsent, ap_env = 0, ap_setup = [], ap_providers = [], ap_watcher = None\<rparr>"

lemma demo_pairing:
  "\<exists>s. autoPairPro sure_write demo_seams demo_pair_seams False demo_unpaired = Some s \<and> ap_providers s = [demo_moved]"
proof -
  have sel: "selectProForPairing (sm_discover demo_seams) (pp_fetchModel demo_pair_seams) 0
      = (Inr (''10.0.0.9'', ''b1'', ''BSB003''), 0)"
    by (simp add: selectProForPairing_def demo_seams_def ModelHueBridgePro_def)
  have d: "discover_until (sm_discover demo_seams) (pp_fetchModel demo_pair_seams) (pp_sleep demo_pair_seams) [] 0
      = Some (Some (''10.0.0.9'', ''b1''), [precond_of (Inr (''10.0.0.9'', ''b1'', ''BSB003''))], 0)"
    by (subst discover_until.simps) (simp add: sel)
  have p: "pin_until (sm_fetchFingerprint demo_seams) (pp_sleep demo_pair_seams) ''10.0.0.9'' ''b1'' False 0
      = Some (Some (demo_moved\<lparr>bp_AppKey := [], bp_ClientKey := []\<rparr>), 0)"
    by (subst pin_until.simps) (simp add: pinProShell_def demo_watch_simps Let_def)
  have w: "WaitForLinkButton (pp_pair demo_pair_seams q) (pp_info demo_pair_seams) (sm_now demo_seams)
      (pp_sleep demo_pair_seams (3 * second)) (demo_moved\<lparr>bp_AppKey := [], bp_ClientKey := []\<rparr>) None 0
      = Some (Inr demo_moved, [], 0)" for q
    by (simp add: WaitForLinkButton_def wait_loop.simps demo_pair_seams_def capture_def demo_watch_simps)
  show ?thesis
    by (simp add: autoPairPro_def demo_unpaired_def d p w install_pairing_def config_ops demo_fresh_def Let_def)
      (simp add: demo_pair_seams_def demo_config_def)
qed


end
