(* ===== verification/Serve.thy ===== *)
theory Serve
  imports ClipServer Controlled Streamer
begin

text \<open>
  The wiring of the \<open>serve\<close> command (\<open>cmd/relume-tv/main.go\<close>): the command line's defaults, the
  settings derived from it, the idle monitor that turns the lights off when the TV falls silent, the
  order of the shutdown, and the small helpers around them.  Starting goroutines and servers is left out.
\<close>

section \<open>The command line\<close>

datatype command = CmdVersion | CmdServe "string list" | CmdAvahi "string list" | CmdUnknown string

definition main_command :: "string list \<Rightarrow> command" where
  "main_command args =
     (let cmd = (if length args > 1 then args ! 1 else ''serve'') in
      if cmd \<in> {''version'', ''-version'', ''--version''} then CmdVersion
      else if cmd = ''serve'' then CmdServe (drop 2 args)
      else if cmd = ''avahi-service'' then CmdAvahi (drop 2 args)
      else CmdUnknown cmd)"

record serveOptions =
  so_configPath :: string
  so_httpPort :: int
  so_advertiseIP :: string
  so_debug :: bool
  so_tvIP :: string
  so_discoveryBurstDuration :: duration
  so_discoveryBurstInterval :: duration
  so_disableSSDP :: bool
  so_skipTLS :: bool
  so_idleOffRest :: duration
  so_idleOffEntertainment :: duration
  so_controlledLightWindow :: duration
  so_mode :: string
  so_dtlsFallbackTimeout :: duration
  so_dtlsFallbackRecovery :: duration
  so_smoothTau :: duration
  so_medianWindow :: int
  so_medianThreshold :: int
  so_headless :: bool
  so_uiPort :: int
  so_logLevel :: string
  so_healthcheck :: bool

definition uiDefaultPort :: int where
  "uiDefaultPort = 33100"

definition defaultIdleOffRest :: duration where
  "defaultIdleOffRest = 30 * second"

definition defaultIdleOffEntertainment :: duration where
  "defaultIdleOffEntertainment = 5 * second"

text \<open>The options of a \<open>serve\<close> without arguments; \<open>logLevel\<close> is the environment's.\<close>

definition defaultOptions :: "string \<Rightarrow> serveOptions" where
  "defaultOptions logLevel =
     \<lparr>so_configPath = ''relume-tv.json'', so_httpPort = 80, so_advertiseIP = [], so_debug = False, so_tvIP = [],
      so_discoveryBurstDuration = 0, so_discoveryBurstInterval = second, so_disableSSDP = False, so_skipTLS = False,
      so_idleOffRest = defaultIdleOffRest, so_idleOffEntertainment = defaultIdleOffEntertainment,
      so_controlledLightWindow = 60 * second, so_mode = ''entertainment'', so_dtlsFallbackTimeout = 5 * second,
      so_dtlsFallbackRecovery = 90 * second, so_smoothTau = DefaultSmoothTau, so_medianWindow = 1,
      so_medianThreshold = DefaultMedianThreshold, so_headless = False, so_uiPort = 0, so_logLevel = logLevel,
      so_healthcheck = False\<rparr>"

definition uiPortFor :: "serveOptions \<Rightarrow> int" where
  "uiPortFor opts = (if so_headless opts then 0 else if so_uiPort opts \<noteq> 0 then so_uiPort opts else uiDefaultPort)"

section \<open>Derived settings\<close>

record serveConfig =
  sv_entertainmentMode :: bool
  sv_idleOff :: duration
  sv_idleOffFallback :: duration
  sv_controlledWindow :: duration
  sv_windowRaised :: bool
  sv_activityWindow :: duration
  sv_uiPort :: int

datatype serve_error = ErrMode string | ErrPortClash int

definition idleTimeoutFor :: "bool \<Rightarrow> bool \<Rightarrow> duration \<Rightarrow> duration \<Rightarrow> duration" where
  "idleTimeoutFor entertainment fallback rest ent = (if entertainment \<and> \<not> fallback then ent else rest)"

definition deriveServeConfig :: "serveOptions \<Rightarrow> serve_error + serveConfig" where
  "deriveServeConfig opts =
     (if so_mode opts \<noteq> ''rest'' \<and> so_mode opts \<noteq> ''entertainment'' then Inl (ErrMode (so_mode opts))
      else let ent = (so_mode opts = ''entertainment''); uiPort = uiPortFor opts in
        if uiPort \<noteq> 0 \<and> uiPort = so_httpPort opts then Inl (ErrPortClash uiPort)
        else let idleOff = idleTimeoutFor ent False (so_idleOffRest opts) (so_idleOffEntertainment opts);
            idleOffFallback = idleTimeoutFor ent True (so_idleOffRest opts) (so_idleOffEntertainment opts);
            minWindow = max idleOff idleOffFallback + 15 * second;
            raised = (max idleOff idleOffFallback > 0 \<and> so_controlledLightWindow opts < minWindow)
          in Inr \<lparr>sv_entertainmentMode = ent, sv_idleOff = idleOff, sv_idleOffFallback = idleOffFallback,
               sv_controlledWindow = (if raised then minWindow else so_controlledLightWindow opts),
               sv_windowRaised = raised, sv_activityWindow = (if ent then 10 * second else 30 * second),
               sv_uiPort = uiPort\<rparr>)"

text \<open>The timeout the idle monitor asks for on every tick.\<close>

definition idle_timeout :: "serveConfig \<Rightarrow> clip_server \<Rightarrow> duration" where
  "idle_timeout sc clip =
     (if sv_entertainmentMode sc \<and> InFallback clip then sv_idleOffFallback sc else sv_idleOff sc)"

definition smoothTauMs :: "serveOptions \<Rightarrow> int" where
  "smoothTauMs opts = max 0 (so_smoothTau opts) div millisecond"

definition medianThreshold16 :: "serveOptions \<Rightarrow> int" where
  "medianThreshold16 opts = max 0 (min 65535 (so_medianThreshold opts))"

section \<open>Helpers\<close>

definition skipTVTraffic :: "string \<Rightarrow> string \<Rightarrow> int \<Rightarrow> bool" where
  "skipTVTraffic m path status \<longleftrightarrow> status < 400 \<and> IsHighFrequency m path"

definition colorCapable :: "Light list \<Rightarrow> nat" where
  "colorCapable lights = length (filter HasColor lights)"

text \<open>The target the streamer resolves on every establish: nothing without a usable client key.\<close>

definition pro_resolver :: "Config \<Rightarrow> ProTarget option" where
  "pro_resolver cfg =
     (case GetPro cfg of None \<Rightarrow> None
      | Some p \<Rightarrow>
          if bp_ClientKey p = [] then None
          else (case hex_DecodeString (bp_ClientKey p) of None \<Rightarrow> None
            | Some clientKey \<Rightarrow> Some \<lparr>pt_client = NewClient p, pt_host = bp_Host p, pt_appKey = bp_AppKey p,
                pt_clientKey = clientKey\<rparr>))"

text \<open>The turn-off targets still in the zone; an id that cannot be resolved stays.\<close>

fun inZoneUUIDs :: "clip_server \<Rightarrow> string list \<Rightarrow> string list" where
  "inZoneUUIDs m [] = []"
| "inZoneUUIDs m (uuid # uuids) =
     (case server_V1ForUUID m uuid of
        None \<Rightarrow> uuid # inZoneUUIDs m uuids
      | Some v1 \<Rightarrow>
          (case Atoi v1 of
             None \<Rightarrow> uuid # inZoneUUIDs m uuids
           | Some n \<Rightarrow> if n < 0 \<or> n > 65535 \<or> \<not> AllowsMember m (of_int n) then inZoneUUIDs m uuids
               else uuid # inZoneUUIDs m uuids))"

text \<open>The avahi service file, with the warning about a temporary identity (\<open>None\<close>: the panic of \<open>BridgeID\<close>).\<close>

definition avahi_lines :: "string \<Rightarrow> int \<Rightarrow> string \<Rightarrow> string list" where
  "avahi_lines inst port bridgeID =
     [''<?xml version='' @ quoted ''1.0'' @ '' standalone='' @ [CHR 0x27] @ ''no'' @ [CHR 0x27] @ ''?>'',
      ''<!DOCTYPE service-group SYSTEM '' @ quoted ''avahi-service.dtd'' @ ''>'',
      ''<service-group>'',
      ''  <name>'' @ inst @ ''</name>'',
      ''  <service>'',
      ''    <type>_hue._tcp</type>'',
      ''    <port>'' @ Itoa port @ ''</port>'',
      ''    <txt-record>bridgeid='' @ bridgeID @ ''</txt-record>'',
      ''    <txt-record>modelid=BSB002</txt-record>'',
      ''  </service>'',
      ''</service-group>'']"

definition runAvahiService :: "int \<Rightarrow> Config \<Rightarrow> (bool \<times> string) option" where
  "runAvahiService port cfg =
     (case BridgeID (cf_Identity cfg) of None \<Rightarrow> None
      | Some bridgeID \<Rightarrow> Some (FirstRun cfg,
          concat (map (\<lambda>l. l @ [CHR 0x0A])
            (avahi_lines (''Philips Hue - '' @ drop (length bridgeID - 6) bridgeID) port bridgeID))))"

section \<open>The idle monitor\<close>

record idle_monitor =
  im_lastSeen :: gotime
  im_fired :: bool

definition time_After :: "gotime \<Rightarrow> gotime \<Rightarrow> bool" where
  "time_After a b = (case a of None \<Rightarrow> False | Some x \<Rightarrow> (case b of None \<Rightarrow> True | Some y \<Rightarrow> x > y))"

definition idleShouldFire :: "int \<Rightarrow> gotime \<Rightarrow> bool \<Rightarrow> duration \<Rightarrow> bool" where
  "idleShouldFire now lastSeen fired idleTimeout \<longleftrightarrow>
     \<not> fired \<and> (case lastSeen of None \<Rightarrow> False | Some t \<Rightarrow> now - t \<ge> idleTimeout)"

text \<open>One tick: the monitor and the controlled set after it, and the writes of a turn-off if one is made.\<close>

definition idle_tick ::
  "clip_server \<Rightarrow> BridgePro option \<Rightarrow> duration \<Rightarrow> int \<Rightarrow> idle_monitor \<times> ControlledSet
     \<Rightarrow> (idle_monitor \<times> ControlledSet) \<times> (string \<times> obj) list option" where
  "idle_tick clip pro idleTimeout now = (\<lambda>(s, cs).
     let act = LastActivity clip in
     if time_After act (im_lastSeen s) then ((\<lparr>im_lastSeen = act, im_fired = False\<rparr>, cs), None)
     else if idleTimeout \<le> 0 \<or> \<not> idleShouldFire now (im_lastSeen s) (im_fired s) idleTimeout then ((s, cs), None)
     else let s1 = s\<lparr>im_fired := True\<rparr> in
       (case pro of
          None \<Rightarrow> ((s1, cs), None)
        | Some p \<Rightarrow> (case Current now cs of (ids, cs') \<Rightarrow> ((s1, cs'), Some (TurnOffControlled (inZoneUUIDs clip ids))))))"

section \<open>The end of \<open>serve\<close>\<close>

datatype serve_result = ServedOK | DrainTimeout | ServeFailed

definition tvServeError :: "serve_result \<Rightarrow> bool" where
  "tvServeError r \<longleftrightarrow> r = ServeFailed"

datatype shutdown_action = FenceWrites | ReleaseStream | RecheckFence | WarnInFlight | TurnOff "string list"

datatype exit_error = HttpError | SsdpError

text \<open>
  The actions after \<open>Serve\<close> returned, in order: the write path is closed (in a goroutine that runs
  alongside the release of the stream), its outcome \<open>fenced\<close> is awaited and re-checked, and only then
  the driven lights of the zone are turned off.
\<close>

definition serve_end ::
  "serve_result \<Rightarrow> bool \<Rightarrow> bool \<Rightarrow> bool \<Rightarrow> BridgePro option \<Rightarrow> clip_server \<Rightarrow> string list \<Rightarrow> exit_error option \<times> shutdown_action list" where
  "serve_end served ssdpErr fenced recheck pro clip controlled =
     (if tvServeError served then (Some HttpError, [ReleaseStream])
      else if ssdpErr then (Some SsdpError, [ReleaseStream])
      else (None, [FenceWrites, ReleaseStream]
        @ (if fenced then [] else RecheckFence # (if recheck then [] else [WarnInFlight]))
        @ (case pro of None \<Rightarrow> [] | Some _ \<Rightarrow> [TurnOff (inZoneUUIDs clip controlled)])))"

text \<open>
  The turn-off runs in a goroutine of its own, one write after the other, and \<open>latency\<close> is how long the
  Pro takes to answer each.  Either it completes within the budget, or the process exits at the
  deadline and only the writes begun by then were made.  The result is those writes, the time until
  \<open>turnOffBounded\<close> returns, and whether it warned; when the last answer and the deadline fall on one
  instant, where Go picks either, the completion counts.
\<close>

definition shutdownTurnOffBudget :: duration where
  "shutdownTurnOffBudget = 3 * second"

definition shutdownWriteBudget :: duration where
  "shutdownWriteBudget = second"

fun begun :: "(string \<Rightarrow> duration) \<Rightarrow> duration \<Rightarrow> (string \<times> obj) list \<Rightarrow> (string \<times> obj) list" where
  "begun latency left [] = []"
| "begun latency left (w # ws) = (if left < 0 then [] else w # begun latency (left - latency (fst w)) ws)"

definition turnOffBounded ::
  "(string \<Rightarrow> duration) \<Rightarrow> string list \<Rightarrow> duration \<Rightarrow> (string \<times> obj) list \<times> duration \<times> bool" where
  "turnOffBounded latency ids budget =
     (let ws = TurnOffControlled ids; needed = (\<Sum>w \<leftarrow> ws. latency (fst w)) in
      if needed \<le> budget then (ws, needed, False) else (begun latency budget ws, budget, True))"

lemma begun_prefix: "\<exists>zs. ws = begun latency left ws @ zs"
  by (induction latency left ws rule: begun.induct) auto

lemma begun_all:
  assumes "\<And>u. 0 \<le> latency u" "(\<Sum>w \<leftarrow> ws. latency (fst w)) \<le> left" shows "begun latency left ws = ws"
  using assms
proof (induction latency left ws rule: begun.induct)
  case (2 latency left w ws)
  have "0 \<le> (\<Sum>w \<leftarrow> ws. latency (fst w))" using "2.prems"(1) by (induction ws) simp_all
  then show ?case using 2 by (smt (verit) begun.simps(2) list.simps(9) sum_list.Cons)
qed simp

text \<open>
  The shutdown never waits longer than the budget for the lights; it makes a prefix of the writes of
  the full turn-off, all of them when it does not warn, and none to another light.
\<close>

theorem turnOffBounded_spec:
  assumes "turnOffBounded latency ids budget = (ws, waited, warned)" "\<And>u. 0 \<le> latency u" "0 \<le> budget"
  shows "waited \<le> budget \<and> (\<exists>zs. TurnOffControlled ids = ws @ zs) \<and> (\<not> warned \<longrightarrow> ws = TurnOffControlled ids)
    \<and> ws = begun latency budget (TurnOffControlled ids) \<and> fst ` set ws \<subseteq> set ids \<and> (ids \<noteq> [] \<longrightarrow> ws \<noteq> [])"
proof -
  let ?all = "TurnOffControlled ids"
  have c: "(ws, waited, warned) = (if (\<Sum>w \<leftarrow> ?all. latency (fst w)) \<le> budget
      then (?all, \<Sum>w \<leftarrow> ?all. latency (fst w), False) else (begun latency budget ?all, budget, True))"
    using assms(1) by (simp add: turnOffBounded_def Let_def)
  have b: "ws = begun latency budget ?all" "waited \<le> budget" "\<not> warned \<longrightarrow> ws = ?all"
    using c begun_all [of latency ?all budget, OF assms(2)] by (simp_all split: if_splits)
  obtain zs where zs: "?all = ws @ zs" using begun_prefix b(1) by blast
  have "fst ` set ?all \<subseteq> set ids" by (auto simp: TurnOffControlled_def Let_def)
  then have "fst ` set ws \<subseteq> set ids" unfolding zs by auto
  moreover have "ids \<noteq> [] \<Longrightarrow> ws \<noteq> []"
    using assms(3) b(1) by (cases ids) (simp_all add: TurnOffControlled_def Let_def)
  ultimately show ?thesis using b zs by blast
qed

section \<open>What the derived settings guarantee\<close>

lemma deriveServeConfig_cases:
  assumes "deriveServeConfig opts = Inr sc"
  shows "so_mode opts \<in> {''rest'', ''entertainment''}" "sv_uiPort sc = 0 \<or> sv_uiPort sc \<noteq> so_httpPort opts"
    "t \<in> {sv_idleOff sc, sv_idleOffFallback sc} \<Longrightarrow> t > 0 \<Longrightarrow> t + 15 * second \<le> sv_controlledWindow sc"
    "so_controlledLightWindow opts \<le> sv_controlledWindow sc"
  using assms by (auto simp: deriveServeConfig_def Let_def split: if_splits)

lemma idle_timeout_cases: "idle_timeout sc clip \<in> {sv_idleOff sc, sv_idleOffFallback sc}"
  by (simp add: idle_timeout_def)

text \<open>The options are refused exactly for an unknown mode or a port clash, and the defaults are accepted.\<close>

lemma deriveServeConfig_refuses:
  "(\<exists>e. deriveServeConfig opts = Inl e) \<longleftrightarrow>
     so_mode opts \<notin> {''rest'', ''entertainment''} \<or> uiPortFor opts \<noteq> 0 \<and> uiPortFor opts = so_httpPort opts"
  by (auto simp: deriveServeConfig_def Let_def)

lemma defaultOptions_accepted:
  "deriveServeConfig (defaultOptions lvl) = Inr \<lparr>sv_entertainmentMode = True, sv_idleOff = 5 * second,
     sv_idleOffFallback = 30 * second, sv_controlledWindow = 60 * second, sv_windowRaised = False,
     sv_activityWindow = 10 * second, sv_uiPort = 33100\<rparr>"
  by (simp add: deriveServeConfig_def defaultOptions_def uiPortFor_def uiDefaultPort_def idleTimeoutFor_def
      defaultIdleOffRest_def defaultIdleOffEntertainment_def second_def)

section \<open>The turn-off targets\<close>

definition in_zone :: "clip_server \<Rightarrow> string \<Rightarrow> bool" where
  "in_zone m u \<longleftrightarrow> (case server_V1ForUUID m u of None \<Rightarrow> True | Some v \<Rightarrow> \<not> off_zone m v)"

lemma set_inZoneUUIDs: "u \<in> set (inZoneUUIDs m us) \<longleftrightarrow> u \<in> set us \<and> in_zone m u"
  by (induction m us rule: inZoneUUIDs.induct) (auto simp: in_zone_def off_zone_def split: option.splits)

lemma set_TurnOffControlled:
  "set (TurnOffControlled us) = {(u, StateV1ToV2 [(''on'', GBool False)]) | u. u \<in> set us}"
  by (auto simp: TurnOffControlled_def Let_def)

definition known_lights :: "ControlledSet \<Rightarrow> string set" where
  "known_lights cs = set (mkeys (cs_seen cs)) \<union> set (cs_last cs)"

lemma known_Current: "set (fst (Current now cs)) \<subseteq> known_lights cs" "known_lights (snd (Current now cs)) \<subseteq> known_lights cs"
  by (auto simp: known_lights_def Current_def Let_def)

lemma known_Seen: "known_lights (Seen u t cs) \<subseteq> insert u (known_lights cs)"
  by (auto simp: known_lights_def Seen_def simp del: set_map)

section \<open>The monitor at work\<close>

text \<open>
  The monitor next to the rest of the program: between its ticks the server handles requests, which
  only move its last activity forward, and the TV drives lights.  Every turn-off is recorded with the
  moment, the last activity and the timeout it was decided on.
\<close>

record turn_off =
  to_now :: int
  to_act :: int
  to_timeout :: duration
  to_clip :: clip_server
  to_writes :: "(string \<times> obj) list"

record idle_sys =
  is_clip :: clip_server
  is_cs :: ControlledSet
  is_mon :: idle_monitor
  is_offs :: "turn_off list"

datatype idle_event = ITick int duration "BridgePro option" | IClip clip_server | ISeen string int

definition time_le :: "gotime \<Rightarrow> gotime \<Rightarrow> bool" where
  "time_le a b \<longleftrightarrow> \<not> time_After a b"

definition record_off :: "int \<Rightarrow> duration \<Rightarrow> (string \<times> obj) list option \<Rightarrow> idle_sys \<Rightarrow> turn_off list" where
  "record_off now timeout off s =
     (case off of None \<Rightarrow> [] | Some ws \<Rightarrow>
        [\<lparr>to_now = now, to_act = the (LastActivity (is_clip s)), to_timeout = timeout, to_clip = is_clip s, to_writes = ws\<rparr>])"

inductive idle_step :: "idle_sys \<Rightarrow> idle_event \<Rightarrow> idle_sys \<Rightarrow> bool" where
  is_Tick: "idle_tick (is_clip s) pro timeout now (is_mon s, is_cs s) = ((m, cs), off) \<Longrightarrow>
    idle_step s (ITick now timeout pro) (s\<lparr>is_mon := m, is_cs := cs, is_offs := is_offs s @ record_off now timeout off s\<rparr>)"
| is_Clip: "time_le (LastActivity (is_clip s)) (LastActivity c) \<Longrightarrow> idle_step s (IClip c) (s\<lparr>is_clip := c\<rparr>)"
| is_Seen: "idle_step s (ISeen u t) (s\<lparr>is_cs := Seen u t (is_cs s)\<rparr>)"

inductive_cases idle_stepE: "idle_step s e s'"

definition idle_init :: "idle_sys \<Rightarrow> bool" where
  "idle_init s \<longleftrightarrow> is_mon s = \<lparr>im_lastSeen = None, im_fired = False\<rparr> \<and> is_offs s = []
     \<and> (\<exists>w. is_cs s = NewControlledSet w)"

definition justified :: "turn_off \<Rightarrow> bool" where
  "justified f \<longleftrightarrow> to_timeout f > 0 \<and> to_now f - to_act f \<ge> to_timeout f \<and> LastActivity (to_clip f) = Some (to_act f)
     \<and> (\<forall>(u, b)\<in>set (to_writes f). b = StateV1ToV2 [(''on'', GBool False)] \<and> in_zone (to_clip f) u)"

definition idle_inv :: "idle_sys \<Rightarrow> bool" where
  "idle_inv s \<longleftrightarrow> time_le (im_lastSeen (is_mon s)) (LastActivity (is_clip s))
     \<and> (\<forall>f\<in>set (is_offs s). justified f \<and> time_le (Some (to_act f)) (im_lastSeen (is_mon s))
          \<and> (\<not> im_fired (is_mon s) \<longrightarrow> time_After (im_lastSeen (is_mon s)) (Some (to_act f))))
     \<and> sorted_wrt (\<lambda>a b. to_act a < to_act b) (is_offs s)"

definition lights_driven :: "idle_event list \<Rightarrow> string set" where
  "lights_driven es = {u. \<exists>t. ISeen u t \<in> set es}"

definition touched :: "turn_off \<Rightarrow> string set" where
  "touched f = fst ` set (to_writes f)"

lemma touched_off: "to_writes f = TurnOffControlled us \<Longrightarrow> touched f = set us"
  by (auto simp: touched_def set_TurnOffControlled image_iff)

definition idle_hist :: "idle_sys \<Rightarrow> idle_event list \<Rightarrow> idle_sys \<Rightarrow> bool" where
  "idle_hist s0 es s \<longleftrightarrow> known_lights (is_cs s) \<subseteq> lights_driven es
     \<and> (\<forall>f\<in>set (is_offs s). touched f \<subseteq> lights_driven es)"

text \<open>A tick re-arms, waits, or fires: then nothing happened since the activity it saw last.\<close>

lemma idle_tick_cases:
  assumes "idle_tick clip pro timeout now (s, cs) = ((m, cs'), off)"
  obtains (rearm) "time_After (LastActivity clip) (im_lastSeen s)" "m = \<lparr>im_lastSeen = LastActivity clip, im_fired = False\<rparr>"
      "cs' = cs" "off = None"
  | (wait) "\<not> time_After (LastActivity clip) (im_lastSeen s)" "m = s" "cs' = cs" "off = None"
  | (fire) a where "\<not> time_After (LastActivity clip) (im_lastSeen s)" "im_lastSeen s = Some a" "\<not> im_fired s"
      "timeout > 0" "now - a \<ge> timeout" "m = s\<lparr>im_fired := True\<rparr>"
      "pro = None \<and> cs' = cs \<and> off = None \<or> cs' = snd (Current now cs)
        \<and> off = Some (TurnOffControlled (inZoneUUIDs clip (fst (Current now cs))))"
proof (cases "time_After (LastActivity clip) (im_lastSeen s)")
  case True
  then show ?thesis using assms by (intro rearm) (auto simp: idle_tick_def Let_def)
next
  case no: False
  show ?thesis
  proof (cases "timeout \<le> 0 \<or> \<not> idleShouldFire now (im_lastSeen s) (im_fired s) timeout")
    case True
    then have "(m, cs') = (s, cs)" "off = None" using assms no by (auto simp: idle_tick_def Let_def)
    then show ?thesis using no by (intro wait) auto
  next
    case False
    then obtain a where a: "im_lastSeen s = Some a" "\<not> im_fired s" "timeout > 0" "now - a \<ge> timeout"
      by (auto simp: idleShouldFire_def split: option.splits)
    have "m = s\<lparr>im_fired := True\<rparr>" "pro = None \<and> cs' = cs \<and> off = None \<or> cs' = snd (Current now cs)
        \<and> off = Some (TurnOffControlled (inZoneUUIDs clip (fst (Current now cs))))"
      using assms no False by (auto simp: idle_tick_def Let_def split: option.splits prod.splits)
    then show ?thesis using no a by (intro fire) auto
  qed
qed

lemma time_le_trans: "time_le a b \<Longrightarrow> time_le b c \<Longrightarrow> time_le a c"
  by (auto simp: time_le_def time_After_def split: option.splits)

lemma time_After_mono: "time_After a b \<Longrightarrow> time_le a c \<Longrightarrow> time_After c b"
  by (auto simp: time_le_def time_After_def split: option.splits)

lemma time_After_le: "time_After a b \<Longrightarrow> time_le c b \<Longrightarrow> time_After a c"
  by (auto simp: time_le_def time_After_def split: option.splits)

lemma time_simps [simp]: "time_le a a" "time_le None a" "time_le (Some x) (Some y) = (x \<le> y)"
  "time_After (Some y) (Some x) = (x < y)" "\<not> time_After None a"
  by (auto simp: time_le_def time_After_def split: option.splits)

lemma time_le_antisym: "time_le a b \<Longrightarrow> \<not> time_After b a \<Longrightarrow> a = b"
  by (auto simp: time_le_def time_After_def split: option.splits)

lemma idle_inv_tick:
  assumes "idle_inv s" "idle_tick (is_clip s) pro timeout now (is_mon s, is_cs s) = ((m, cs), off)"
  shows "idle_inv (s\<lparr>is_mon := m, is_cs := cs, is_offs := is_offs s @ record_off now timeout off s\<rparr>)"
  using assms(2)
proof (cases rule: idle_tick_cases)
  case rearm
  then show ?thesis using assms(1)
    by (auto simp: idle_inv_def record_off_def intro: time_After_le time_le_trans)
next
  case wait
  then show ?thesis using assms(1) by (auto simp: idle_inv_def record_off_def)
next
  case (fire a)
  have act: "LastActivity (is_clip s) = Some a"
    using assms(1) fire(1,2) time_le_antisym by (metis idle_inv_def)
  have offs: "\<forall>f\<in>set (is_offs s). justified f \<and> to_act f < a" "sorted_wrt (\<lambda>a b. to_act a < to_act b) (is_offs s)"
    using assms(1) fire(2,3) by (auto simp: idle_inv_def)
  show ?thesis
  proof (cases off)
    case None
    then show ?thesis using offs act fire(2,6) by (auto simp: idle_inv_def record_off_def)
  next
    case (Some ws)
    then have ws: "ws = TurnOffControlled (inZoneUUIDs (is_clip s) (fst (Current now (is_cs s))))" using fire(7) by auto
    have "justified \<lparr>to_now = now, to_act = a, to_timeout = timeout, to_clip = is_clip s, to_writes = ws\<rparr>"
      using fire(4,5) act by (auto simp: justified_def ws set_TurnOffControlled set_inZoneUUIDs)
    then show ?thesis using offs act fire(2,6) Some by (auto simp: idle_inv_def record_off_def sorted_wrt_append)
  qed
qed

lemma idle_inv_step: "idle_inv s \<Longrightarrow> idle_step s e s' \<Longrightarrow> idle_inv s'"
  by (erule idle_stepE) (auto intro: idle_inv_tick, auto simp: idle_inv_def intro: time_le_trans)

lemma lights_driven_snoc [simp]:
  "lights_driven (es @ [ISeen u t]) = insert u (lights_driven es)" "lights_driven (es @ [ITick n d p]) = lights_driven es"
  "lights_driven (es @ [IClip c]) = lights_driven es"
  by (auto simp: lights_driven_def)

lemma idle_hist_tick:
  assumes "idle_hist s0 es s" "idle_tick (is_clip s) pro timeout now (is_mon s, is_cs s) = ((m, cs), off)"
  shows "idle_hist s0 (es @ [ITick now timeout pro]) (s\<lparr>is_mon := m, is_cs := cs, is_offs := is_offs s @ record_off now timeout off s\<rparr>)"
  using assms(2)
proof (cases rule: idle_tick_cases)
  case (fire a)
  have k: "known_lights (is_cs s) \<subseteq> lights_driven es" using assms(1) by (simp add: idle_hist_def)
  have c: "known_lights cs \<subseteq> lights_driven es" using k fire(7) known_Current(2) [of now "is_cs s"] by auto
  have z: "set (inZoneUUIDs (is_clip s) (fst (Current now (is_cs s)))) \<subseteq> lights_driven es"
    using k known_Current(1) [of now "is_cs s"] by (auto simp: set_inZoneUUIDs)
  show ?thesis using assms(1) fire(7) c z by (auto simp: idle_hist_def record_off_def touched_off)
qed (use assms(1) in \<open>auto simp: idle_hist_def record_off_def\<close>)

lemma idle_hist_step: "idle_hist s0 es s \<Longrightarrow> idle_step s e s' \<Longrightarrow> idle_hist s0 (es @ [e]) s'"
proof (erule idle_stepE)
  fix u t assume h: "idle_hist s0 es s" and e: "e = ISeen u t" "s' = s\<lparr>is_cs := Seen u t (is_cs s)\<rparr>"
  have "known_lights (is_cs s') \<subseteq> insert u (known_lights (is_cs s))" using known_Seen by (simp add: e)
  then show ?thesis using h by (auto simp: idle_hist_def e)
next
  fix pro timeout now m cs off
  assume "idle_hist s0 es s" "e = ITick now timeout pro"
    "s' = s\<lparr>is_mon := m, is_cs := cs, is_offs := is_offs s @ record_off now timeout off s\<rparr>"
    "idle_tick (is_clip s) pro timeout now (is_mon s, is_cs s) = ((m, cs), off)"
  then show ?thesis using idle_hist_tick by simp
qed (auto simp: idle_hist_def)

lemma idle_init_holds: "idle_init s \<Longrightarrow> idle_inv s" "idle_init s \<Longrightarrow> idle_hist s [] s"
  by (auto simp: idle_init_def idle_inv_def idle_hist_def known_lights_def NewControlledSet_def)

interpretation idle: history_system idle_init idle_step idle_inv idle_hist
proof unfold_locales
  show "idle_inv s'" if "idle_inv s" "idle_step s e s'" for s e s' using that by (rule idle_inv_step)
  show "idle_hist s0 (es @ [e]) s'" if "idle_hist s0 es s" "idle_step s e s'" for s0 es s e s'
    using that by (rule idle_hist_step)
qed (auto intro: idle_init_holds)

section \<open>Properties\<close>

text \<open>
  C18: the lights are turned off only for a TV that fell silent, and once.  In every interleaving of
  the monitor's ticks with requests and stream frames, each turn-off was decided when the last
  activity was at least the (positive) timeout ago and nothing had happened since; two turn-offs
  belong to two different activities of the TV; and a turn-off only switches off lights the TV drove
  that are not positively outside its zone at that moment.
\<close>

theorem idle_off_justified:
  assumes "is_mon s0 = \<lparr>im_lastSeen = None, im_fired = False\<rparr>" "is_offs s0 = []" "is_cs s0 = NewControlledSet w"
    and "run idle_step s0 es s"
  shows "(\<forall>f\<in>set (is_offs s). 0 < to_timeout f \<and> LastActivity (to_clip f) = Some (to_act f)
        \<and> to_timeout f \<le> to_now f - to_act f
        \<and> (\<forall>(u, b)\<in>set (to_writes f). u \<in> lights_driven es \<and> in_zone (to_clip f) u
             \<and> b = [(''on'', GObj [(''on'', GBool False)])]))
    \<and> sorted_wrt (\<lambda>f g. to_act f < to_act g) (is_offs s)"
proof -
  have i: "idle_init s0" using assms(1-3) by (auto simp: idle_init_def)
  have off: "StateV1ToV2 [(''on'', GBool False)] = [(''on'', GObj [(''on'', GBool False)])]" by code_simp
  have "idle_inv s" using idle.reachable_inv [OF i assms(4)] .
  moreover have "\<forall>f\<in>set (is_offs s). touched f \<subseteq> lights_driven es"
    using idle.reachable_hist [OF assms(4) i] by (simp add: idle_hist_def)
  ultimately show ?thesis by (fastforce simp: idle_inv_def justified_def off touched_def)
qed

text \<open>
  C19: a silent TV's lights do go off, all of them.  With settings \<open>deriveServeConfig\<close> accepted and the
  timeout of the current path not disabled, once the monitor has seen the last activity its first
  tick after the timeout fires, and if that comes at most fifteen seconds late it switches off every
  light of the zone that was marked as driven at the last activity or later: the window of the
  controlled set never runs out before the timeout.
\<close>

theorem idle_off_complete:
  assumes "deriveServeConfig opts = Inr sc" "timeout = idle_timeout sc clip" "0 < timeout"
    and "LastActivity clip = Some a" "a + timeout \<le> now" "now \<le> a + timeout + 15 * second"
    and "gomap_ok (cs_seen cs)" "cs_window cs = sv_controlledWindow sc" "mget (cs_seen cs) u = Some t" "a \<le> t" "in_zone clip u"
  shows "\<exists>m cs' ws. idle_tick clip (Some pro) timeout now (\<lparr>im_lastSeen = Some a, im_fired = False\<rparr>, cs) = ((m, cs'), Some ws)
    \<and> im_fired m \<and> (u, [(''on'', GObj [(''on'', GBool False)])]) \<in> set ws"
proof -
  have off: "StateV1ToV2 [(''on'', GBool False)] = [(''on'', GObj [(''on'', GBool False)])]" by code_simp
  have "timeout + 15 * second \<le> cs_window cs"
    using deriveServeConfig_cases(3) [OF assms(1) idle_timeout_cases [of sc clip]] assms(2,3,8) by simp
  then have w: "now - cs_window cs \<le> t" using assms(6,10) by simp
  have "u \<in> set (fst (Current now cs))" using Current_window [of cs now u] assms(7,9) w by blast
  then have "(u, StateV1ToV2 [(''on'', GBool False)]) \<in> set (TurnOffControlled (inZoneUUIDs clip (fst (Current now cs))))"
    using assms(11) by (simp add: set_TurnOffControlled set_inZoneUUIDs)
  then show ?thesis using assms(3,4,5)
    by (auto simp: idle_tick_def Let_def idleShouldFire_def off split: prod.splits)
qed

text \<open>A light is driven, the TV falls silent, and forty seconds later the light is turned off.\<close>

definition demo_stored_pro :: BridgePro where
  "demo_stored_pro = zero_BridgePro\<lparr>bp_Host := ''10.0.0.5'', bp_AppKey := ''k''\<rparr>"

definition demo_clip :: clip_server where
  "demo_clip = New demo_fresh FileAbsent ''10.0.0.2'' 80 0"

definition demo_idle :: idle_sys where
  "demo_idle = \<lparr>is_clip = demo_clip, is_cs = NewControlledSet (60 * second),
     is_mon = \<lparr>im_lastSeen = None, im_fired = False\<rparr>, is_offs = []\<rparr>"

definition demo_idle_events :: "idle_event list" where
  "demo_idle_events = [IClip (MarkActivity 1 demo_clip), ISeen ''aa'' 1, ITick 2 (5 * second) (Some demo_stored_pro),
     ITick (40 * second) (5 * second) (Some demo_stored_pro)]"

lemma demo_no_lights: "server_V1ForUUID (MarkActivity now demo_clip) u = None"
  by (simp add: server_V1ForUUID_def MarkActivity_def demo_clip_def New_def bind_opt_def)

lemma demo_active: "LastActivity (MarkActivity now demo_clip) = Some now" "LastActivity demo_clip = None"
  by (simp_all add: LastActivity_def MarkActivity_def markActivity_def lastActivity_def demo_clip_def New_def newActivityTracker_def)

lemma demo_idle_run:
  "\<exists>s f. run idle_step demo_idle demo_idle_events s \<and> is_offs s = [f] \<and> map fst (to_writes f) = [''aa'']"
proof -
  define c where "c = MarkActivity 1 demo_clip"
  define cs where "cs = Seen ''aa'' 1 (NewControlledSet (60 * second))"
  define m1 where "m1 = \<lparr>im_lastSeen = Some 1, im_fired = False\<rparr>"
  define s1 where "s1 = demo_idle\<lparr>is_clip := c\<rparr>"
  define s2 where "s2 = s1\<lparr>is_cs := cs\<rparr>"
  define s3 where "s3 = s2\<lparr>is_mon := m1, is_cs := cs, is_offs := []\<rparr>"
  have s2f: "is_clip s2 = c" "is_cs s2 = cs" "is_offs s2 = []" "is_mon s2 = \<lparr>im_lastSeen = None, im_fired = False\<rparr>"
    by (simp_all add: s2_def s1_def demo_idle_def)
  have act: "LastActivity c = Some 1" by (simp add: c_def demo_active)
  have e1: "idle_step demo_idle (IClip c) s1"
    using idle_step.is_Clip [of demo_idle c] by (simp add: s1_def demo_idle_def demo_active)
  have e2: "idle_step s1 (ISeen ''aa'' 1) s2"
    using idle_step.is_Seen [of s1 "''aa''" 1] by (simp add: s2_def s1_def demo_idle_def cs_def)
  have e3: "idle_step s2 (ITick 2 (5 * second) (Some demo_stored_pro)) s3"
    using idle_step.is_Tick [of s2 "Some demo_stored_pro" "5 * second" 2 m1 cs None]
    by (simp add: s2f act idle_tick_def Let_def time_After_def m1_def record_off_def s3_def)
  have cur: "fst (Current (40 * second) cs) = [''aa'']"
    by (simp add: cs_def Seen_def NewControlledSet_def Current_def Let_def second_def)
  obtain cs' where cur': "Current (40 * second) cs = ([''aa''], cs')" using cur by (metis prod.collapse)
  have zone: "inZoneUUIDs c [''aa''] = [''aa'']" by (simp add: c_def demo_no_lights)
  define ws where "ws = TurnOffControlled [''aa'']"
  define f where "f = \<lparr>to_now = 40 * second, to_act = 1, to_timeout = 5 * second, to_clip = c, to_writes = ws\<rparr>"
  define s4 where "s4 = s3\<lparr>is_mon := m1\<lparr>im_fired := True\<rparr>, is_cs := cs', is_offs := [f]\<rparr>"
  define T N where "T = 5 * second" and "N = 40 * second"
  have TN: "\<not> T \<le> 0" "T \<le> N - 1" by (simp_all add: T_def N_def second_def)
  have tick: "idle_tick (is_clip s3) (Some demo_stored_pro) T N (is_mon s3, is_cs s3) = ((m1\<lparr>im_fired := True\<rparr>, cs'), Some ws)"
    using cur' TN zone by (simp add: s3_def s2f act idle_tick_def Let_def time_After_def m1_def idleShouldFire_def ws_def N_def)
  have e4: "idle_step s3 (ITick (40 * second) (5 * second) (Some demo_stored_pro)) s4"
    using idle_step.is_Tick [OF tick]
    by (simp add: s3_def s2f act m1_def ws_def record_off_def s4_def f_def T_def N_def)
  have "run idle_step demo_idle demo_idle_events s4"
    unfolding demo_idle_events_def c_def [symmetric]
    by (rule run_Cons, rule e1, rule run_Cons, rule e2, rule run_Cons, rule e3, rule run_single, rule e4)
  moreover have "is_offs s4 = [f]" "map fst (to_writes f) = [''aa'']"
    by (simp_all add: s4_def f_def ws_def TurnOffControlled_def Let_def)
  ultimately show ?thesis by (intro exI [of _ s4] exI [of _ f] conjI)
qed

lemma idle_off_justified_witness:
  "\<exists>s f. run idle_step demo_idle demo_idle_events s \<and> is_offs s = [f] \<and> 0 < to_timeout f
     \<and> to_timeout f \<le> to_now f - to_act f \<and> ''aa'' \<in> lights_driven demo_idle_events"
proof -
  obtain s f where s: "run idle_step demo_idle demo_idle_events s" "is_offs s = [f]" "map fst (to_writes f) = [''aa'']"
    using demo_idle_run by metis
  have "(\<forall>f\<in>set (is_offs s). 0 < to_timeout f \<and> LastActivity (to_clip f) = Some (to_act f)
        \<and> to_timeout f \<le> to_now f - to_act f
        \<and> (\<forall>(u, b)\<in>set (to_writes f). u \<in> lights_driven demo_idle_events \<and> in_zone (to_clip f) u
             \<and> b = [(''on'', GObj [(''on'', GBool False)])]))
    \<and> sorted_wrt (\<lambda>f g. to_act f < to_act g) (is_offs s)"
    by (rule idle_off_justified [OF _ _ _ s(1)]) (simp_all add: demo_idle_def)
  then show ?thesis using s by fastforce
qed

lemma idle_off_complete_witness:
  "\<exists>m cs' ws. idle_tick (MarkActivity 1 demo_clip) (Some demo_stored_pro) (5 * second) (6 * second)
      (\<lparr>im_lastSeen = Some 1, im_fired = False\<rparr>, Seen ''aa'' 1 (NewControlledSet (60 * second))) = ((m, cs'), Some ws)
    \<and> im_fired m \<and> (''aa'', [(''on'', GObj [(''on'', GBool False)])]) \<in> set ws"
proof (rule idle_off_complete [where t = 1, OF defaultOptions_accepted [of "[]"] _ _ demo_active(1)])
  show "5 * second = idle_timeout \<lparr>sv_entertainmentMode = True, sv_idleOff = 5 * second, sv_idleOffFallback = 30 * second,
       sv_controlledWindow = 60 * second, sv_windowRaised = False, sv_activityWindow = 10 * second, sv_uiPort = 33100\<rparr>
     (MarkActivity 1 demo_clip)"
    by (simp add: idle_timeout_def InFallback_def inFallback_def MarkActivity_def demo_clip_def New_def newStreamState_def)
  show "in_zone (MarkActivity 1 demo_clip) ''aa''" by (simp add: in_zone_def demo_no_lights)
qed (simp_all add: second_def Seen_def NewControlledSet_def gomap_ok_def)

end
