(* ===== verification/LiveStats.thy ===== *)
theory LiveStats
  imports Systems
begin

text \<open>
  The live numbers of the web UI: frame rates over a trailing window, write errors, the jitter pair
  (\<open>cmd/relume-tv/framestats.go\<close>) and the colours the TV streams (\<open>cmd/relume-tv/livecolors.go\<close>).
  Each keeps just enough to answer; the properties compare the answers with a reference that
  remembers everything.  The clock does not run backwards between two calls.
\<close>

section \<open>Frame rates\<close>

definition fpsWindow :: duration where
  "fpsWindow = 2 * second"

record frameStats =
  fs_times :: "int list"

definition newFrameStats :: frameStats where
  "newFrameStats = \<lparr>fs_times = []\<rparr>"

fun trim_times :: "int \<Rightarrow> int list \<Rightarrow> int list" where
  "trim_times lo [] = []"
| "trim_times lo (t # ts) = (if t < lo then trim_times lo ts else t # ts)"

definition trim :: "int \<Rightarrow> frameStats \<Rightarrow> frameStats" where
  "trim now f = f\<lparr>fs_times := trim_times (now - fpsWindow) (fs_times f)\<rparr>"

definition Mark :: "int \<Rightarrow> frameStats \<Rightarrow> frameStats" where
  "Mark now f = trim now (f\<lparr>fs_times := fs_times f @ [now]\<rparr>)"

definition FPS :: "int \<Rightarrow> frameStats \<Rightarrow> int \<times> frameStats" where
  "FPS now f = (let f1 = trim now f in
     (math_Round (of_nat (length (fs_times f1)) / (of_int fpsWindow / of_int second)), f1))"

section \<open>Write errors and jitter\<close>

record proStats =
  pst_writes :: frameStats
  pst_coalesces :: frameStats
  pst_fwdErrs :: nat
  pst_lastErrUnix :: int

definition newProStats :: proStats where
  "newProStats = \<lparr>pst_writes = newFrameStats, pst_coalesces = newFrameStats, pst_fwdErrs = 0, pst_lastErrUnix = 0\<rparr>"

definition markForwardErr :: "int \<Rightarrow> proStats \<Rightarrow> proStats" where
  "markForwardErr now s = s\<lparr>pst_fwdErrs := pst_fwdErrs s + 1, pst_lastErrUnix := now div second\<rparr>"

definition LastForwardErr :: "proStats \<Rightarrow> gotime" where
  "LastForwardErr s = (if pst_lastErrUnix s = 0 then None else Some (pst_lastErrUnix s * second))"

definition jitterStaleAfter :: duration where
  "jitterStaleAfter = 12 * second"

record jitterStats =
  jt_inputBri :: nat
  jt_sentBri :: nat
  jt_spikes :: nat
  jt_updatedAt :: int

definition newJitterStats :: jitterStats where
  "newJitterStats = \<lparr>jt_inputBri = 0, jt_sentBri = 0, jt_spikes = 0, jt_updatedAt = 0\<rparr>"

definition setInput :: "nat \<Rightarrow> jitterStats \<Rightarrow> jitterStats" where
  "setInput briJump j = j\<lparr>jt_inputBri := briJump\<rparr>"

definition setSpikes :: "nat \<Rightarrow> jitterStats \<Rightarrow> jitterStats" where
  "setSpikes n j = j\<lparr>jt_spikes := n\<rparr>"

definition Spikes :: "jitterStats \<Rightarrow> nat" where
  "Spikes j = jt_spikes j"

definition setSent :: "int \<Rightarrow> nat \<Rightarrow> jitterStats \<Rightarrow> jitterStats" where
  "setSent now briJump j = j\<lparr>jt_sentBri := briJump, jt_updatedAt := now\<rparr>"

definition Reduction :: "int \<Rightarrow> jitterStats \<Rightarrow> nat \<times> nat \<times> bool" where
  "Reduction now j =
     (if jt_updatedAt j = 0 \<or> now - jt_updatedAt j > jitterStaleAfter then (0, 0, False)
      else (jt_inputBri j, jt_sentBri j, True))"

section \<open>Live colours\<close>

record LiveColor =
  lv_X :: real
  lv_Y :: real
  lv_Bri :: int
  lv_On :: bool

record liveColors =
  lc_m :: "(string, LiveColor) gomap"
  lc_seen :: "(string, int) gomap"
  lc_window :: duration

definition drivenLightWindow :: duration where
  "drivenLightWindow = 2 * second"

definition newLiveColors :: "duration \<Rightarrow> liveColors" where
  "newLiveColors window = \<lparr>lc_m = [], lc_seen = [], lc_window = window\<rparr>"

definition gfloat :: "gval \<Rightarrow> real" where
  "gfloat v = (case v of GFloat x \<Rightarrow> x | _ \<Rightarrow> 0)"

definition parseLiveColor :: "obj \<Rightarrow> LiveColor" where
  "parseLiveColor state =
     (let lc = \<lparr>lv_X = 0, lv_Y = 0, lv_Bri = 0, lv_On = True\<rparr>;
          lc1 = (case oget state ''on'' of GBool on \<Rightarrow> lc\<lparr>lv_On := on\<rparr> | _ \<Rightarrow> lc);
          lc2 = (case oget state ''bri'' of GInt b \<Rightarrow> lc1\<lparr>lv_Bri := b\<rparr> | GFloat b \<Rightarrow> lc1\<lparr>lv_Bri := trunc b\<rparr> | _ \<Rightarrow> lc1)
      in (case oget state ''xy'' of
            GFloats [x, y] \<Rightarrow> lc2\<lparr>lv_X := x, lv_Y := y\<rparr>
          | GArr [x, y] \<Rightarrow> lc2\<lparr>lv_X := gfloat x, lv_Y := gfloat y\<rparr>
          | _ \<Rightarrow> lc2))"

definition SetState :: "int \<Rightarrow> string \<Rightarrow> obj \<Rightarrow> liveColors \<Rightarrow> liveColors" where
  "SetState now v1id state c =
     c\<lparr>lc_m := mput v1id (parseLiveColor state) (lc_m c), lc_seen := mput v1id now (lc_seen c)\<rparr>"

definition SetStates :: "int \<Rightarrow> (string, obj) gomap \<Rightarrow> liveColors \<Rightarrow> liveColors" where
  "SetStates now states c = fold (\<lambda>(v1id, state). SetState now v1id state) states c"

definition DrivenV1IDs :: "int \<Rightarrow> liveColors \<Rightarrow> string list \<times> liveColors" where
  "DrivenV1IDs now c =
     (let cutoff = now - lc_window c; live = filter (\<lambda>(_, t). \<not> t < cutoff) (lc_seen c)
      in (mkeys live, c\<lparr>lc_seen := live\<rparr>))"

definition LiveSnapshot :: "liveColors \<Rightarrow> (string, LiveColor) gomap" where
  "LiveSnapshot c = lc_m c"

section \<open>The rate against its reference\<close>

datatype rate_event = EvMark int | EvFPS int

fun rate_time :: "rate_event \<Rightarrow> int" where
  "rate_time (EvMark t) = t" | "rate_time (EvFPS t) = t"

fun rate_next :: "frameStats \<Rightarrow> rate_event \<Rightarrow> frameStats" where
  "rate_next f (EvMark t) = Mark t f"
| "rate_next f (EvFPS t) = snd (FPS t f)"

definition rate_step :: "frameStats \<Rightarrow> rate_event \<Rightarrow> frameStats \<Rightarrow> bool" where
  "rate_step f e f' \<longleftrightarrow> f' = rate_next f e"

definition marks :: "rate_event list \<Rightarrow> int list" where
  "marks es = List.map_filter (\<lambda>e. case e of EvMark t \<Rightarrow> Some t | EvFPS t \<Rightarrow> None) es"

lemma marks_snoc [simp]:
  "marks [] = []" "marks (es @ [EvMark t]) = marks es @ [t]" "marks (es @ [EvFPS t]) = marks es"
  by (simp_all add: marks_def List.map_filter_def)

lemma trim_sorted: "sorted ts \<Longrightarrow> trim_times lo ts = filter (\<lambda>t. lo \<le> t) ts"
  by (induction ts) (auto simp: filter_id_conv intro!: filter_True [symmetric] elim: order.trans)

text \<open>The window kept is that of all marks, as long as the clock does not run backwards.\<close>

lemma rate_window:
  assumes "run rate_step newFrameStats es f" "sorted (map rate_time es)"
  shows "sorted (fs_times f) \<and> sorted (marks es) \<and> set (marks es) \<subseteq> rate_time ` set es \<and> set (fs_times f) \<subseteq> set (marks es)
    \<and> (\<forall>now. (\<forall>e\<in>set es. rate_time e \<le> now) \<longrightarrow>
          filter (\<lambda>t. now - fpsWindow \<le> t) (fs_times f) = filter (\<lambda>t. now - fpsWindow \<le> t) (marks es))"
  using assms
proof (induction "newFrameStats" es f rule: run.induct)
  case run_Nil
  show ?case by (simp add: newFrameStats_def)
next
  case (run_snoc es f e f')
  then have so: "sorted (map rate_time es)" and le: "\<forall>x\<in>set es. rate_time x \<le> rate_time e" by (auto simp: sorted_append)
  let ?ts = "fs_times f @ (case e of EvMark t \<Rightarrow> [t] | EvFPS t \<Rightarrow> [])"
  from run_snoc so have c: "sorted (fs_times f)" "sorted (marks es)" "set (marks es) \<subseteq> rate_time ` set es"
      "set (fs_times f) \<subseteq> set (marks es)"
      "\<And>now. (\<forall>e\<in>set es. rate_time e \<le> now) \<Longrightarrow>
          filter (\<lambda>t. now - fpsWindow \<le> t) (fs_times f) = filter (\<lambda>t. now - fpsWindow \<le> t) (marks es)" by blast+
  have up: "\<forall>t\<in>set (marks es). t \<le> rate_time e" using c(3) le by auto
  have sts: "sorted ?ts" using c(1,4) up by (cases e) (auto simp: sorted_append)
  have f': "fs_times f' = filter (\<lambda>t. rate_time e - fpsWindow \<le> t) ?ts"
    using run_snoc(3) sts by (cases e) (simp_all add: rate_step_def Mark_def FPS_def Let_def trim_def trim_sorted)
  have "filter (\<lambda>t. now - fpsWindow \<le> t) (fs_times f') = filter (\<lambda>t. now - fpsWindow \<le> t) (marks (es @ [e]))"
    if "\<forall>x\<in>set (es @ [e]). rate_time x \<le> now" for now
  proof -
    have "filter (\<lambda>t. now - fpsWindow \<le> t) (fs_times f') = filter (\<lambda>t. now - fpsWindow \<le> t) ?ts"
      unfolding f' filter_filter using that by (intro filter_cong) auto
    then show ?thesis using c(5) [of now] that by (cases e) auto
  qed
  moreover have "sorted (fs_times f')" unfolding f' using sts by (rule sorted_wrt_filter)
  moreover have "sorted (marks (es @ [e]))" using c(2) up by (cases e) (auto simp: sorted_append)
  moreover have "set (marks (es @ [e])) \<subseteq> rate_time ` set (es @ [e])" using c(3) by (cases e) auto
  moreover have "set (fs_times f') \<subseteq> set (marks (es @ [e]))" using c(4) by (cases e) (auto simp: f')
  ultimately show ?case by blast
qed

text \<open>
  The frame rate is right although old arrivals are forgotten.  However marks and readings
  interleave, a reading returns half the number of all frames ever marked within the last two seconds,
  rounded up; the state never keeps a frame that lies outside the window of the last call.
\<close>

theorem FPS_counts_window:
  assumes "run rate_step newFrameStats es f" "sorted (map rate_time es @ [now])"
  shows "fst (FPS now f) = (int (length (filter (\<lambda>t. now - 2 * second \<le> t) (marks es))) + 1) div 2
    \<and> fs_times (snd (FPS now f)) = filter (\<lambda>t. now - 2 * second \<le> t) (marks es)"
proof -
  have so: "sorted (map rate_time es)" and le: "\<forall>e\<in>set es. rate_time e \<le> now" using assms(2) by (auto simp: sorted_append)
  have w: "trim_times (now - fpsWindow) (fs_times f) = filter (\<lambda>t. now - 2 * second \<le> t) (marks es)"
    using rate_window [OF assms(1) so] le by (simp add: trim_sorted fpsWindow_def)
  have r: "math_Round (real n / 2) = (int n + 1) div 2" for n :: nat
  proof -
    have "\<lfloor>real n / 2 + 1 / 2\<rfloor> = \<lfloor>real_of_int (int n + 1) / real_of_int 2\<rfloor>" by (simp add: field_simps)
    then show ?thesis by (simp only: math_Round_def floor_divide_of_int_eq) simp
  qed
  show ?thesis by (simp add: FPS_def Let_def trim_def w) (simp add: fpsWindow_def second_def r)
qed

lemma FPS_counts_window_witness:
  "fst (FPS (3 * second) (Mark (2 * second) (Mark (2 * second) (Mark 0 newFrameStats)))) = 1"
proof -
  let ?f = "Mark (2 * second) (Mark (2 * second) (Mark 0 newFrameStats))"
  have "run rate_step newFrameStats [EvMark 0, EvMark (2 * second), EvMark (2 * second)] ?f"
    by (rule exec_run [where nxt = "\<lambda>f e. Some (rate_next f e)"]) (simp_all add: rate_step_def)
  from FPS_counts_window [OF this, of "3 * second"] show ?thesis
    by (simp add: marks_def List.map_filter_def second_def)
qed

section \<open>The colours against their reference\<close>

datatype colour_event = EvState int string obj | EvStates int "(string, obj) gomap" | EvDriven int

fun colour_time :: "colour_event \<Rightarrow> int" where
  "colour_time (EvState t i s) = t" | "colour_time (EvStates t m) = t" | "colour_time (EvDriven t) = t"

fun colour_next :: "liveColors \<Rightarrow> colour_event \<Rightarrow> liveColors" where
  "colour_next c (EvState t i s) = SetState t i s c"
| "colour_next c (EvStates t m) = SetStates t m c"
| "colour_next c (EvDriven t) = snd (DrivenV1IDs t c)"

definition colour_step :: "liveColors \<Rightarrow> colour_event \<Rightarrow> liveColors \<Rightarrow> bool" where
  "colour_step c e c' \<longleftrightarrow> c' = colour_next c e"

text \<open>The reference keeps every write: the last one for a light decides.\<close>

fun writes_of :: "colour_event \<Rightarrow> (string \<times> int \<times> obj) list" where
  "writes_of (EvState t i s) = [(i, t, s)]"
| "writes_of (EvStates t m) = map (\<lambda>(i, s). (i, t, s)) m"
| "writes_of (EvDriven t) = []"

definition last_write :: "colour_event list \<Rightarrow> string \<Rightarrow> (int \<times> obj) option" where
  "last_write es i = map_of (rev (concat (map writes_of es))) i"

lemma SetStates_alt:
  "mget (lc_m (SetStates t m c)) i = (case map_of (rev m) i of None \<Rightarrow> mget (lc_m c) i | Some s \<Rightarrow> Some (parseLiveColor s))"
  "mget (lc_seen (SetStates t m c)) i = (case map_of (rev m) i of None \<Rightarrow> mget (lc_seen c) i | Some s \<Rightarrow> Some t)"
  "lc_window (SetStates t m c) = lc_window c" "gomap_ok (lc_seen c) \<Longrightarrow> gomap_ok (lc_seen (SetStates t m c))"
  unfolding SetStates_def
  by (induction m arbitrary: c) (auto simp: SetState_def map_add_def split: option.splits if_splits)

lemma map_of_rev_timed: "map_of (rev (map (\<lambda>(i, s). (i, t, s)) m)) i = map_option (\<lambda>s. (t, s)) (map_of (rev m) i)"
proof -
  have "rev (map (\<lambda>(i, s). (i, t, s)) m) = map (\<lambda>(i, s). (i, (\<lambda>s. (t, s)) s)) (rev m)" by (simp add: rev_map)
  then show ?thesis by (simp only: map_of_map) (simp add: comp_def)
qed

lemma last_write_snoc:
  "last_write [] i = None"
  "last_write (es @ [EvState t j s]) i = (if i = j then Some (t, s) else last_write es i)"
  "last_write (es @ [EvStates t m]) i = (case map_of (rev m) i of None \<Rightarrow> last_write es i | Some s \<Rightarrow> Some (t, s))"
  "last_write (es @ [EvDriven t]) i = last_write es i"
  by (auto simp: last_write_def map_add_def map_of_rev_timed split: option.splits)

lemma last_write_time: "last_write es i = Some (t, s) \<Longrightarrow> \<exists>e\<in>set es. colour_time e = t"
proof (induction es arbitrary: t s rule: rev_induct)
  case (snoc e es)
  then show ?case by (cases e) (force simp: last_write_snoc split: if_splits option.splits)+
qed (simp add: last_write_snoc)

lemma colour_window:
  assumes "run colour_step (newLiveColors w) es c" "sorted (map colour_time es)"
  shows "gomap_ok (lc_seen c) \<and> lc_window c = w
    \<and> (\<forall>i. mget (lc_m c) i = map_option (\<lambda>(t, s). parseLiveColor s) (last_write es i))
    \<and> (\<forall>i t. mget (lc_seen c) i = Some t \<longrightarrow> (\<exists>s. last_write es i = Some (t, s)))
    \<and> (\<forall>now i t s. (\<forall>e\<in>set es. colour_time e \<le> now) \<longrightarrow> last_write es i = Some (t, s) \<longrightarrow> now - w \<le> t
          \<longrightarrow> mget (lc_seen c) i = Some t)"
  using assms
proof (induction "newLiveColors w" es c rule: run.induct)
  case run_Nil
  show ?case by (simp add: newLiveColors_def last_write_snoc gomap_ok_def)
next
  case (run_snoc es c e c')
  then have so: "sorted (map colour_time es)" and le: "\<forall>x\<in>set es. colour_time x \<le> colour_time e" by (auto simp: sorted_append)
  from run_snoc so have IH: "gomap_ok (lc_seen c)" "lc_window c = w"
    "\<And>i. mget (lc_m c) i = map_option (\<lambda>(t, s). parseLiveColor s) (last_write es i)"
    "\<And>i t. mget (lc_seen c) i = Some t \<Longrightarrow> \<exists>s. last_write es i = Some (t, s)"
    "\<And>now i t s. (\<forall>e\<in>set es. colour_time e \<le> now) \<Longrightarrow> last_write es i = Some (t, s) \<Longrightarrow> now - w \<le> t
          \<Longrightarrow> mget (lc_seen c) i = Some t" by blast+
  have c': "c' = colour_next c e" using run_snoc(3) by (simp add: colour_step_def)
  show ?case
  proof (cases e)
    case (EvState t j s)
    then show ?thesis using IH c' by (auto simp: SetState_def last_write_snoc)
  next
    case (EvStates t m)
    then show ?thesis using IH c' by (auto simp: SetStates_alt last_write_snoc split: option.splits)
  next
    case (EvDriven t)
    then have "t \<le> now" if "\<forall>x\<in>set (es @ [e]). colour_time x \<le> now" for now using that by auto
    then show ?thesis using IH c' EvDriven
      by (auto simp: DrivenV1IDs_def Let_def last_write_snoc mget_filter gomap_ok_filter split: option.splits if_splits)
  qed
qed

text \<open>
  C40: the colours shown and the lights called driven are those of the TV's last writes.  However
  single writes, whole frames and readings interleave, the snapshot holds for every light the
  parsed colour of the last write to it, forever, and a light is driven exactly when that last
  write lies within the window, although older entries are pruned at every reading.
\<close>

theorem live_colours_reference:
  assumes "run colour_step (newLiveColors w) es c" "sorted (map colour_time es @ [now])"
  shows "mget (LiveSnapshot c) i = map_option (\<lambda>(t, s). parseLiveColor s) (last_write es i)
    \<and> (i \<in> set (fst (DrivenV1IDs now c)) \<longleftrightarrow> (\<exists>t s. last_write es i = Some (t, s) \<and> now - w \<le> t))"
proof -
  have so: "sorted (map colour_time es)" and le: "\<forall>e\<in>set es. colour_time e \<le> now" using assms(2) by (auto simp: sorted_append)
  note h = colour_window [OF assms(1) so]
  have "i \<in> set (fst (DrivenV1IDs now c)) \<longleftrightarrow> mget (filter (\<lambda>(_, t). \<not> t < now - w) (lc_seen c)) i \<noteq> None"
    using h by (simp add: DrivenV1IDs_def Let_def mkeys_iff del: set_map set_filter)
  also have "\<dots> \<longleftrightarrow> (\<exists>t. mget (lc_seen c) i = Some t \<and> now - w \<le> t)"
    using h by (auto simp: mget_filter split: option.splits)
  also have "\<dots> \<longleftrightarrow> (\<exists>t s. last_write es i = Some (t, s) \<and> now - w \<le> t)"
    using h le by (metis option.inject prod.inject)
  finally show ?thesis using h by (simp add: LiveSnapshot_def)
qed

lemma live_colours_reference_witness:
  "''1'' \<notin> set (fst (DrivenV1IDs (5 * second) (SetState 0 ''1'' [(''on'', GBool False)] (newLiveColors (2 * second)))))
   \<and> map_option lv_On (mget (LiveSnapshot (SetState 0 ''1'' [(''on'', GBool False)] (newLiveColors (2 * second)))) ''1'') = Some False"
proof -
  let ?c = "SetState 0 ''1'' [(''on'', GBool False)] (newLiveColors (2 * second))"
  have r: "run colour_step (newLiveColors (2 * second)) [EvState 0 ''1'' [(''on'', GBool False)]] ?c"
    by (rule run_single) (simp add: colour_step_def)
  have l: "last_write [EvState 0 ''1'' [(''on'', GBool False)]] ''1'' = Some (0, [(''on'', GBool False)])"
    using last_write_snoc(2) [of "[]" 0 "''1''" "[(''on'', GBool False)]" "''1''"] by simp
  have p: "lv_On (parseLiveColor [(''on'', GBool False)]) = False"
    by (simp add: parseLiveColor_def oget_def)
  from live_colours_reference [OF r, of "5 * second" "''1''"] l p show ?thesis by (simp add: second_def)
qed

end
