(* ===== verification/StreamerWorld.thy ===== *)
theory StreamerWorld
  imports Streamer
begin

text \<open>
  What the streamer of \<open>Streamer\<close> does to the world around it.  Two interfaces: \<open>setup_keeps\<close> for
  finding or creating the entertainment configuration, which sends the Pro no start, and
  \<open>world_keeps\<close> for every operation.  A property of the world that the transport, the dialer, the
  connection and the configuration store keep is kept by the operations built from them.
\<close>

text \<open>The request \<open>StartStream\<close> sends, of which the rest of the streamer sends none.\<close>

definition start_request :: "http_request \<Rightarrow> bool" where
  "start_request q \<longleftrightarrow> hq_method q = PUT \<and> hq_body q = GObj [(''action'', GStr ''start'')]"

locale setup_keeps =
  fixes net :: "'s net"
    and P :: "'s \<Rightarrow> bool"
  assumes transport: "\<not> start_request q \<Longrightarrow> P w \<Longrightarrow> P (snd (nt_transport net q w))"
    and store: "nt_saveCfgID net = Some f \<Longrightarrow> P w \<Longrightarrow> P (f j w)"
begin

lemma transport': "nt_transport net q w = (r, w') \<Longrightarrow> \<not> start_request q \<Longrightarrow> P w \<Longrightarrow> P w'"
  using transport [of q w] by simp

lemma client_keeps:
  "client_get (nt_transport net) c path dec w = (x, w') \<Longrightarrow> P w \<Longrightarrow> P w'"
  "client_post (nt_transport net) c path payload w = (y, w') \<Longrightarrow> P w \<Longrightarrow> P w'"
  "client_put (nt_transport net) c path payload w = (z, w') \<Longrightarrow> payload \<noteq> GObj [(''action'', GStr ''start'')] \<Longrightarrow> P w \<Longrightarrow> P w'"
  "client_del (nt_transport net) c path w = (z, w') \<Longrightarrow> P w \<Longrightarrow> P w'"
  by (auto simp: client_get_def client_post_def client_put_def client_del_def start_request_def client_request_def
      split: prod.splits option.splits if_splits dest: transport')

lemma resource_keeps:
  "Lights (nt_transport net) c w = (r1, w') \<Longrightarrow> P w \<Longrightarrow> P w'"
  "EntertainmentConfigs (nt_transport net) c w = (r2, w') \<Longrightarrow> P w \<Longrightarrow> P w'"
  "EntertainmentServices (nt_transport net) c w = (r3, w') \<Longrightarrow> P w \<Longrightarrow> P w'"
  "GetEntertainmentConfig (nt_transport net) c i w = (r4, w') \<Longrightarrow> P w \<Longrightarrow> P w'"
  "CreateEntertainmentConfig (nt_transport net) c n ms w = (r5, w') \<Longrightarrow> P w \<Longrightarrow> P w'"
  "StopStream (nt_transport net) c i w = (r6, w') \<Longrightarrow> P w \<Longrightarrow> P w'"
  "DeleteEntertainmentConfig (nt_transport net) c i w = (r6, w') \<Longrightarrow> P w \<Longrightarrow> P w'"
  by (auto simp: Lights_def EntertainmentConfigs_def EntertainmentServices_def GetEntertainmentConfig_def
      CreateEntertainmentConfig_def StopStream_def DeleteEntertainmentConfig_def
      split: prod.splits sum.splits list.splits dest: client_keeps)

lemma stop_keeps: "P w \<Longrightarrow> P (snd (StopStream (nt_transport net) c i w))"
  using resource_keeps(6) by (metis prod.collapse)

lemma delete_keeps: "P w \<Longrightarrow> P (snd (DeleteEntertainmentConfig (nt_transport net) c i w))"
  using resource_keeps(7) by (metis prod.collapse)

lemma persist_keeps: "P w \<Longrightarrow> P (persistConfigID net i w)"
  by (auto simp: persistConfigID_def store split: option.split)

lemma create_config_keeps: "create_config net pro ms m s w = (r, s', w') \<Longrightarrow> P w \<Longrightarrow> P w'"
  by (auto simp: create_config_def Let_def split: prod.splits sum.splits if_splits intro: persist_keeps dest: resource_keeps)

lemma ensure_listed_keeps:
  assumes "ensure_listed net pro ms m desired s w = (r, s', w')" "P w" shows "P w'"
proof -
  obtain r2 w1 where c: "EntertainmentConfigs (nt_transport net) pro w = (r2, w1)" by fastforce
  have p1: "P w1" by (rule resource_keeps(2) [OF c assms(2)])
  show ?thesis
  proof (cases r2)
    case (Inl e)
    then show ?thesis using assms(1) c p1 by (simp add: ensure_listed_def)
  next
    case (Inr configs)
    define i where "i = pick_candidate (loadConfigID net w1) configs"
    obtain r4 w2 where g: "GetEntertainmentConfig (nt_transport net) pro i w1 = (r4, w2)" by fastforce
    have p2: "P w2" by (rule resource_keeps(4) [OF g p1])
    show ?thesis using assms(1) Inr c g p1 p2
      by (auto simp: ensure_listed_def i_def [symmetric] Let_def split: if_splits sum.splits
          intro: persist_keeps create_config_keeps stop_keeps delete_keeps)
  qed
qed

lemma ensureConfig_keeps:
  assumes "ensureConfig net pro s w = (r, s', w')" "P w" shows "P w'"
proof -
  obtain r1 w1 where l: "Lights (nt_transport net) pro w = (r1, w1)" by fastforce
  have p1: "P w1" by (rule resource_keeps(1) [OF l assms(2)])
  obtain r3 w2 where v: "EntertainmentServices (nt_transport net) pro w1 = (r3, w2)" by fastforce
  have p2: "P w2" by (rule resource_keeps(3) [OF v p1])
  obtain r4 w3 where g: "GetEntertainmentConfig (nt_transport net) pro (st_cachedConfigID s) w2 = (r4, w3)" by fastforce
  have p3: "P w3" by (rule resource_keeps(4) [OF g p2])
  show ?thesis using assms(1) l v g p1 p2 p3
    by (auto simp: ensureConfig_def Let_def split: sum.splits prod.splits if_splits dest: ensure_listed_keeps)
qed

end

locale world_keeps = setup_keeps net P
  for net :: "'s net" and P :: "'s \<Rightarrow> bool" +
  assumes any_transport: "P w \<Longrightarrow> P (snd (nt_transport net q w))"
    and dial: "P w \<Longrightarrow> P (snd (nt_dial net h po i k w))"
    and conn_write: "P w \<Longrightarrow> P (snd (nt_write net c b w))"
    and conn_close: "P w \<Longrightarrow> P (nt_close net c w)"
begin

lemma start_keeps: "StartStream (nt_transport net) c i w = (r, w') \<Longrightarrow> P w \<Longrightarrow> P w'"
  using any_transport by (auto simp: StartStream_def client_put_def split: prod.splits option.splits if_splits)
    (metis snd_conv)+

lemma start_retry_keeps: "start_with_retry net pro i w = (r, w') \<Longrightarrow> P w \<Longrightarrow> P w'"
  by (auto simp: start_with_retry_def split: prod.splits sum.splits dest: start_keeps intro: stop_keeps)

lemma establish_keeps:
  assumes "establish net t s w = (r, s', w')" "P w" shows "P w'"
proof (cases t)
  case None
  then show ?thesis using assms by (simp add: establish_def)
next
  case (Some g)
  obtain r1 s1 w1 where e: "ensureConfig net (pt_client g) s w = (r1, s1, w1)" using prod_cases3 by blast
  have p1: "P w1" by (rule ensureConfig_keeps [OF e assms(2)])
  show ?thesis
  proof (cases r1)
    case (Inl x)
    then show ?thesis using assms(1) Some e p1 by (simp add: establish_def)
  next
    case (Inr y)
    obtain i remap re n where y: "y = (i, remap, re, n)" using prod_cases4 by blast
    obtain r2 w2 where st: "start_with_retry net (pt_client g) i w1 = (r2, w2)" by fastforce
    have p2: "P w2" by (rule start_retry_keeps [OF st p1])
    obtain r3 w3 where d: "nt_dial net (pt_host g) (if ps_port s1 = 0 then 2100 else ps_port s1) (pt_appKey g) (pt_clientKey g) w2 = (r3, w3)"
      by fastforce
    have p3: "P w3" using dial [OF p2] d by (metis snd_conv)
    show ?thesis using assms(1) Some e Inr y st d p2 p3
      by (auto simp: establish_def Let_def split: sum.splits option.splits intro: stop_keeps)
  qed
qed

lemma teardown_world: "teardown net s w = (s', w') \<Longrightarrow> P w \<Longrightarrow> P w'"
  by (auto simp: teardown_def Let_def split: option.splits if_splits intro: conn_close stop_keeps)

lemma Stop_keeps: "Stop net s w = (s', w') \<Longrightarrow> P w \<Longrightarrow> P w'"
  by (auto simp: Stop_def dest: teardown_world)

lemma run_turn_keeps: "run_turn_of net t b s w = (r, b', s', w') \<Longrightarrow> P w \<Longrightarrow> P w'"
  by (auto simp: run_turn_of_def split: prod.splits option.splits dest: establish_keeps)

lemma send_tick_keeps:
  assumes "send_tick net l s w = (l', s', w')" "P w" shows "P w'"
proof (cases "st_conn s")
  case None
  then show ?thesis using assms by (simp add: send_tick_def)
next
  case (Some c)
  obtain g s1 where b: "buildFrame s = (g, s1)" by fastforce
  show ?thesis
  proof (cases g)
    case None
    then show ?thesis using assms Some b by (simp add: send_tick_def)
  next
    case (Some f)
    obtain ok w1 where w: "nt_write net c (Encode f) w = (ok, w1)" by fastforce
    have p: "P w1" using conn_write [OF assms(2)] w by (metis snd_conv)
    show ?thesis using assms(1) \<open>st_conn s = Some c\<close> b Some w p
      by (auto simp: send_tick_def Let_def split: prod.splits bool.splits dest: teardown_world)
  qed
qed

end

end
