(* ===== verification/Wiring.thy ===== *)
theory Wiring
  imports ClipProps Serve Setup LiveStats StreamerWorld
begin

text \<open>
  The program as \<open>runServe\<close> (\<open>cmd/relume-tv/main.go\<close>) puts it together: the CLIP server, the DTLS
  receiver's sessions, the streamer, the wizard, the idle monitor and the statistics, joined by the
  hooks the function installs.  The configuration is one shared object; it is kept in the server's
  state and handed to the streamer for the time of a call.

  One event is one call into a component, by whichever goroutine.  \<open>OnStreamStart\<close> and \<open>OnStreamStop\<close>
  call two components each and are two events, the second being \<open>AHook\<close>; requests, timers and the
  streamer's goroutine may come between them.  What the Pro and the network contribute is an
  argument of the event, and how a save fares is the \<open>writer\<close>.  The drain goroutine of the provider is
  modelled in \<open>Provider\<close>; here it appears by its effects, in any order: it takes the queue and calls the hooks
  \<open>newProvider\<close> installs (\<open>AForwarded\<close>, \<open>ACoalesced\<close>, \<open>AForwardErr\<close>).
\<close>

section \<open>State\<close>

datatype hook = NoHook | Starting | Stopping

record 'p app =
  aw_sc :: serveConfig
  aw_now :: int
  aw_clip :: clip_server
  aw_inflight :: "nat list"
  aw_ses :: ses_sys
  aw_hook :: hook
  aw_net :: "'p net"
  aw_p :: 'p
  aw_str :: ProStreamer
  aw_phase :: run_phase
  aw_controlled :: ControlledSet
  aw_live :: liveColors
  aw_setup :: setupStatus
  aw_mon :: idle_monitor
  aw_frames :: frameStats
  aw_restRecv :: frameStats
  aw_proSend :: frameStats
  aw_proStats :: proStats
  aw_jitter :: jitterStats
  aw_offs :: "(int \<times> (string \<times> obj) list) list"

abbreviation aw_cfg :: "'p app \<Rightarrow> Config" where
  "aw_cfg a \<equiv> cv_cfg (aw_clip a)"

abbreviation aw_stream :: "'p app \<Rightarrow> streamState" where
  "aw_stream a \<equiv> cv_stream (aw_clip a)"

text \<open>The state when the workers are started: \<open>runServe\<close> up to its first goroutine.\<close>

definition serve_clip :: "serveOptions \<Rightarrow> serveConfig \<Rightarrow> Config \<Rightarrow> file_state \<Rightarrow> string \<Rightarrow> int \<Rightarrow> clip_server" where
  "serve_clip opts sc cfg file ip now =
     (let clip = (New cfg file ip (so_httpPort opts) now)\<lparr>cv_Debug := so_debug opts, cv_TVIP := so_tvIP opts,
            cv_EntertainmentMode := sv_entertainmentMode sc\<rparr>;
          clip1 = SetDTLSFallbackRecovery (so_dtlsFallbackRecovery opts)
            (SetDTLSFallbackTimeout (so_dtlsFallbackTimeout opts) clip)
      in case GetPro cfg of None \<Rightarrow> clip1 | Some _ \<Rightarrow> SetLightProvider (Some NewLightProvider) clip1)"

definition wire :: "serveOptions \<Rightarrow> serveConfig \<Rightarrow> Config \<Rightarrow> file_state \<Rightarrow> string \<Rightarrow> int \<Rightarrow> 'p net \<Rightarrow> 'p \<Rightarrow> 'p app" where
  "wire opts sc cfg file ip now net p =
     \<lparr>aw_sc = sc, aw_now = now, aw_clip = serve_clip opts sc cfg file ip now, aw_inflight = [],
      aw_ses = ses_start, aw_hook = NoHook, aw_net = net, aw_p = p,
      aw_str = SetMedianFilter (so_medianWindow opts) (word_of_int (medianThreshold16 opts))
        (SetSmoothTau (so_smoothTau opts) NewProStreamer),
      aw_phase = NoRun, aw_controlled = NewControlledSet (sv_controlledWindow sc),
      aw_live = newLiveColors drivenLightWindow, aw_setup = newSetupStatus (Committed cfg),
      aw_mon = \<lparr>im_lastSeen = None, im_fired = False\<rparr>, aw_frames = newFrameStats, aw_restRecv = newFrameStats,
      aw_proSend = newFrameStats, aw_proStats = newProStats, aw_jitter = newJitterStats, aw_offs = []\<rparr>"

section \<open>The hooks\<close>

text \<open>
  The wizard's signals, read from the shared state.  Asking which lights are driven drops the
  stale ones; the machine asks when it arrives at, or stays in, the last step.
\<close>

definition signals_of :: "'p app \<Rightarrow> signals" where
  "signals_of a = \<lparr>sg_proPaired = (GetPro (aw_cfg a) \<noteq> None), sg_tvPaired = (PairedDeviceTypes (aw_cfg a) \<noteq> []),
     sg_active = (fst (DrivenV1IDs (aw_now a) (aw_live a)) \<noteq> [])\<rparr>"

definition asks_active :: "setup_event \<Rightarrow> setupStatus \<Rightarrow> setupStatus \<Rightarrow> bool" where
  "asks_active ev s s' \<longleftrightarrow> su_step s \<le> stepAssignBulbs \<and> stepAssignBulbs \<le> su_step s'
     \<and> (case ev of SPrecond _ _ _ _ \<Rightarrow> False | SDescriptor _ \<Rightarrow> su_step s = stepRebootTV | _ \<Rightarrow> True)"

definition run_setup :: "writer \<Rightarrow> (signals \<Rightarrow> setup_event) \<Rightarrow> 'p app \<Rightarrow> 'p app" where
  "run_setup wr ev a =
     (let e = ev (signals_of a); s' = setup_next (aw_setup a) e;
          a1 = (if asks_active e (aw_setup a) s' then a\<lparr>aw_live := snd (DrivenV1IDs (aw_now a) (aw_live a))\<rparr> else a);
          a2 = a1\<lparr>aw_setup := s'\<rparr>
      in if su_commits s' = su_commits (aw_setup a) then a2
         else (case Commit wr (aw_cfg a2) (cv_file (aw_clip a2)) of (err, c, f) \<Rightarrow>
           a2\<lparr>aw_clip := (aw_clip a2)\<lparr>cv_cfg := c, cv_file := f\<rparr>\<rparr>))"

text \<open>
  A request of the TV, and what its hooks do: \<open>OnGroupMembers\<close> tells the streamer the zone (entertainment
  mode), \<open>OnRESTControl\<close> marks the rate, \<open>OnDescriptorFetch\<close> and \<open>OnPair\<close> drive the wizard.
\<close>

definition tv_request_step :: "request \<Rightarrow> clip_env \<Rightarrow> 'p app \<Rightarrow> 'p app" where
  "tv_request_step rq e a =
     (let c = aw_clip a; c' = snd (serve rq e c);
          a1 = a\<lparr>aw_clip := c'\<rparr>;
          a2 = (if sv_entertainmentMode (aw_sc a)
                then a1\<lparr>aw_str := foldl (\<lambda>s ids. SetRequestedMembers ids s) (aw_str a1) (drop (length (cv_pushed c)) (cv_pushed c'))\<rparr>
                else a1);
          a3 = a2\<lparr>aw_restRecv := (Mark (aw_now a) ^^ (cv_restCalls c' - cv_restCalls c)) (aw_restRecv a2)\<rparr>;
          a4 = (if cv_fetches c' = cv_fetches c then a3 else run_setup (en_write e) SDescriptor a3)
      in if cv_paired c' = cv_paired c then a4 else run_setup (en_write e) SRecompute a4)"

section \<open>The streamer in the program\<close>

text \<open>The network and the Pro do not touch the configuration; the store of the streamer does.\<close>

definition on_pro :: "('p \<Rightarrow> 'a \<times> 'p) \<Rightarrow> 'p main_world \<Rightarrow> 'a \<times> 'p main_world" where
  "on_pro f w = (case w of (p, r) \<Rightarrow> (case f p of (x, p') \<Rightarrow> (x, (p', r))))"

definition wired_net :: "'p net \<Rightarrow> 'p main_world net" where
  "wired_net n = \<lparr>nt_transport = (\<lambda>q. on_pro (nt_transport n q)),
     nt_dial = (\<lambda>h po i k. on_pro (nt_dial n h po i k)),
     nt_write = (\<lambda>c b. on_pro (nt_write n c b)),
     nt_close = (\<lambda>c (p, r). (nt_close n c p, r)),
     nt_loadCfgID = Some main_load, nt_saveCfgID = Some main_save\<rparr>"

definition world :: "writer \<Rightarrow> 'p app \<Rightarrow> 'p main_world" where
  "world wr a = (aw_p a, aw_cfg a, cv_file (aw_clip a), wr)"

definition put_world :: "'p main_world \<Rightarrow> 'p app \<Rightarrow> 'p app" where
  "put_world w a = (case w of (p, c, f, _) \<Rightarrow> a\<lparr>aw_p := p, aw_clip := (aw_clip a)\<lparr>cv_cfg := c, cv_file := f\<rparr>\<rparr>)"

definition start_stream :: "'p app \<Rightarrow> 'p app" where
  "start_stream a =
     (case Start (pro_resolver (aw_cfg a)) (aw_str a) of (launched, s) \<Rightarrow>
        a\<lparr>aw_str := s, aw_phase := (if launched then Trying initialBackoff else aw_phase a)\<rparr>)"

definition stop_stream :: "writer \<Rightarrow> 'p app \<Rightarrow> 'p app" where
  "stop_stream wr a =
     (case Stop (wired_net (aw_net a)) (aw_str a) (world wr a) of (s, w) \<Rightarrow>
        put_world w (a\<lparr>aw_str := s, aw_phase := NoRun\<rparr>))"

definition streamer_turn :: "writer \<Rightarrow> 'p app \<Rightarrow> 'p app option" where
  "streamer_turn wr a =
     (case aw_phase a of
        Trying b \<Rightarrow>
          (case run_turn_of (wired_net (aw_net a)) (pro_resolver (aw_cfg a)) b (aw_str a) (world wr a) of (t, b', s, w) \<Rightarrow>
             Some (put_world w (a\<lparr>aw_str := s, aw_phase := (case t of Backoff e d \<Rightarrow> Trying b' | EnterSendLoop \<Rightarrow> InLoop send_start)\<rparr>)))
      | _ \<Rightarrow> None)"

text \<open>A tick of the send loop; \<open>OnSend\<close> marks a frame that went out.\<close>

definition streamer_tick :: "writer \<Rightarrow> 'p app \<Rightarrow> 'p app option" where
  "streamer_tick wr a =
     (case aw_phase a of
        InLoop l \<Rightarrow>
          (case send_tick (wired_net (aw_net a)) l (aw_str a) (world wr a) of (l', s, w) \<Rightarrow>
             Some (put_world w (a\<lparr>aw_str := s,
               aw_phase := (case l' of None \<Rightarrow> Trying initialBackoff | Some l'' \<Rightarrow> InLoop l''),
               aw_proSend := (case l' of None \<Rightarrow> aw_proSend a
                 | Some l'' \<Rightarrow> if sl_sent l'' = sl_sent l then aw_proSend a else Mark (aw_now a) (aw_proSend a))\<rparr>)))
      | _ \<Rightarrow> None)"

definition streamer_rollup :: "'p app \<Rightarrow> 'p app option" where
  "streamer_rollup a =
     (case aw_phase a of
        InLoop l \<Rightarrow>
          (case send_rollup l (aw_str a) of ((briJump, colJump, spikes), l', s) \<Rightarrow>
             Some (a\<lparr>aw_str := s, aw_phase := InLoop l',
               aw_jitter := setSpikes spikes (setSent (aw_now a) (unat briJump) (aw_jitter a))\<rparr>))
      | _ \<Rightarrow> None)"

text \<open>A frame of the TV: into the stream to the Pro, or, without one, forwarded light by light.\<close>

definition forward_calls :: "(string \<times> obj) list \<Rightarrow> clip_server \<Rightarrow> clip_server" where
  "forward_calls cs c = foldl (\<lambda>c (i, st). ForwardLight i st c) c cs"

definition receive_frame :: "Frame \<Rightarrow> 'p app \<Rightarrow> 'p app" where
  "receive_frame f a =
     (case Push f (aw_str a) of
        (OnColorStates m, s) \<Rightarrow> a\<lparr>aw_str := s, aw_live := SetStates (aw_now a) m (aw_live a)\<rparr>
      | (FallbackCalls cs, s) \<Rightarrow> a\<lparr>aw_str := s, aw_clip := forward_calls cs (aw_clip a)\<rparr>)"

section \<open>Events\<close>

datatype app_event =
    AElapse int
  | ARequest request clip_env
  | ATimer
  | ACallback nat
  | ASession ses_event
  | AHook writer
  | ADatagram
  | AFrame Frame
  | AWindow u32
  | ATurn writer
  | ASendTick writer
  | ASendRollup
  | ATake
  | APublish "pro_error + Light list"
  | AForwarded string string obj
  | ACoalesced
  | AForwardErr
  | ASetPro writer "BridgePro option"
  | AInstall
  | APrecond bool string bool string
  | AReachable writer bool
  | ARecompute writer
  | AIdle
  | ARollup "int \<Rightarrow> duration"
  | AShow
  | AFence
  | AShutdown writer

definition idle_round :: "'p app \<Rightarrow> 'p app" where
  "idle_round a =
     (case idle_tick (aw_clip a) (GetPro (aw_cfg a)) (idle_timeout (aw_sc a) (aw_clip a)) (aw_now a) (aw_mon a, aw_controlled a) of
        ((m, cs), off) \<Rightarrow> a\<lparr>aw_mon := m, aw_controlled := cs,
          aw_offs := aw_offs a @ (case off of None \<Rightarrow> [] | Some ws \<Rightarrow> [(aw_now a, ws)])\<rparr>)"

text \<open>\<open>LogActivitySummary\<close>: the turn-off targets are asked for only when there is something to log.\<close>

definition activity_rollup :: "(int \<Rightarrow> duration) \<Rightarrow> 'p app \<Rightarrow> 'p app" where
  "activity_rollup rounded a =
     (let t = cv_activity (aw_clip a); (ids, cs) = Current (aw_now a) (aw_controlled a) in
      a\<lparr>aw_clip := snd (flushActivity (sv_activityWindow (aw_sc a)) (Some ids) rounded (aw_now a) (aw_clip a)),
        aw_controlled := (if at_lightWrites t + at_groupActionWrites t + at_lightReads t = 0 then aw_controlled a else cs)\<rparr>)"

definition session_step :: "ses_event \<Rightarrow> 'p app \<Rightarrow> 'p app option" where
  "session_step ev a =
     (case ses_next (aw_ses a) ev of
        None \<Rightarrow> None
      | Some y \<Rightarrow> let a1 = a\<lparr>aw_ses := y\<rparr> in
          (case ev of
             StreamStart i \<Rightarrow> if aw_hook a = NoHook
               then Some (a1\<lparr>aw_clip := MarkDTLSStreamUp (aw_clip a), aw_hook := Starting\<rparr>) else None
           | StreamStop i \<Rightarrow> if aw_hook a = NoHook
               then Some (a1\<lparr>aw_clip := MarkDTLSStreamDown (aw_clip a), aw_hook := Stopping\<rparr>) else None
           | Cleanup i \<Rightarrow> if aw_hook a = NoHook \<or> ses_phase (aw_ses a) i = Superseded then Some a1 else None
           | _ \<Rightarrow> Some a1))"

fun app_next :: "'p app \<Rightarrow> app_event \<Rightarrow> 'p app option" where
  "app_next a (AElapse d) = (if 0 \<le> d then Some (a\<lparr>aw_now := aw_now a + d\<rparr>) else None)"
| "app_next a (ARequest rq e) = (if en_now e = aw_now a then Some (tv_request_step rq e a) else None)"
| "app_next a ATimer =
     (case ss_watchdog (aw_stream a) of None \<Rightarrow> None
      | Some t \<Rightarrow> if tm_pending t \<and> tm_deadline t \<le> aw_now a
          then Some (a\<lparr>aw_clip := (aw_clip a)\<lparr>cv_stream := (aw_stream a)\<lparr>ss_watchdog := Some (t\<lparr>tm_pending := False\<rparr>)\<rparr>\<rparr>,
                       aw_inflight := tm_gen t # aw_inflight a\<rparr>)
          else None)"
| "app_next a (ACallback g) =
     (if g \<in> set (aw_inflight a)
      then Some (a\<lparr>aw_clip := (aw_clip a)\<lparr>cv_stream := watchdogFired g (aw_now a) (aw_stream a)\<rparr>,
                   aw_inflight := remove1 g (aw_inflight a)\<rparr>)
      else None)"
| "app_next a (ASession ev) = (if sv_entertainmentMode (aw_sc a) then session_step ev a else None)"
| "app_next a (AHook wr) =
     (case aw_hook a of NoHook \<Rightarrow> None
      | Starting \<Rightarrow> Some ((start_stream a)\<lparr>aw_hook := NoHook\<rparr>)
      | Stopping \<Rightarrow> Some ((stop_stream wr a)\<lparr>aw_hook := NoHook\<rparr>))"
| "app_next a ADatagram =
     (if sv_entertainmentMode (aw_sc a)
      then Some (a\<lparr>aw_clip := MarkActivity (aw_now a) (aw_clip a), aw_frames := Mark (aw_now a) (aw_frames a)\<rparr>) else None)"
| "app_next a (AFrame f) = (if sv_entertainmentMode (aw_sc a) then Some (receive_frame f a) else None)"
| "app_next a (AWindow briJump) =
     (if sv_entertainmentMode (aw_sc a) then Some (a\<lparr>aw_jitter := setInput (unat briJump) (aw_jitter a)\<rparr>) else None)"
| "app_next a (ATurn wr) = streamer_turn wr a"
| "app_next a (ASendTick wr) = streamer_tick wr a"
| "app_next a ASendRollup = streamer_rollup a"
| "app_next a ATake = Some (a\<lparr>aw_clip := clip_next (aw_clip a) CTake\<rparr>)"
| "app_next a (APublish r) = Some (a\<lparr>aw_clip := clip_next (aw_clip a) (CPublish r (aw_now a))\<rparr>)"
| "app_next a (AForwarded uuid v1id st) =
     Some (a\<lparr>aw_controlled := Seen uuid (aw_now a) (aw_controlled a), aw_live := SetState (aw_now a) v1id st (aw_live a),
       aw_proStats := (aw_proStats a)\<lparr>pst_writes := Mark (aw_now a) (pst_writes (aw_proStats a))\<rparr>\<rparr>)"
| "app_next a ACoalesced =
     Some (a\<lparr>aw_proStats := (aw_proStats a)\<lparr>pst_coalesces := Mark (aw_now a) (pst_coalesces (aw_proStats a))\<rparr>\<rparr>)"
| "app_next a AForwardErr = Some (a\<lparr>aw_proStats := markForwardErr (aw_now a) (aw_proStats a)\<rparr>)"
| "app_next a (ASetPro wr p) =
     (case SetPro wr p (aw_cfg a) (cv_file (aw_clip a)) of (err, c, f) \<Rightarrow>
        Some (a\<lparr>aw_clip := (aw_clip a)\<lparr>cv_cfg := c, cv_file := f\<rparr>\<rparr>))"
| "app_next a AInstall = Some (a\<lparr>aw_clip := SetLightProvider (Some NewLightProvider) (aw_clip a)\<rparr>)"
| "app_next a (APrecond ok host isPro msg) = Some (a\<lparr>aw_setup := setPrecond ok host isPro msg (aw_setup a)\<rparr>)"
| "app_next a (AReachable wr r) = Some (run_setup wr (\<lambda>sg. SReachable sg r) a)"
| "app_next a (ARecompute wr) = Some (run_setup wr SRecompute a)"
| "app_next a AIdle =
     (if sv_idleOff (aw_sc a) > 0 \<or> sv_idleOffFallback (aw_sc a) > 0 then Some (idle_round a) else None)"
| "app_next a (ARollup rounded) = Some (activity_rollup rounded a)"
| "app_next a AShow = Some (a\<lparr>aw_live := snd (DrivenV1IDs (aw_now a) (aw_live a))\<rparr>)"
| "app_next a AFence = Some (a\<lparr>aw_clip := snd (CloseLightWrites (aw_clip a))\<rparr>)"
| "app_next a (AShutdown wr) = Some (if sv_entertainmentMode (aw_sc a) then stop_stream wr a else a)"

definition app_step :: "'p app \<Rightarrow> app_event \<Rightarrow> 'p app \<Rightarrow> bool" where
  "app_step a e a' \<longleftrightarrow> app_next a e = Some a'"

definition app_init :: "'p app \<Rightarrow> bool" where
  "app_init a \<longleftrightarrow> (\<exists>opts sc cfg file path mac rnd ip now net p. deriveServeConfig opts = Inr sc
     \<and> Load path file mac rnd = Inr cfg \<and> a = wire opts sc cfg file ip now net p)"

section \<open>What one call may change\<close>

text \<open>
  What a call into the server may change of the state the other components rely on: the mode and the
  stream-up flag stay, the fallback may be released but not latched, the file is written only
  once committed, the zone follows the hook, and activity is recorded at the current time.
\<close>

definition moved :: "int \<Rightarrow> clip_server \<Rightarrow> clip_server \<Rightarrow> bool" where
  "moved now c c' \<longleftrightarrow> cv_EntertainmentMode c' = cv_EntertainmentMode c
     \<and> ss_streamUp (cv_stream c') = ss_streamUp (cv_stream c)
     \<and> (ss_fallback (cv_stream c') \<longrightarrow> ss_fallback (cv_stream c))
     \<and> cf_persist (cv_cfg c') = cf_persist (cv_cfg c) \<and> (cf_persist (cv_cfg c) \<or> cv_file c' = cv_file c)
     \<and> (\<exists>new. cv_pushed c' = cv_pushed c @ new \<and> [] \<notin> set new
         \<and> cv_reqMembers c' = (if new = [] then cv_reqMembers c else Some (set_of_ids (last new))))
     \<and> LastActivity c' \<in> {LastActivity c, Some now}"

lemma moved_refl [simp, intro]: "moved now c c"
  by (simp add: moved_def)

lemma moved_trans [trans]: "moved now c d \<Longrightarrow> moved now d e \<Longrightarrow> moved now c e"
  unfolding moved_def
proof (elim conjE exE, intro conjI)
  fix m n
  assume "cv_pushed d = cv_pushed c @ m" "[] \<notin> set m" "cv_reqMembers d = (if m = [] then cv_reqMembers c else Some (set_of_ids (last m)))"
    and "cv_pushed e = cv_pushed d @ n" "[] \<notin> set n" "cv_reqMembers e = (if n = [] then cv_reqMembers d else Some (set_of_ids (last n)))"
  then show "\<exists>new. cv_pushed e = cv_pushed c @ new \<and> [] \<notin> set new
         \<and> cv_reqMembers e = (if new = [] then cv_reqMembers c else Some (set_of_ids (last new)))"
    by (intro exI [of _ "m @ n"]) auto
qed auto

lemma moved_updates [simp, intro]:
  "moved now c (c\<lparr>cv_lights := l\<rparr>)" "moved now c (c\<lparr>cv_restCalls := n\<rparr>)" "moved now c (c\<lparr>cv_fetches := n\<rparr>)"
  "moved now c (c\<lparr>cv_paired := n\<rparr>)" "moved now c (c\<lparr>cv_lightsClosed := b\<rparr>)"
  by (simp_all add: moved_def LastActivity_def)

lemma moved_stream:
  "ss_streamUp st = ss_streamUp (cv_stream c) \<Longrightarrow> (ss_fallback st \<Longrightarrow> ss_fallback (cv_stream c)) \<Longrightarrow> moved now c (c\<lparr>cv_stream := st\<rparr>)"
  by (simp add: moved_def LastActivity_def)

lemma moved_activity: "lastActivity a \<in> {LastActivity c, Some now} \<Longrightarrow> moved now c (c\<lparr>cv_activity := a\<rparr>)"
  by (simp add: moved_def LastActivity_def)

lemma moved_config:
  "cf_persist d = cf_persist (cv_cfg c) \<Longrightarrow> cf_persist d \<or> f = cv_file c \<Longrightarrow> moved now c (c\<lparr>cv_cfg := d, cv_file := f\<rparr>)"
  by (simp add: moved_def LastActivity_def)

lemma moved_count: "moved now c (count_request rq c)"
  by (auto simp: count_request_def LastActivity_def lastActivity_def recordLightWrite_def recordGroupActionWrite_def
      recordLightRead_def intro!: moved_activity split: option.split)

lemma moved_members: "ids \<noteq> [] \<Longrightarrow> moved now c (setRequestedMembers ids c)"
  by (simp add: moved_def setRequestedMembers_def LastActivity_def)

lemma moved_forward: "moved now c (ForwardLight i st c)"
  by (simp add: ForwardLight_def split: option.split)

lemma parseGroupLights_nonempty: "parseGroupLights body = Some ids \<Longrightarrow> ids \<noteq> []"
  by (auto simp: parseGroupLights_def Let_def split: option.splits if_splits)

lemma saving_persist:
  "saving wr c f = (err, c', f') \<Longrightarrow> c' = c \<and> (cf_persist c \<or> f' = f)"
  by (auto simp: saving_def save_def split: if_splits prod.splits)

lemma moved_note_rest: "moved now c (note_rest c)"
  by (auto simp: note_rest_def noteRESTDriving_def intro: moved_stream)

lemma moved_lights: "server_lightsV1 e c = (m, c') \<Longrightarrow> moved now c c'"
  by (auto simp: server_lightsV1_def split: option.splits prod.splits)

lemma moved_forward_all: "moved now c (snd (forward_all action ids c))"
proof (induction ids rule: rev_induct)
  case (snoc i ids)
  let ?t = "snd (forward_all action ids c)"
  have "snd (forward_all action (ids @ [i]) c) = (if off_zone ?t i then ?t else ForwardLight i action ?t)"
    by (simp add: forward_all_def split: prod.split)
  then show ?case using snoc moved_trans [OF snoc moved_forward] by simp
qed (simp add: forward_all_def)

lemma moved_set_light:
  assumes "handleSetLightState i body e c = (r, c')" shows "moved (en_now e) c c'"
proof -
  let ?a = "snd (recordWriteTime (en_gapTrace e) (en_now e) (cv_activity c))"
  have "lastActivity ?a = Some (en_now e)"
    by (simp add: recordWriteTime_def lastActivity_def Let_def split: option.split)
  then have 1: "moved (en_now e) c (c\<lparr>cv_activity := ?a\<rparr>)" by (intro moved_activity) simp
  show ?thesis using assms moved_trans [OF moved_trans [OF 1 moved_updates(2)] moved_note_rest, THEN moved_trans, OF moved_updates(1)]
    by (auto simp: handleSetLightState_def Let_def split: option.splits if_splits)
qed

lemma moved_group_action:
  assumes "handleGroupAction i body e c = (r, c')" shows "moved now c c'"
  using assms moved_trans [OF moved_trans [OF moved_updates(2) moved_lights] moved_forward_all]
  by (auto simp: handleGroupAction_def Let_def split: if_splits prod.splits)

lemma moved_group_update:
  assumes "handleGroupUpdate u i body e c = (r, c')" shows "moved now c c'"
proof -
  define s1 where "s1 = (if i = ''1'' then (case parseGroupLights body of None \<Rightarrow> c | Some ids \<Rightarrow> setRequestedMembers ids c) else c)"
  define s2 where "s2 = (if cv_EntertainmentMode s1 \<and> streamActiveFromBody body = Some True
                then s1\<lparr>cv_stream := snd (tryRecoverFallback (en_now e) (cv_stream s1))\<rparr> else s1)"
  have 1: "moved now c s1" by (auto simp: s1_def intro: moved_members dest: parseGroupLights_nonempty split: option.split)
  have "moved now s1 s2" unfolding s2_def by (auto simp: tryRecoverFallback_def intro: moved_stream)
  with 1 have 2: "moved now c s2" by (rule moved_trans)
  have "c' = s2 \<or> (\<exists>b. c' = set_activation b u (en_now e) s2)"
    using assms unfolding handleGroupUpdate_def Let_def s1_def [symmetric] s2_def [symmetric]
    by (auto split: if_splits option.splits)
  moreover have "moved now s2 (set_activation b u (en_now e) s2)" for b
    by (auto simp: set_activation_def setActive_def armWatchdog_def disarmWatchdog_def Let_def intro!: moved_stream split: option.splits)
  ultimately show ?thesis using 2 moved_trans by blast
qed

lemma moved_pairing:
  assumes "handlePairing rq body e c = (r, c')" shows "moved now c c'"
proof (cases "\<exists>u err d f. AddAPIUser (en_write e) u (cv_cfg c) (cv_file c) = (err, d, f) \<and> (c' = c\<lparr>cv_cfg := d, cv_file := f\<rparr>
    \<or> c' = c\<lparr>cv_cfg := d, cv_file := f, cv_paired := cv_paired c + 1\<rparr>)")
  case True
  then obtain u err d f where a: "AddAPIUser (en_write e) u (cv_cfg c) (cv_file c) = (err, d, f)"
    and c': "c' = c\<lparr>cv_cfg := d, cv_file := f\<rparr> \<or> c' = c\<lparr>cv_cfg := d, cv_file := f, cv_paired := cv_paired c + 1\<rparr>" by blast
  have "moved now c (c\<lparr>cv_cfg := d, cv_file := f\<rparr>)"
    by (rule moved_config) (use saving_persist [OF a [unfolded AddAPIUser_def]] in auto)
  then show ?thesis using c' moved_trans [OF _ moved_updates(4)] by force
next
  case False
  then have "c' = c" using assms
    by (auto simp: handlePairing_def Let_def split: option.splits if_splits prod.splits)
  then show ?thesis by simp
qed

lemma moved_handle:
  assumes "handle r rq body e c = (resp, c')" shows "moved (en_now e) c c'"
proof (cases r)
  case (RCreateGroup u)
  then show ?thesis using assms
    by (auto simp: handleCreateGroup_def intro: moved_members dest: parseGroupLights_nonempty split: if_splits option.splits)
qed (use assms in \<open>auto simp: handleDescription_def handleLights_def handleLight_def handleDatastore_def Let_def
    split: if_splits option.splits prod.splits
    dest: moved_pairing moved_lights moved_set_light moved_group_action moved_group_update\<close>)

lemma moved_serve: "moved (en_now e) c (snd (serve rq e c))"
proof -
  obtain resp c' where h: "handle (route_of (rq_method rq) (rq_path rq)) rq (request_body rq c) e (count_request rq c) = (resp, c')"
    by fastforce
  from moved_trans [OF moved_count moved_handle [OF h]] h show ?thesis by (simp add: serve_def)
qed

section \<open>What the streamer does to its world\<close>

text \<open>In the program: the commit flag stays, and before the commit so does the file.\<close>

definition kept :: "bool \<Rightarrow> file_state \<Rightarrow> 'p main_world \<Rightarrow> bool" where
  "kept b f0 w \<longleftrightarrow> (case w of (p, c, f, wr) \<Rightarrow> cf_persist c = b \<and> (b \<or> f = f0))"

interpretation wired: world_keeps "wired_net n" "kept b f" for n :: "'p net" and b f
proof unfold_locales
  fix g j and w :: "'p main_world"
  assume g: "nt_saveCfgID (wired_net n) = Some g" and k: "kept b f w"
  obtain p c f' wr where w: "w = (p, c, f', wr)" using prod_cases4 by blast
  obtain err c' f'' where s: "SaveEntConfigID wr j c f' = (err, c', f'')" using prod_cases3 by blast
  have "cf_persist c' = cf_persist c \<and> (cf_persist c \<or> f'' = f')"
    using s saving_persist [of wr "c\<lparr>cf_EntConfigID := j\<rparr>" f' err c' f''] by (auto simp: SaveEntConfigID_def split: if_splits)
  then show "kept b f (g j w)" using g k s by (auto simp: wired_net_def main_save_def kept_def w)
qed (auto simp: wired_net_def on_pro_def kept_def split: prod.splits)

lemma kept_world [simp]: "kept (cf_persist (aw_cfg a)) (cv_file (aw_clip a)) (world wr a)"
  by (simp add: kept_def world_def)

section \<open>The invariant of the program\<close>

text \<open>The streamer as the system of its own theory.\<close>

definition str_of :: "writer \<Rightarrow> 'p app \<Rightarrow> 'p main_world str_sys" where
  "str_of wr a = \<lparr>sr_net = wired_net (aw_net a), sr_s = aw_str a, sr_w = world wr a, sr_phase = aw_phase a\<rparr>"

definition str_ok :: "ProStreamer \<Rightarrow> run_phase \<Rightarrow> bool" where
  "str_ok s ph \<longleftrightarrow> conn_ok s \<and> (ps_running s \<longleftrightarrow> ph \<noteq> NoRun)
     \<and> (case ph of NoRun \<Rightarrow> st_conn s = None | Trying b \<Rightarrow> st_conn s = None \<and> backoff_ok b | InLoop l \<Rightarrow> True)"

lemma str_inv_ok: "str_inv y = str_ok (sr_s y) (sr_phase y)"
  by (simp add: str_inv_def str_ok_def)

lemma str_ok_step: "str_step (str_of wr a) e y \<Longrightarrow> str_ok (aw_str a) (aw_phase a) \<Longrightarrow> str_ok (sr_s y) (sr_phase y)"
  using str_inv_step [of "str_of wr a" e y] by (simp add: str_inv_ok str_of_def)

definition streaming :: "'p app \<Rightarrow> bool" where
  "streaming a \<longleftrightarrow> (\<exists>i. ses_phase (aw_ses a) i = Streaming)"

definition stream_ok :: "'p app \<Rightarrow> bool" where
  "stream_ok a \<longleftrightarrow> ses_inv (aw_ses a) \<and> (ss_streamUp (aw_stream a) \<longleftrightarrow> streaming a)
     \<and> \<not> (ss_streamUp (aw_stream a) \<and> ss_fallback (aw_stream a))
     \<and> (aw_hook a = Starting \<longrightarrow> ss_streamUp (aw_stream a))
     \<and> (ps_running (aw_str a) \<longrightarrow> ss_streamUp (aw_stream a) \<or> aw_hook a = Stopping)
     \<and> str_ok (aw_str a) (aw_phase a)"

definition zone_ok :: "'p app \<Rightarrow> bool" where
  "zone_ok a \<longleftrightarrow> cv_EntertainmentMode (aw_clip a) = sv_entertainmentMode (aw_sc a)
     \<and> (sv_entertainmentMode (aw_sc a) \<longrightarrow> st_requested (aw_str a) = cv_reqMembers (aw_clip a))"

definition commit_ok :: "'p app \<Rightarrow> bool" where
  "commit_ok a \<longleftrightarrow> setup_inv (aw_setup a) \<and> cf_persist (aw_cfg a) = su_committed (aw_setup a)
     \<and> (cf_persist (aw_cfg a) \<or> cv_file (aw_clip a) = FileAbsent)"

definition time_ok :: "'p app \<Rightarrow> bool" where
  "time_ok a \<longleftrightarrow> (\<forall>t. LastActivity (aw_clip a) = Some t \<longrightarrow> t \<le> aw_now a)"

definition app_inv :: "'p app \<Rightarrow> bool" where
  "app_inv a \<longleftrightarrow> stream_ok a \<and> zone_ok a \<and> commit_ok a \<and> time_ok a"

lemmas app_ok_defs = stream_ok_def zone_ok_def commit_ok_def time_ok_def

text \<open>A step that leaves the streamer, the sessions and the wizard alone and moves the server.\<close>

lemma app_inv_moved:
  assumes "app_inv a" "moved (aw_now a) (aw_clip a) (aw_clip a')" "cv_reqMembers (aw_clip a') = cv_reqMembers (aw_clip a)"
    and "aw_sc a' = aw_sc a" "aw_now a \<le> aw_now a'" "aw_ses a' = aw_ses a" "aw_hook a' = aw_hook a"
    and "aw_str a' = aw_str a" "aw_phase a' = aw_phase a" "aw_setup a' = aw_setup a"
  shows "app_inv a'"
proof -
  note m = assms(2) [unfolded moved_def]
  have "stream_ok a'" using assms(1,6-9) m by (auto simp: app_inv_def stream_ok_def streaming_def)
  moreover have "zone_ok a'" using assms(1,3,4,8) m by (auto simp: app_inv_def zone_ok_def)
  moreover have "commit_ok a'" using assms(1,10) m by (auto simp: app_inv_def commit_ok_def)
  moreover have "time_ok a'" using assms(1,5) m by (auto simp: app_inv_def time_ok_def)
  ultimately show ?thesis by (simp add: app_inv_def)
qed

lemma moved_kept:
  "kept (cf_persist (cv_cfg c)) (cv_file c) w \<Longrightarrow> w = (p, d, f, wr) \<Longrightarrow> moved now c (c\<lparr>cv_cfg := d, cv_file := f\<rparr>)"
  by (rule moved_config) (auto simp: kept_def)

text \<open>The same for a step of the streamer.\<close>

lemma app_inv_streamer:
  assumes "app_inv a" "str_ok s ph" "ps_running s \<longrightarrow> ps_running (aw_str a) \<or> ss_streamUp (aw_stream a)"
    and "st_requested s = st_requested (aw_str a)" "kept (cf_persist (aw_cfg a)) (cv_file (aw_clip a)) w"
  shows "app_inv (put_world w (a\<lparr>aw_str := s, aw_phase := ph\<rparr>))"
proof -
  obtain p d f wr where w: "w = (p, d, f, wr)" using prod_cases4 by blast
  have "app_inv (a\<lparr>aw_str := s, aw_phase := ph\<rparr>)"
    using assms(1-4) by (auto simp: app_inv_def app_ok_defs streaming_def)
  from app_inv_moved [OF this, of "put_world w (a\<lparr>aw_str := s, aw_phase := ph\<rparr>)"]
  show ?thesis using moved_kept [OF assms(5) w] by (simp add: put_world_def w)
qed

text \<open>Only the hook changes the zone of the streamer, and only a start makes it run.\<close>

lemma same_but_cache_requested: "same_but_cache s s' \<Longrightarrow> st_requested s' = st_requested s"
  unfolding same_but_cache_def by (drule arg_cong [of _ _ st_requested]) simp

lemma establish_requested:
  assumes "establish net t s w = (r, s', w')" shows "st_requested s' = st_requested s \<and> ps_running s' = ps_running s"
proof (cases r)
  case None
  then show ?thesis using assms establish_None [of net t s w s' w'] same_but_cache_requested [OF ensureConfig_same]
    by (auto simp: establish_def Let_def split: option.splits prod.splits sum.splits)
next
  case (Some e)
  then show ?thesis using assms establish_Some [of net t s w e s' w'] same_but_cache_requested same_but_cache_fields(5) by blast
qed

lemma push_channels_requested: "st_requested (push_channels chs s) = st_requested s \<and> ps_running (push_channels chs s) = ps_running s"
proof (induction chs s rule: push_channels.induct)
  case (2 ch chs s)
  then show ?case
    by (auto simp: medianFilterLocked_def Let_def split: option.splits prod.splits if_splits)
qed simp

lemma str_step_keeps:
  assumes "str_step y e y'" "\<And>ids. e \<noteq> EvRequest ids"
  shows "st_requested (sr_s y') = st_requested (sr_s y) \<and> (ps_running (sr_s y') \<longrightarrow> ps_running (sr_s y) \<or> (\<exists>t. e = EvStart t))"
  using assms
proof (induction rule: str_step.induct)
  case (str_Tick y l l' s' w')
  then show ?case
    by (auto simp: send_tick_def buildFrame_def teardown_def Let_def split: option.splits prod.splits if_splits bool.splits)
next
  case (str_Push y f)
  then show ?case using push_channels_requested by (auto simp: Push_def)
qed (auto simp: Start_def setPath_def run_turn_of_def send_rollup_def Stop_def teardown_def Let_def
    split: if_splits prod.splits option.splits dest: establish_requested)

text \<open>A step of the streamer inside the program.\<close>

lemma app_inv_str_step:
  assumes "app_inv a" "str_step (str_of wr a) e y" "\<And>ids. e \<noteq> EvRequest ids"
    and "\<And>u. e = EvStart u \<Longrightarrow> ss_streamUp (aw_stream a)"
    and "kept (cf_persist (aw_cfg a)) (cv_file (aw_clip a)) w"
  shows "app_inv (put_world w (a\<lparr>aw_str := sr_s y, aw_phase := sr_phase y\<rparr>))"
proof (rule app_inv_streamer [OF assms(1)])
  show "str_ok (sr_s y) (sr_phase y)" using str_ok_step [OF assms(2)] assms(1) by (simp add: app_inv_def stream_ok_def)
  show "ps_running (sr_s y) \<longrightarrow> ps_running (aw_str a) \<or> ss_streamUp (aw_stream a)" "st_requested (sr_s y) = st_requested (aw_str a)"
    using str_step_keeps [OF assms(2,3)] assms(4) by (auto simp: str_of_def)
qed (rule assms(5))

lemma app_inv_parts [simp]:
  "app_inv (a\<lparr>aw_controlled := cs\<rparr>) = app_inv a" "app_inv (a\<lparr>aw_live := l\<rparr>) = app_inv a"
  "app_inv (a\<lparr>aw_mon := m\<rparr>) = app_inv a" "app_inv (a\<lparr>aw_frames := f\<rparr>) = app_inv a"
  "app_inv (a\<lparr>aw_restRecv := f\<rparr>) = app_inv a" "app_inv (a\<lparr>aw_proSend := f\<rparr>) = app_inv a"
  "app_inv (a\<lparr>aw_proStats := ps\<rparr>) = app_inv a" "app_inv (a\<lparr>aw_jitter := j\<rparr>) = app_inv a"
  "app_inv (a\<lparr>aw_offs := offs\<rparr>) = app_inv a" "app_inv (a\<lparr>aw_inflight := gs\<rparr>) = app_inv a"
  by (simp_all add: app_inv_def app_ok_defs streaming_def)

lemma put_world_world [simp]: "put_world (world wr a) (a\<lparr>aw_str := s, aw_phase := ph\<rparr>) = a\<lparr>aw_str := s, aw_phase := ph\<rparr>"
  by (simp add: put_world_def world_def)

lemma put_world_world2 [simp]: "put_world (world wr a) (a\<lparr>aw_str := s\<rparr>) = a\<lparr>aw_str := s\<rparr>"
  by (simp add: put_world_def world_def)

lemma put_world_proSend: "put_world w (a\<lparr>aw_proSend := x\<rparr>) = (put_world w a)\<lparr>aw_proSend := x\<rparr>"
  by (cases a) (simp add: put_world_def split: prod.split)

lemma put_world_same [simp]:
  "aw_hook (put_world w a) = aw_hook a" "aw_str (put_world w a) = aw_str a" "aw_phase (put_world w a) = aw_phase a"
  "aw_stream (put_world w a) = aw_stream a" "aw_ses (put_world w a) = aw_ses a"
  by (auto simp: put_world_def split: prod.split)

lemma app_inv_hook:
  "app_inv a \<Longrightarrow> ps_running (aw_str a) \<longrightarrow> ss_streamUp (aw_stream a) \<Longrightarrow> app_inv (a\<lparr>aw_hook := NoHook\<rparr>)"
  by (auto simp: app_inv_def app_ok_defs streaming_def)

lemma app_inv_start:
  assumes "app_inv a" "aw_hook a = Starting" shows "app_inv ((start_stream a)\<lparr>aw_hook := NoHook\<rparr>)"
proof -
  obtain launched s where st: "Start (pro_resolver (aw_cfg a)) (aw_str a) = (launched, s)" by fastforce
  let ?y = "(str_of sure_write a)\<lparr>sr_s := s, sr_phase := (if launched then Trying initialBackoff else sr_phase (str_of sure_write a))\<rparr>"
  have up: "ss_streamUp (aw_stream a)" using assms by (auto simp: app_inv_def stream_ok_def)
  have "str_step (str_of sure_write a) (EvStart (pro_resolver (aw_cfg a))) ?y"
    by (rule str_step.str_Start) (simp add: st str_of_def)
  from app_inv_str_step [OF assms(1) this, of "world sure_write a"] up
  have "app_inv (start_stream a)" by (cases launched) (simp_all add: start_stream_def st str_of_def)
  then show ?thesis by (rule app_inv_hook) (use up in \<open>simp add: start_stream_def st\<close>)
qed

lemma app_inv_stop:
  assumes "app_inv a" shows "app_inv (stop_stream wr a) \<and> \<not> ps_running (aw_str (stop_stream wr a))"
proof -
  obtain s w where st: "Stop (wired_net (aw_net a)) (aw_str a) (world wr a) = (s, w)"
    by (cases "Stop (wired_net (aw_net a)) (aw_str a) (world wr a)")
  let ?y = "(str_of wr a)\<lparr>sr_s := s, sr_w := w, sr_phase := NoRun\<rparr>"
  have step: "str_step (str_of wr a) EvStop ?y" by (rule str_step.str_Stop) (simp add: st str_of_def)
  have "kept (cf_persist (aw_cfg a)) (cv_file (aw_clip a)) w" by (rule wired.Stop_keeps [OF st]) simp
  from app_inv_str_step [OF assms step _ _ this] have "app_inv (stop_stream wr a)" by (simp add: stop_stream_def st)
  moreover have "\<not> ps_running s" using st by (auto simp: Stop_def teardown_def Let_def)
  ultimately show ?thesis by (simp add: stop_stream_def st)
qed

lemma app_inv_turn:
  assumes "app_inv a" "streamer_turn wr a = Some a'" shows "app_inv a'"
proof -
  obtain b where b: "aw_phase a = Trying b" using assms(2) by (auto simp: streamer_turn_def split: run_phase.splits)
  obtain t b' s w where r: "run_turn_of (wired_net (aw_net a)) (pro_resolver (aw_cfg a)) b (aw_str a) (world wr a) = (t, b', s, w)"
    using prod_cases4 by blast
  let ?ph = "case t of Backoff e d \<Rightarrow> Trying b' | EnterSendLoop \<Rightarrow> InLoop send_start"
  have "str_step (str_of wr a) (EvTurn (pro_resolver (aw_cfg a))) ((str_of wr a)\<lparr>sr_s := s, sr_w := w, sr_phase := ?ph\<rparr>)"
  proof (cases t)
    case (Backoff e d)
    show ?thesis unfolding Backoff
      using str_step.str_Backoff [of "str_of wr a" b "pro_resolver (aw_cfg a)" e d b' s w] r b Backoff by (simp add: str_of_def)
  next
    case EnterSendLoop
    show ?thesis unfolding EnterSendLoop
      using str_step.str_Enter [of "str_of wr a" b "pro_resolver (aw_cfg a)" b' s w] r b EnterSendLoop by (simp add: str_of_def)
  qed
  moreover have "kept (cf_persist (aw_cfg a)) (cv_file (aw_clip a)) w" by (rule wired.run_turn_keeps [OF r]) simp
  moreover have "a' = put_world w (a\<lparr>aw_str := s, aw_phase := ?ph\<rparr>)" using assms(2) b r by (simp add: streamer_turn_def)
  ultimately show ?thesis using app_inv_str_step [OF assms(1)] by fastforce
qed

lemma app_inv_tick:
  assumes "app_inv a" "streamer_tick wr a = Some a'" shows "app_inv a'"
proof -
  obtain l where l: "aw_phase a = InLoop l" using assms(2) by (auto simp: streamer_tick_def split: run_phase.splits)
  obtain l' s w where r: "send_tick (wired_net (aw_net a)) l (aw_str a) (world wr a) = (l', s, w)" using prod_cases3 by blast
  let ?ph = "case l' of None \<Rightarrow> Trying initialBackoff | Some l'' \<Rightarrow> InLoop l''"
  have "str_step (str_of wr a) EvTick ((str_of wr a)\<lparr>sr_s := s, sr_w := w, sr_phase := ?ph\<rparr>)"
    by (rule str_step.str_Tick [where l = l]) (simp_all add: l r str_of_def)
  moreover have "kept (cf_persist (aw_cfg a)) (cv_file (aw_clip a)) w" by (rule wired.send_tick_keeps [OF r]) simp
  ultimately have "app_inv (put_world w (a\<lparr>aw_str := s, aw_phase := ?ph\<rparr>))" using app_inv_str_step [OF assms(1)] by fastforce
  moreover have "a' = (put_world w (a\<lparr>aw_str := s, aw_phase := ?ph\<rparr>))\<lparr>aw_proSend := (case l' of None \<Rightarrow> aw_proSend a
      | Some l'' \<Rightarrow> if sl_sent l'' = sl_sent l then aw_proSend a else Mark (aw_now a) (aw_proSend a))\<rparr>"
    using assms(2) l r by (simp add: streamer_tick_def put_world_proSend)
  ultimately show ?thesis by auto
qed

lemma app_inv_rollup:
  assumes "app_inv a" "streamer_rollup a = Some a'" shows "app_inv a'"
proof -
  obtain l where l: "aw_phase a = InLoop l" using assms(2) by (auto simp: streamer_rollup_def split: run_phase.splits)
  obtain st l' s where r: "send_rollup l (aw_str a) = (st, l', s)" using prod_cases3 by blast
  have "str_step (str_of sure_write a) EvSendRollup ((str_of sure_write a)\<lparr>sr_s := s, sr_phase := InLoop l'\<rparr>)"
    by (rule str_step.str_Rollup [where l = l and stats = st]) (simp_all add: l r str_of_def)
  from app_inv_str_step [OF assms(1) this, of "world sure_write a"]
  have "app_inv (a\<lparr>aw_str := s, aw_phase := InLoop l'\<rparr>)" by simp
  moreover have "\<exists>x. a' = a\<lparr>aw_str := s, aw_phase := InLoop l', aw_jitter := x\<rparr>"
    using assms(2) l r by (auto simp: streamer_rollup_def split: prod.splits)
  ultimately show ?thesis by auto
qed

text \<open>The sessions: the stream is up exactly while one of them streams.\<close>

lemma ses_streaming:
  assumes "ses_inv y" "ses_next y ev = Some y'"
  shows "(\<exists>i. ses_phase y' i = Streaming) \<longleftrightarrow>
    (case ev of StreamStart i \<Rightarrow> True | StreamStop i \<Rightarrow> False | _ \<Rightarrow> (\<exists>i. ses_phase y i = Streaming))"
proof -
  have one: "ses_phase y i = Streaming \<Longrightarrow> ses_phase y k = Streaming \<Longrightarrow> i = k" for i k
    using assms(1) unfolding ses_inv_def by (metis option.inject)
  have "ses_phase y' i = Streaming \<longleftrightarrow> (case ev of StreamStart j \<Rightarrow> i = j \<or> ses_phase y i = Streaming
      | StreamStop j \<Rightarrow> i \<noteq> j \<and> ses_phase y i = Streaming | _ \<Rightarrow> ses_phase y i = Streaming)" for i
    using assms(2) by (cases ev) (auto split: if_splits ses_phase.splits option.splits)
  moreover have "ses_phase y j = Streaming" if "ev = StreamStop j" for j using assms(2) that by (simp split: if_splits)
  ultimately show ?thesis using one by (cases ev) auto
qed

lemma app_inv_session:
  assumes "app_inv a" "session_step ev a = Some a'" shows "app_inv a'"
proof -
  obtain y where y: "ses_next (aw_ses a) ev = Some y" using assms(2) by (auto simp: session_step_def split: option.splits)
  have inv: "ses_inv (aw_ses a)" using assms(1) by (simp add: app_inv_def stream_ok_def)
  have yi: "ses_inv y" using ses_inv_step [OF inv] y by (simp add: ses_step_def)
  note str = ses_streaming [OF inv y]
  have same: "app_inv (a\<lparr>aw_ses := y\<rparr>)" if "(\<exists>i. ses_phase y i = Streaming) = (\<exists>i. ses_phase (aw_ses a) i = Streaming)"
  proof -
    have "streaming (a\<lparr>aw_ses := y\<rparr>) = streaming a" using that by (simp add: streaming_def)
    then show ?thesis using assms(1) yi by (auto simp: app_inv_def app_ok_defs)
  qed
  show ?thesis
  proof (cases ev)
    case (StreamStart i)
    then have a': "a' = a\<lparr>aw_ses := y, aw_clip := MarkDTLSStreamUp (aw_clip a), aw_hook := Starting\<rparr>" "aw_hook a = NoHook"
      using assms(2) y by (auto simp: session_step_def Let_def split: if_splits)
    show ?thesis using assms(1) str yi unfolding a'(1)
      by (auto simp: app_inv_def app_ok_defs streaming_def StreamStart MarkDTLSStreamUp_def markStreamUp_def LastActivity_def
          Let_def split: option.split)
  next
    case (StreamStop i)
    then have a': "a' = a\<lparr>aw_ses := y, aw_clip := MarkDTLSStreamDown (aw_clip a), aw_hook := Stopping\<rparr>" "aw_hook a = NoHook"
      using assms(2) y by (auto simp: session_step_def Let_def split: if_splits)
    show ?thesis using assms(1) str yi unfolding a'(1)
      by (auto simp: app_inv_def app_ok_defs streaming_def StreamStop MarkDTLSStreamDown_def markStreamDown_def LastActivity_def)
  qed (use assms str y yi same in \<open>auto simp: session_step_def Let_def split: if_splits\<close>)
qed

lemma moved_calls: "moved now c (forward_calls cs c) \<and> cv_reqMembers (forward_calls cs c) = cv_reqMembers c"
proof (induction cs rule: rev_induct)
  case (snoc x cs)
  have e: "forward_calls (cs @ [x]) c = ForwardLight (fst x) (snd x) (forward_calls cs c)"
    by (simp add: forward_calls_def split: prod.split)
  show ?case using snoc moved_trans [OF _ moved_forward] ForwardLight_same [of "forward_calls cs c" "fst x" "snd x"]
    by (simp add: e same_but_lights_def)
qed (simp add: forward_calls_def)

lemma app_inv_frame: assumes "app_inv a" shows "app_inv (receive_frame f a)"
proof -
  obtain out s where p: "Push f (aw_str a) = (out, s)" by fastforce
  show ?thesis
  proof (cases out)
    case (OnColorStates m)
    have "str_step (str_of sure_write a) (EvPush f) ((str_of sure_write a)\<lparr>sr_s := s\<rparr>)"
      using str_step.str_Push [of "str_of sure_write a" f] by (simp add: str_of_def p)
    from app_inv_str_step [OF assms this, of "world sure_write a"] have "app_inv (a\<lparr>aw_str := s\<rparr>)" by (simp add: str_of_def)
    then show ?thesis by (simp add: receive_frame_def p OnColorStates)
  next
    case (FallbackCalls cs)
    then have s: "s = aw_str a" using p by (auto simp: Push_def split: if_splits)
    show ?thesis using app_inv_moved [OF assms, of "a\<lparr>aw_clip := forward_calls cs (aw_clip a)\<rparr>"] moved_calls
      by (simp add: receive_frame_def p FallbackCalls s)
  qed
qed

text \<open>The wizard commits once, and the program saves exactly then.\<close>

lemma recompute_commits:
  "(su_committed s \<longrightarrow> su_committed (recompute sg s) \<and> su_commits (recompute sg s) = su_commits s)
   \<and> (\<not> su_committed s \<longrightarrow> su_commits (recompute sg s) = su_commits s + (if su_committed (recompute sg s) then 1 else 0))"
proof (induction sg s rule: recompute.induct)
  case (1 sg s)
  obtain s1 n where n: "next_step sg s = (s1, n)" by fastforce
  have k: "su_committed s1 = su_committed s" "su_commits s1 = su_commits s"
    using n by (auto simp: next_step_def Let_def split: if_splits)
  show ?case
  proof (cases "su_step s < stepDone \<and> n \<noteq> su_step s \<and> n \<noteq> stepDone")
    case True
    then show ?thesis using 1 [OF _ n [symmetric]] n k by (subst (1 2 3 4) recompute.simps) simp
  next
    case False
    then show ?thesis using n k by (subst (1 2 3 4) recompute.simps) (auto simp: doCommit_def)
  qed
qed

lemma setup_commits:
  "su_committed (setup_next s e) = (su_committed s \<or> su_commits (setup_next s e) \<noteq> su_commits s)"
proof -
  note r = recompute_commits
  show ?thesis
  proof (cases e)
    case (SReachable sg b)
    then show ?thesis using r [of "(if b then s\<lparr>su_everReachable := True\<rparr> else s)\<lparr>su_proReachable := b\<rparr>" sg]
      by (auto simp: setReachable_def Let_def split: if_splits)
  next
    case (SDescriptor sg)
    then show ?thesis using r [of "s\<lparr>su_tvDescriptorSeen := True\<rparr>" sg]
      by (auto simp: markTVDescriptorSeen_def split: if_splits)
  next
    case (SRecompute sg)
    then show ?thesis using r [of s sg] by (auto simp: recomputeNow_def split: if_splits)
  qed (simp add: setPrecond_def)
qed

lemma app_inv_setup: assumes "app_inv a" shows "app_inv (run_setup wr ev a)"
proof -
  define e where "e = ev (signals_of a)"
  define s' where "s' = setup_next (aw_setup a) e"
  define a1 where "a1 = (if asks_active e (aw_setup a) s' then a\<lparr>aw_live := snd (DrivenV1IDs (aw_now a) (aw_live a))\<rparr> else a)"
  have r: "run_setup wr ev a = (if su_commits s' = su_commits (aw_setup a) then a1\<lparr>aw_setup := s'\<rparr>
      else (case Commit wr (aw_cfg a1) (cv_file (aw_clip a1)) of (err, c, f) \<Rightarrow>
        a1\<lparr>aw_setup := s', aw_clip := (aw_clip a1)\<lparr>cv_cfg := c, cv_file := f\<rparr>\<rparr>))"
    unfolding run_setup_def Let_def e_def [symmetric] s'_def [symmetric] a1_def [symmetric] by simp
  have i1: "app_inv a1" using assms by (simp add: a1_def)
  have s1: "aw_setup a1 = aw_setup a" by (simp add: a1_def)
  have si: "setup_inv s'" using setup_inv_step [of "aw_setup a" e s'] assms
    by (simp add: app_inv_def commit_ok_def setup_step_def s'_def)
  have c: "su_committed s' = (su_committed (aw_setup a) \<or> su_commits s' \<noteq> su_commits (aw_setup a))"
    unfolding s'_def by (rule setup_commits)
  show ?thesis
  proof (cases "su_commits s' = su_commits (aw_setup a)")
    case True
    then show ?thesis using i1 s1 si c by (auto simp: r app_inv_def app_ok_defs streaming_def)
  next
    case False
    obtain err d f where cm: "Commit wr (aw_cfg a1) (cv_file (aw_clip a1)) = (err, d, f)" using prod_cases3 by blast
    have "cf_persist d" using saving_persist [OF cm [unfolded Commit_def]] by simp
    then show ?thesis using i1 s1 si c False cm by (auto simp: r app_inv_def app_ok_defs streaming_def LastActivity_def)
  qed
qed

text \<open>A request with its hooks.\<close>

lemma foldl_requested:
  "[] \<notin> set new \<Longrightarrow> foldl (\<lambda>s ids. SetRequestedMembers ids s) s new
     = (if new = [] then s else s\<lparr>st_requested := Some (set_of_ids (last new))\<rparr>)"
  by (induction new rule: rev_induct) (auto simp: SetRequestedMembers_def)

lemma app_inv_request:
  assumes "app_inv a" "en_now e = aw_now a" shows "app_inv (tv_request_step rq e a)"
proof -
  define c' where "c' = snd (serve rq e (aw_clip a))"
  define s' where "s' = (if sv_entertainmentMode (aw_sc a) then foldl (\<lambda>s ids. SetRequestedMembers ids s) (aw_str a)
      (drop (length (cv_pushed (aw_clip a))) (cv_pushed c')) else aw_str a)"
  have m: "moved (aw_now a) (aw_clip a) c'" using moved_serve [of e "aw_clip a" rq] assms(2) by (simp add: c'_def)
  then obtain new where new: "cv_pushed c' = cv_pushed (aw_clip a) @ new" "[] \<notin> set new"
      "cv_reqMembers c' = (if new = [] then cv_reqMembers (aw_clip a) else Some (set_of_ids (last new)))"
    by (auto simp: moved_def)
  have s': "s' = (if sv_entertainmentMode (aw_sc a) \<and> new \<noteq> [] then (aw_str a)\<lparr>st_requested := Some (set_of_ids (last new))\<rparr> else aw_str a)"
    using foldl_requested [OF new(2)] by (simp add: s'_def new(1))
  let ?b = "a\<lparr>aw_clip := c', aw_str := s'\<rparr>"
  have "str_ok s' (aw_phase a) = str_ok (aw_str a) (aw_phase a)" "ps_running s' = ps_running (aw_str a)"
    by (simp_all add: s' str_ok_def conn_ok_def split: run_phase.split)
  moreover have "streaming ?b = streaming a" by (simp add: streaming_def)
  ultimately have "stream_ok ?b" using assms(1) m by (auto simp: app_inv_def stream_ok_def moved_def)
  moreover have "zone_ok ?b" using assms(1) m new(3) unfolding s' by (auto simp: app_inv_def zone_ok_def moved_def)
  moreover have "commit_ok ?b" using assms(1) m by (auto simp: app_inv_def commit_ok_def moved_def)
  moreover have "time_ok ?b" using assms(1) m by (auto simp: app_inv_def time_ok_def moved_def)
  ultimately have "app_inv ?b" by (simp add: app_inv_def)
  moreover have "\<exists>r. tv_request_step rq e a = (let a3 = ?b\<lparr>aw_restRecv := r\<rparr>;
      a4 = (if cv_fetches c' = cv_fetches (aw_clip a) then a3 else run_setup (en_write e) SDescriptor a3)
      in if cv_paired c' = cv_paired (aw_clip a) then a4 else run_setup (en_write e) SRecompute a4)"
    by (rule exI [of _ "(Mark (aw_now a) ^^ (cv_restCalls c' - cv_restCalls (aw_clip a))) (aw_restRecv a)"])
      (simp add: tv_request_step_def Let_def c'_def [symmetric] s'_def)
  ultimately show ?thesis by (auto simp: Let_def app_inv_setup)
qed

text \<open>The remaining events.\<close>

lemma moved_flush: "moved now c (snd (flushActivity window controlled rounded now' c))"
proof -
  have "moved now c (c\<lparr>cv_activity := snd (snapshotAndReset (cv_activity c))\<rparr>)"
    by (rule moved_activity) (simp add: snapshotAndReset_def lastActivity_def LastActivity_def)
  from moved_trans [OF this moved_updates(1)] this show ?thesis
    by (auto simp: flushActivity_def Let_def split: prod.splits option.splits)
qed

lemma flush_members: "cv_reqMembers (snd (flushActivity window controlled rounded now c)) = cv_reqMembers c"
  by (auto simp: flushActivity_def Let_def split: prod.splits option.splits)

lemma app_inv_callback: "app_inv a \<Longrightarrow> app_inv (a\<lparr>aw_clip := (aw_clip a)\<lparr>cv_stream := watchdogFired g now (aw_stream a)\<rparr>\<rparr>)"
  by (auto simp: app_inv_def app_ok_defs streaming_def watchdogFired_def LastActivity_def)

lemma app_inv_wizard:
  assumes "app_inv a" "setup_inv s" "su_committed s = su_committed (aw_setup a)" shows "app_inv (a\<lparr>aw_setup := s\<rparr>)"
proof -
  have "stream_ok (a\<lparr>aw_setup := s\<rparr>) = stream_ok a" "zone_ok (a\<lparr>aw_setup := s\<rparr>) = zone_ok a"
    "time_ok (a\<lparr>aw_setup := s\<rparr>) = time_ok a" by (simp_all add: stream_ok_def zone_ok_def time_ok_def streaming_def)
  then show ?thesis using assms by (auto simp: app_inv_def commit_ok_def)
qed

lemma app_inv_clip:
  "app_inv a \<Longrightarrow> moved (aw_now a) (aw_clip a) c \<Longrightarrow> cv_reqMembers c = cv_reqMembers (aw_clip a) \<Longrightarrow> app_inv (a\<lparr>aw_clip := c\<rparr>)"
  by (rule app_inv_moved) simp_all

lemma app_inv_step:
  assumes inv: "app_inv a" and step: "app_step a e a'" shows "app_inv a'"
proof -
  have st: "app_next a e = Some a'" using step by (simp add: app_step_def)
  show ?thesis
  proof (cases e)
    case (AElapse d)
    then show ?thesis using st by (auto intro: app_inv_moved [OF inv] split: if_splits)
  next
    case ATimer
    then obtain t where "a' = a\<lparr>aw_clip := (aw_clip a)\<lparr>cv_stream := (aw_stream a)\<lparr>ss_watchdog := Some t\<rparr>\<rparr>, aw_inflight := aw_inflight a'\<rparr>"
      using st by (auto split: option.splits if_splits)
    moreover have "app_inv (a\<lparr>aw_clip := (aw_clip a)\<lparr>cv_stream := (aw_stream a)\<lparr>ss_watchdog := Some t\<rparr>\<rparr>\<rparr>)"
      by (rule app_inv_clip [OF inv moved_stream]) simp_all
    ultimately show ?thesis by (metis app_inv_parts(10))
  next
    case (ACallback g)
    then show ?thesis using st app_inv_callback [OF inv] by (auto split: if_splits)
  next
    case (AHook wr)
    show ?thesis
    proof (cases "aw_hook a")
      case Stopping
      then show ?thesis using st AHook app_inv_stop [OF inv] app_inv_hook by fastforce
    qed (use st AHook app_inv_start [OF inv] in auto)
  next
    case ADatagram
    have "app_inv (a\<lparr>aw_clip := MarkActivity (aw_now a) (aw_clip a)\<rparr>)"
      by (rule app_inv_clip [OF inv]) (simp_all add: MarkActivity_def moved_activity markActivity_def lastActivity_def)
    then show ?thesis using st ADatagram by (auto split: if_splits)
  next
    case (ASetPro wr p)
    obtain err c f where s: "SetPro wr p (aw_cfg a) (cv_file (aw_clip a)) = (err, c, f)" using prod_cases3 by blast
    have "moved (aw_now a) (aw_clip a) ((aw_clip a)\<lparr>cv_cfg := c, cv_file := f\<rparr>)"
      by (rule moved_config) (use saving_persist [OF s [unfolded SetPro_def]] in auto)
    then show ?thesis using st ASetPro s app_inv_clip [OF inv] by auto
  next
    case (APrecond ok h p m)
    have "setup_inv (aw_setup a)" using inv by (simp add: app_inv_def commit_ok_def)
    then show ?thesis using st APrecond app_inv_wizard [OF inv, of "setPrecond ok h p m (aw_setup a)"]
      by (simp add: setPrecond_def setup_inv_def)
  next
    case (ARollup rounded)
    have "app_inv (a\<lparr>aw_clip := snd (flushActivity w c rounded (aw_now a) (aw_clip a))\<rparr>)" for w c
      by (rule app_inv_clip [OF inv moved_flush flush_members])
    moreover have "\<exists>c cs. a' = a\<lparr>aw_clip := snd (flushActivity (sv_activityWindow (aw_sc a)) c rounded (aw_now a) (aw_clip a)), aw_controlled := cs\<rparr>"
      using st by (simp add: ARollup activity_rollup_def case_prod_unfold Let_def) blast
    ultimately show ?thesis by auto
  next
    case AFence
    have "moved (aw_now a) (aw_clip a) (snd (CloseLightWrites (aw_clip a)))"
      using moved_trans [OF moved_updates(5) moved_updates(1)] moved_updates(5)
      by (auto simp: CloseLightWrites_def Let_def split: option.splits prod.splits)
    moreover have "cv_reqMembers (snd (CloseLightWrites (aw_clip a))) = cv_reqMembers (aw_clip a)"
      by (auto simp: CloseLightWrites_def Let_def split: option.splits prod.splits)
    ultimately show ?thesis using st AFence app_inv_clip [OF inv] by auto
  next
    case AIdle
    then show ?thesis using st inv by (auto simp: idle_round_def split: if_splits prod.splits)
  qed (use st inv in \<open>auto simp: SetLightProvider_def split: if_splits
      intro: app_inv_request app_inv_session app_inv_frame app_inv_turn app_inv_tick app_inv_rollup app_inv_setup
        app_inv_clip dest: app_inv_stop\<close>)
qed

end
