(* ===== verification/WiringProps.thy ===== *)
theory WiringProps
  imports Wiring
begin

text \<open>
  What the wired program guarantees across its components: one zone for both ways of driving the
  lights, one view of whether the TV streams, a configuration that reaches the disk only when the
  wizard is through, and lights that are not turned off under a running stream.
\<close>

section \<open>The invariant holds in every run\<close>

lemma Load_persist: "Load path file mac rnd = Inr c \<Longrightarrow> cf_persist c \<or> file = FileAbsent"
  by (auto simp: Load_def split: file_state.splits option.splits if_splits)

lemma serve_clip_fields:
  "cv_cfg (serve_clip opts sc cfg file ip now) = cfg" "cv_file (serve_clip opts sc cfg file ip now) = file"
  "cv_EntertainmentMode (serve_clip opts sc cfg file ip now) = sv_entertainmentMode sc"
  "cv_reqMembers (serve_clip opts sc cfg file ip now) = None"
  "ss_streamUp (cv_stream (serve_clip opts sc cfg file ip now)) = False"
  "ss_fallback (cv_stream (serve_clip opts sc cfg file ip now)) = False"
  "LastActivity (serve_clip opts sc cfg file ip now) = None"
  by (simp_all add: serve_clip_def Let_def SetLightProvider_def SetDTLSFallbackRecovery_def SetDTLSFallbackTimeout_def New_def
      setRecoveryCooldown_def setFallbackTimeout_def newStreamState_def LastActivity_def lastActivity_def newActivityTracker_def
      split: option.split)

lemma app_inv_wire:
  assumes "Load path file mac rnd = Inr cfg" shows "app_inv (wire opts sc cfg file ip now net p)"
proof -
  let ?a = "wire opts sc cfg file ip now net p"
  have w: "aw_clip ?a = serve_clip opts sc cfg file ip now" "aw_sc ?a = sc" "aw_ses ?a = ses_start" "aw_hook ?a = NoHook"
    "aw_phase ?a = NoRun" "aw_setup ?a = newSetupStatus (Committed cfg)" "st_requested (aw_str ?a) = None"
    "ps_running (aw_str ?a) = False" "conn_ok (aw_str ?a)" "st_conn (aw_str ?a) = None"
    by (simp_all add: wire_def SetMedianFilter_def SetSmoothTau_def NewProStreamer_def conn_ok_def)
  have "\<not> streaming ?a" by (simp add: streaming_def w ses_start_def)
  then have "stream_ok ?a" by (simp add: stream_ok_def w serve_clip_fields ses_inv_start str_ok_def)
  moreover have "zone_ok ?a" by (simp add: zone_ok_def w serve_clip_fields)
  moreover have "commit_ok ?a" using Load_persist [OF assms]
    by (auto simp: commit_ok_def w serve_clip_fields setup_inv_def newSetupStatus_def Committed_def step_defs Let_def)
  moreover have "time_ok ?a" by (simp add: time_ok_def w serve_clip_fields)
  ultimately show ?thesis by (simp add: app_inv_def)
qed

lemma app_inv_init: "app_init a \<Longrightarrow> app_inv a"
  using app_inv_wire by (auto simp: app_init_def)

interpretation app: invariant_system app_init app_step app_inv
  by unfold_locales (auto intro: app_inv_init app_inv_step)

text \<open>
  C4: the two views of the stream agree.  In every run of the wired program, the server takes the TV's
  stream as up exactly while a session of the receiver streams, and is then not in fallback; a
  connection to the Pro is open only then, or while the stop of that session is on its way; and
  when nothing streams and no callback is under way, the streamer is stopped and on the REST path.
\<close>

theorem stream_views_agree:
  assumes "app_init a0" "run app_step a0 es a"
  shows "(isUp (aw_stream a) \<longleftrightarrow> (\<exists>i. ses_phase (aw_ses a) i = Streaming))
    \<and> (isUp (aw_stream a) \<longrightarrow> \<not> InFallback (aw_clip a))
    \<and> (st_conn (aw_str a) \<noteq> None \<longrightarrow> isUp (aw_stream a) \<or> aw_hook a = Stopping)
    \<and> (\<not> isUp (aw_stream a) \<and> aw_hook a = NoHook \<longrightarrow> aw_phase a = NoRun \<and> Path (aw_str a) \<noteq> ''dtls'')"
proof -
  have ok: "stream_ok a" using app.reachable_inv assms by (auto simp: app_inv_def)
  then have s: "str_ok (aw_str a) (aw_phase a)" by (simp add: stream_ok_def)
  have conn: "st_conn (aw_str a) \<noteq> None \<longrightarrow> ps_running (aw_str a)" "\<not> ps_running (aw_str a) \<longrightarrow> aw_phase a = NoRun"
      "st_conn (aw_str a) = None \<longrightarrow> Path (aw_str a) \<noteq> ''dtls''"
    using s by (auto simp: str_ok_def conn_ok_def Path_def split: run_phase.splits)
  show ?thesis using ok conn by (auto simp: stream_ok_def streaming_def isUp_def InFallback_def inFallback_def)
qed

section \<open>One zone\<close>

lemma aw_lights_setup: "cv_lights (aw_clip (run_setup wr ev a)) = cv_lights (aw_clip a)"
  by (auto simp: run_setup_def Let_def split: prod.split)

lemma write_queue_lights: "cv_lights c = cv_lights d \<Longrightarrow> write_queue c = write_queue d"
  by (simp add: write_queue_def)

lemma aw_lights_put [simp]: "cv_lights (aw_clip (put_world w a)) = cv_lights (aw_clip a)"
  by (auto simp: put_world_def split: prod.split)

lemma request_lights: "cv_lights (aw_clip (tv_request_step rq e a)) = cv_lights (snd (serve rq e (aw_clip a)))"
  by (simp add: tv_request_step_def Let_def aw_lights_setup)

lemma calls_queue:
  "mget (write_queue (forward_calls cs c)) v \<noteq> mget (write_queue c) v \<Longrightarrow> v \<in> fst ` set cs"
proof (induction cs rule: rev_induct)
  case (snoc x cs)
  have e: "forward_calls (cs @ [x]) c = ForwardLight (fst x) (snd x) (forward_calls cs c)"
    by (simp add: forward_calls_def split: prod.split)
  show ?case using snoc ForwardLight_queue [of v "fst x" "snd x" "forward_calls cs c"] by (cases "v = fst x") (auto simp: e)
qed (simp add: forward_calls_def)

lemma frame_queue:
  assumes "zone_ok a" "sv_entertainmentMode (aw_sc a)"
    and "mget (write_queue (aw_clip (receive_frame f a))) v \<noteq> mget (write_queue (aw_clip a)) v"
  shows "\<exists>w. Atoi v = Some (uint (w :: u16)) \<and> AllowsMember (aw_clip a) w"
proof -
  obtain cs where p: "Push f (aw_str a) = (FallbackCalls cs, aw_str a)" "receive_frame f a = a\<lparr>aw_clip := forward_calls cs (aw_clip a)\<rparr>"
    using assms(3) by (auto simp: receive_frame_def Push_def split: if_splits)
  then have "v \<in> fst ` set cs" using calls_queue assms(3) by fastforce
  then obtain ch :: Channel where "v = v1_id (ch_ID ch)" "in_subset (st_requested (aw_str a)) (ch_ID ch)"
    using p(1) by (auto simp: Push_def split: if_splits)
  then show ?thesis using assms(1,2) by (intro exI [of _ "ch_ID ch"]) (auto simp: zone_ok_def in_subset_def AllowsMember_def v1_id_def)
qed

text \<open>Nothing but a request and a frame queues a light write.\<close>

lemma queue_step:
  assumes "app_step a e a'" "\<And>rq env. e \<noteq> ARequest rq env" "\<And>f. e \<noteq> AFrame f"
    and "mget (write_queue (aw_clip a')) v = Some st"
  shows "mget (write_queue (aw_clip a)) v = Some st"
proof -
  have st: "app_next a e = Some a'" using assms(1) by (simp add: app_step_def)
  have same: ?thesis if "cv_lights (aw_clip a') = cv_lights (aw_clip a)" using assms(4) write_queue_lights [OF that] by simp
  show ?thesis
  proof (cases e)
    case (ASession ev)
    then have "cv_lights (aw_clip a') = cv_lights (aw_clip a)" using st
      by (auto simp: session_step_def MarkDTLSStreamUp_def MarkDTLSStreamDown_def Let_def split: if_splits option.splits ses_event.splits)
    then show ?thesis by (rule same)
  next
    case (ATurn wr)
    then show ?thesis using st by (intro same) (auto simp: streamer_turn_def split: run_phase.splits prod.splits)
  next
    case (ASendTick wr)
    then show ?thesis using st by (intro same) (auto simp: streamer_tick_def split: run_phase.splits prod.splits)
  next
    case ASendRollup
    then show ?thesis using st by (intro same) (auto simp: streamer_rollup_def split: run_phase.splits prod.splits)
  next
    case (AHook wr)
    then show ?thesis using st
      by (intro same) (auto simp: start_stream_def stop_stream_def split: hook.splits prod.splits)
  next
    case (AShutdown wr)
    then show ?thesis using st by (intro same) (auto simp: stop_stream_def split: if_splits prod.splits)
  next
    case (APublish r)
    then have "quiet (aw_clip a) (aw_clip a')" using st by (cases "cv_lights (aw_clip a)") (auto simp: quiet_def)
    then show ?thesis using quiet_queue assms(4) by simp
  next
    case AInstall
    then show ?thesis using st assms(4)
      by (auto simp: SetLightProvider_def write_queue_def NewLightProvider_def provider_Close_def split: if_splits)
  next
    case ATake
    then show ?thesis using st assms(4) by (auto simp: write_queue_def drain_take_def split: option.splits if_splits)
  next
    case (ARollup rounded)
    then show ?thesis using st assms(4)
      by (auto simp: activity_rollup_def flushActivity_def write_queue_def DrainStatsDelta_def Let_def
          split: prod.splits option.splits if_splits)
  next
    case AFence
    then show ?thesis using st assms(4)
      by (auto simp: CloseLightWrites_def write_queue_def provider_Close_def Let_def split: option.splits prod.splits)
  qed (use st assms(2,3) same in \<open>auto simp: MarkActivity_def idle_round_def aw_lights_setup split: if_splits option.splits prod.splits\<close>)
qed

lemma turn_remap:
  assumes "streamer_turn wr a = Some a'" "aw_phase a' = InLoop l" "mget (st_remap (aw_str a')) v1 = Some ch"
  shows "in_subset (st_requested (aw_str a)) v1"
proof -
  obtain b where b: "aw_phase a = Trying b" using assms(1) by (auto simp: streamer_turn_def split: run_phase.splits)
  obtain t b' s w where r: "run_turn_of (wired_net (aw_net a)) (pro_resolver (aw_cfg a)) b (aw_str a) (world wr a) = (t, b', s, w)"
    using prod_cases4 by blast
  then have s: "aw_str a' = s" "t = EnterSendLoop" using assms(1,2) b by (auto simp: streamer_turn_def split: run_turn.splits)
  then have "establish (wired_net (aw_net a)) (pro_resolver (aw_cfg a)) (aw_str a) (world wr a) = (None, s, w)"
    using r by (auto simp: run_turn_of_def split: prod.splits option.splits)
  then obtain pro i remap re n s1 w1 where e: "ensureConfig (wired_net (aw_net a)) pro (aw_str a) (world wr a) = (Inr (i, remap, re, n), s1, w1)"
      and m: "st_remap s = remap"
    by (auto simp: establish_def Let_def split: option.splits prod.splits sum.splits)
  show ?thesis using ensureConfig_zone [OF e] assms(3) s m by blast
qed


section \<open>Saving and idling\<close>

text \<open>
  C12: nothing reaches the disk before the installation is through.  Whatever the TV, the watcher, the background
  pairing and the streamer store meanwhile, the configuration file does not exist until the wizard
  has completed its last step, and from then on the configuration is committed.
\<close>

theorem saved_when_set_up:
  assumes "app_init a0" "run app_step a0 es a"
  shows "(Committed (aw_cfg a) \<longleftrightarrow> CurrentStep (aw_setup a) = stepDone)
    \<and> (CurrentStep (aw_setup a) \<noteq> stepDone \<longrightarrow> cv_file (aw_clip a) = FileAbsent)"
proof -
  have "commit_ok a" using app.reachable_inv assms by (auto simp: app_inv_def)
  then show ?thesis by (auto simp: commit_ok_def Committed_def CurrentStep_def setup_inv_def step_defs)
qed

text \<open>Time passes by \<open>AElapse\<close> only, and activity is only ever recorded at the current time.\<close>

fun elapsed :: "app_event list \<Rightarrow> int" where
  "elapsed [] = 0"
| "elapsed (AElapse d # es) = d + elapsed es"
| "elapsed (_ # es) = elapsed es"

lemma elapsed_append [simp]: "elapsed (es @ fs) = elapsed es + elapsed fs"
  by (induction es rule: elapsed.induct) simp_all

definition act_ok :: "'p app \<Rightarrow> 'p app \<Rightarrow> bool" where
  "act_ok a a' \<longleftrightarrow> LastActivity (aw_clip a') \<in> {LastActivity (aw_clip a), Some (aw_now a)} \<and> aw_now a' = aw_now a"

lemma act_ok_moved: "moved (aw_now a) (aw_clip a) (aw_clip a') \<Longrightarrow> aw_now a' = aw_now a \<Longrightarrow> act_ok a a'"
  by (simp add: act_ok_def moved_def)

lemma act_ok_same: "cv_activity (aw_clip a') = cv_activity (aw_clip a) \<Longrightarrow> aw_now a' = aw_now a \<Longrightarrow> act_ok a a'"
  by (simp add: act_ok_def LastActivity_def)

lemma put_world_act [simp]: "cv_activity (aw_clip (put_world w a)) = cv_activity (aw_clip a)" "aw_now (put_world w a) = aw_now a"
  by (auto simp: put_world_def split: prod.split)

lemma run_setup_act [simp]: "cv_activity (aw_clip (run_setup wr ev a)) = cv_activity (aw_clip a)" "aw_now (run_setup wr ev a) = aw_now a"
  by (auto simp: run_setup_def Let_def split: prod.split)

lemma request_act:
  "cv_activity (aw_clip (tv_request_step rq e a)) = cv_activity (snd (serve rq e (aw_clip a)))" "aw_now (tv_request_step rq e a) = aw_now a"
  by (simp_all add: tv_request_step_def Let_def)

lemma app_step_act:
  assumes "app_step a e a'" "\<And>d. e \<noteq> AElapse d" shows "act_ok a a'"
proof -
  have st: "app_next a e = Some a'" using assms(1) by (simp add: app_step_def)
  show ?thesis
  proof (cases e)
    case (ARequest rq env)
    then have "a' = tv_request_step rq env a" "en_now env = aw_now a" using st by (auto split: if_splits)
    then show ?thesis using moved_serve [of env "aw_clip a" rq] by (simp add: act_ok_def request_act moved_def LastActivity_def)
  next
    case (AFrame f)
    then have "a' = receive_frame f a" using st by (auto split: if_splits)
    then show ?thesis using moved_calls [of "aw_now a" "aw_clip a"]
      by (auto simp: receive_frame_def split: push_out.splits prod.splits intro: act_ok_same act_ok_moved)
  next
    case (ASession ev)
    then show ?thesis using st
      by (intro act_ok_same) (auto simp: session_step_def MarkDTLSStreamUp_def MarkDTLSStreamDown_def Let_def
          split: if_splits option.splits ses_event.splits)
  next
    case (AHook wr)
    then show ?thesis using st by (intro act_ok_same) (auto simp: start_stream_def stop_stream_def split: hook.splits prod.splits)
  next
    case (ATurn wr)
    then show ?thesis using st by (intro act_ok_same) (auto simp: streamer_turn_def split: run_phase.splits prod.splits)
  next
    case (ASendTick wr)
    then show ?thesis using st by (intro act_ok_same) (auto simp: streamer_tick_def split: run_phase.splits prod.splits)
  next
    case ASendRollup
    then show ?thesis using st by (intro act_ok_same) (auto simp: streamer_rollup_def split: run_phase.splits prod.splits)
  next
    case (AShutdown wr)
    then show ?thesis using st by (intro act_ok_same) (auto simp: stop_stream_def split: if_splits prod.splits)
  next
    case (ARollup rounded)
    have "aw_now a' = aw_now a" "aw_clip a' = snd (flushActivity (sv_activityWindow (aw_sc a))
        (Some (fst (Current (aw_now a) (aw_controlled a)))) rounded (aw_now a) (aw_clip a))"
      using st ARollup by (auto simp: activity_rollup_def case_prod_unfold Let_def)
    then show ?thesis using moved_flush by (auto intro: act_ok_moved)
  next
    case ADatagram
    then show ?thesis using st
      by (auto simp: act_ok_def MarkActivity_def LastActivity_def markActivity_def lastActivity_def split: if_splits)
  next
    case AFence
    then show ?thesis using st
      by (intro act_ok_same) (auto simp: CloseLightWrites_def Let_def split: option.splits prod.splits)
  qed (use st assms(2) in \<open>auto simp: SetLightProvider_def idle_round_def intro!: act_ok_same split: if_splits option.splits prod.splits\<close>)
qed

lemma run_activity:
  assumes "run app_step b es a" "LastActivity (aw_clip b) = Some (aw_now b)"
  shows "aw_now a = aw_now b + elapsed es \<and> 0 \<le> elapsed es \<and> (\<exists>t. LastActivity (aw_clip a) = Some t \<and> aw_now b \<le> t)"
  using assms
proof (induction rule: run.induct)
  case (run_snoc b es a e a')
  then have IH: "aw_now a = aw_now b + elapsed es" "0 \<le> elapsed es" "\<exists>t. LastActivity (aw_clip a) = Some t \<and> aw_now b \<le> t" by auto
  show ?case
  proof (cases "\<exists>d. e = AElapse d")
    case True
    then show ?thesis using IH run_snoc.hyps(2) by (auto simp: app_step_def split: if_splits)
  next
    case False
    then have "act_ok a a'" using app_step_act run_snoc.hyps(2) by blast
    moreover have "elapsed [e] = 0" using False by (cases e) auto
    ultimately show ?thesis using IH by (auto simp: act_ok_def)
  qed
qed simp

text \<open>
  C17: the lights are not turned off under a running stream.  A frame of the TV counts as activity: while
  less than the idle timeout has passed since the last one the receiver decoded, whatever else happens, a round
  of the idle monitor turns nothing off.
\<close>

theorem no_idle_off_mid_stream:
  assumes "run app_step a0 (es @ ADatagram # es') a" "app_step a AIdle a'"
    and "elapsed es' < idle_timeout (aw_sc a) (aw_clip a)"
  shows "aw_offs a' = aw_offs a"
proof -
  obtain b0 where b0: "run app_step b0 (ADatagram # es') a" using assms(1) by (rule run_append_cases)
  obtain b where b: "app_step b0 ADatagram b" "run app_step b es' a" using b0 by (rule run_Cons_cases)
  have "LastActivity (aw_clip b) = Some (aw_now b)" using b(1)
    by (auto simp: app_step_def MarkActivity_def LastActivity_def markActivity_def lastActivity_def split: if_splits)
  from run_activity [OF b(2) this] obtain t where n: "aw_now a = aw_now b + elapsed es'" "LastActivity (aw_clip a) = Some t" "aw_now b \<le> t"
    by blast
  obtain m cs off where i: "idle_tick (aw_clip a) (GetPro (aw_cfg a)) (idle_timeout (aw_sc a) (aw_clip a)) (aw_now a) (aw_mon a, aw_controlled a)
      = ((m, cs), off)" by (metis surj_pair)
  have "off = None" using i
  proof (cases rule: idle_tick_cases)
    case (fire u)
    then have "t \<le> u" using n(2) by (simp add: time_After_def)
    then show ?thesis using fire(5) n assms(3) by simp
  qed simp_all
  then show ?thesis using assms(2) i by (auto simp: app_step_def idle_round_def split: if_splits)
qed

section \<open>Concrete runs\<close>

text \<open>The default options, a committed configuration with a paired TV and Pro, and a Pro that does not answer.\<close>

definition demo_pnet :: "unit net" where
  "demo_pnet = \<lparr>nt_transport = (\<lambda>q w. (None, w)), nt_dial = (\<lambda>h po i k w. (None, w)), nt_write = (\<lambda>c b w. (False, w)),
     nt_close = (\<lambda>c w. w), nt_loadCfgID = None, nt_saveCfgID = None\<rparr>"

definition demo_sc :: serveConfig where
  "demo_sc = \<lparr>sv_entertainmentMode = True, sv_idleOff = 5 * second, sv_idleOffFallback = 30 * second,
     sv_controlledWindow = 60 * second, sv_windowRaised = False, sv_activityWindow = 10 * second, sv_uiPort = 33100\<rparr>"

definition demo_loaded :: Config where
  "demo_loaded = demo_config\<lparr>cf_persist := True, cf_firstRun := False\<rparr>"

definition demo_app :: "unit app" where
  "demo_app = wire (defaultOptions []) demo_sc demo_loaded (File (Some (enc_config demo_config))) ''10.0.0.2'' 0 demo_pnet ()"

lemma demo_app_init: "app_init demo_app"
proof -
  have "Load ''/data/config.json'' (File (Some (enc_config demo_config))) None None = Inr demo_loaded"
    using Load_enc [OF demo_config_ok, of "''/data/config.json''" None None] by (simp add: demo_loaded_def demo_config_def)
  then show ?thesis unfolding app_init_def demo_app_def using defaultOptions_accepted [of "[]", folded demo_sc_def] by blast
qed

definition demo_tv_up :: "unit app" where
  "demo_tv_up = the (exec app_next demo_app [ASession (Register 0), ASession (Proceed 0), ASession (StreamStart 0), AHook sure_write])"

lemma demo_tv_up_run:
  "run app_step demo_app [ASession (Register 0), ASession (Proceed 0), ASession (StreamStart 0), AHook sure_write] demo_tv_up"
proof (rule exec_run)
  show "exec app_next demo_app [ASession (Register 0), ASession (Proceed 0), ASession (StreamStart 0), AHook sure_write] = Some demo_tv_up"
    by (simp add: demo_tv_up_def demo_app_def wire_def demo_sc_def session_step_def ses_start_def)
qed (simp add: app_step_def)

lemma stream_views_agree_witness: "isUp (aw_stream demo_tv_up) \<and> \<not> InFallback (aw_clip demo_tv_up)"
proof -
  have "ses_phase (aw_ses demo_tv_up) 0 = Streaming"
    by (simp add: demo_tv_up_def demo_app_def wire_def demo_sc_def session_step_def ses_start_def start_stream_def split: prod.split)
  then show ?thesis using stream_views_agree [OF demo_app_init demo_tv_up_run] by blast
qed

text \<open>The TV declares a zone of one light, and a frame with two channels arrives before any stream to the Pro.\<close>

definition demo_group :: request where
  "demo_group = tv_request ''POST'' ''/api/u1/groups'' (GObj [(''type'', GStr ''Entertainment''), (''lights'', GArr [GStr ''3''])])"

definition demo_xy_frame :: Frame where
  "demo_xy_frame = \<lparr>fr_Major = 2, fr_Minor = 0, fr_Sequence = 1, fr_ColorSpace = ColorSpaceXY, fr_ConfigID = [],
     fr_Channels = [\<lparr>ch_ID = 3, ch_A = 0, ch_B = 0, ch_C = 65535\<rparr>, \<lparr>ch_ID = 4, ch_A = 0, ch_B = 0, ch_C = 65535\<rparr>]\<rparr>"

definition demo_zoned :: "unit app" where
  "demo_zoned = tv_request_step demo_group (demo_env\<lparr>en_now := 0\<rparr>) demo_app"

definition demo_clip :: clip_server where
  "demo_clip = snd (serve demo_group (demo_env\<lparr>en_now := 0\<rparr>) (serve_clip (defaultOptions []) demo_sc demo_loaded
     (File (Some (enc_config demo_config))) ''10.0.0.2'' 0))"

lemma demo_clip_eval:
  "cv_reqMembers demo_clip = Some [(3, True)]" "map_option pv_closed (cv_lights demo_clip) = Some False"
  "map_option (\<lambda>p. length (pv_pending p)) (cv_lights demo_clip) = Some 0" "v1_id 3 = ''3''" "Atoi ''3'' = Some 3"
  by code_simp+

lemma request_members: "cv_reqMembers (aw_clip (tv_request_step rq e a)) = cv_reqMembers (snd (serve rq e (aw_clip a)))"
proof -
  have "cv_reqMembers (aw_clip (run_setup wr ev b)) = cv_reqMembers (aw_clip b)" for wr ev and b :: "'a app"
    by (auto simp: run_setup_def Let_def split: prod.split)
  then show ?thesis by (simp add: tv_request_step_def Let_def)
qed

lemma request_sc: "aw_sc (tv_request_step rq e a) = aw_sc a"
proof -
  have "aw_sc (run_setup wr ev b) = aw_sc b" for wr ev and b :: "'a app"
    by (auto simp: run_setup_def Let_def split: prod.split)
  then show ?thesis by (simp add: tv_request_step_def Let_def)
qed

lemma request_conn: "st_conn (aw_str (tv_request_step rq e a)) = st_conn (aw_str a)"
proof -
  have "aw_str (run_setup wr ev b) = aw_str b" for wr ev and b :: "'a app"
    by (auto simp: run_setup_def Let_def split: prod.split)
  moreover have "st_conn (foldl (\<lambda>s ids. SetRequestedMembers ids s) s new) = st_conn s" for s new
    by (induction new arbitrary: s) (simp_all add: SetRequestedMembers_def)
  ultimately show ?thesis by (simp add: tv_request_step_def Let_def)
qed

lemma demo_zoned_run: "run app_step demo_app [ARequest demo_group (demo_env\<lparr>en_now := 0\<rparr>)] demo_zoned"
  by (rule run_single) (simp add: app_step_def demo_zoned_def demo_app_def wire_def)

lemma demo_zoned_facts:
  "sv_entertainmentMode (aw_sc demo_zoned)" "cv_reqMembers (aw_clip demo_zoned) = Some [(3, True)]"
  "cv_lights (aw_clip demo_zoned) = cv_lights demo_clip" "st_conn (aw_str demo_zoned) = None"
proof -
  have c: "snd (serve demo_group (demo_env\<lparr>en_now := 0\<rparr>) (aw_clip demo_app)) = demo_clip"
    by (simp add: demo_clip_def demo_app_def wire_def)
  show "cv_reqMembers (aw_clip demo_zoned) = Some [(3, True)]" by (simp add: demo_zoned_def request_members c demo_clip_eval)
  show "cv_lights (aw_clip demo_zoned) = cv_lights demo_clip" by (simp add: demo_zoned_def request_lights c)
  show "st_conn (aw_str demo_zoned) = None"
    by (simp add: demo_zoned_def request_conn demo_app_def wire_def SetMedianFilter_def SetSmoothTau_def NewProStreamer_def)
  show "sv_entertainmentMode (aw_sc demo_zoned)" by (simp add: demo_zoned_def request_sc demo_app_def wire_def demo_sc_def)
qed


text \<open>A first start: the TV pairs, and nothing is on the disk.\<close>

definition demo_first :: "unit app" where
  "demo_first = wire (defaultOptions []) demo_sc demo_fresh FileAbsent ''10.0.0.2'' 0 demo_pnet ()"

definition demo_pairing :: request where
  "demo_pairing = tv_request ''POST'' ''/api'' (GObj [(''devicetype'', GStr ''tv'')])"

definition demo_paired_clip :: clip_server where
  "demo_paired_clip = snd (serve demo_pairing (demo_env\<lparr>en_now := 0\<rparr>) (serve_clip (defaultOptions []) demo_sc demo_fresh
     FileAbsent ''10.0.0.2'' 0))"

lemma demo_paired_eval:
  "PairedDeviceTypes (cv_cfg demo_paired_clip) = [''tv'']" "GetPro (cv_cfg demo_paired_clip) = None"
  "cv_fetches demo_paired_clip = 0" "cv_paired demo_paired_clip = 1"
  by code_simp+

lemma demo_first_init: "app_init demo_first"
proof -
  have "Load ''/data/config.json'' FileAbsent (Some [0x2c, 0x4d, 0x54, 0xea, 0x28, 0x32]) None = Inr demo_fresh" by code_simp
  then show ?thesis unfolding app_init_def demo_first_def using defaultOptions_accepted [of "[]", folded demo_sc_def] by blast
qed

lemma wait_for_pro:
  "GetPro (aw_cfg a) = None \<Longrightarrow> aw_setup a = newSetupStatus False \<Longrightarrow> run_setup wr SRecompute a = a"
  by (simp add: run_setup_def Let_def recomputeNow_def recompute.simps next_step_def newSetupStatus_def signals_of_def
      asks_active_def step_defs)

lemma demo_first_paired:
  "aw_clip (tv_request_step demo_pairing (demo_env\<lparr>en_now := 0\<rparr>) demo_first) = demo_paired_clip"
  "aw_setup (tv_request_step demo_pairing (demo_env\<lparr>en_now := 0\<rparr>) demo_first) = newSetupStatus False"
proof -
  have f: "aw_clip demo_first = serve_clip (defaultOptions []) demo_sc demo_fresh FileAbsent ''10.0.0.2'' 0"
      "aw_setup demo_first = newSetupStatus False"
    by (simp_all add: demo_first_def wire_def Committed_def demo_fresh_def demo_config_def)
  have c: "snd (serve demo_pairing (demo_env\<lparr>en_now := 0\<rparr>) (aw_clip demo_first)) = demo_paired_clip"
    by (simp add: demo_paired_clip_def f)
  have n: "cv_fetches (aw_clip demo_first) = 0" "cv_paired (aw_clip demo_first) = 0" unfolding f by code_simp+
  show "aw_clip (tv_request_step demo_pairing (demo_env\<lparr>en_now := 0\<rparr>) demo_first) = demo_paired_clip"
    "aw_setup (tv_request_step demo_pairing (demo_env\<lparr>en_now := 0\<rparr>) demo_first) = newSetupStatus False"
    by (simp_all add: tv_request_step_def Let_def c n demo_paired_eval f(2) wait_for_pro)
qed

lemma saved_when_set_up_witness:
  "PairedDeviceTypes (aw_cfg (tv_request_step demo_pairing (demo_env\<lparr>en_now := 0\<rparr>) demo_first)) = [''tv'']
   \<and> \<not> Committed (aw_cfg (tv_request_step demo_pairing (demo_env\<lparr>en_now := 0\<rparr>) demo_first))
   \<and> cv_file (aw_clip (tv_request_step demo_pairing (demo_env\<lparr>en_now := 0\<rparr>) demo_first)) = FileAbsent"
proof -
  have "run app_step demo_first [ARequest demo_pairing (demo_env\<lparr>en_now := 0\<rparr>)]
      (tv_request_step demo_pairing (demo_env\<lparr>en_now := 0\<rparr>) demo_first)"
    by (rule run_single) (simp add: app_step_def demo_first_def wire_def)
  from saved_when_set_up [OF demo_first_init this] show ?thesis
    by (simp add: demo_first_paired demo_paired_eval CurrentStep_def newSetupStatus_def step_defs)
qed

text \<open>A frame, four seconds, and a round of the idle monitor.\<close>

lemma no_idle_off_mid_stream_witness:
  "\<exists>a a'. run app_step demo_app ([] @ ADatagram # [AElapse (4 * second)]) a \<and> app_step a AIdle a' \<and> aw_offs a' = aw_offs a"
proof -
  define b where "b = demo_app\<lparr>aw_clip := MarkActivity 0 (aw_clip demo_app), aw_frames := Mark 0 (aw_frames demo_app)\<rparr>"
  define a where "a = b\<lparr>aw_now := aw_now b + 4 * second\<rparr>"
  have sc: "aw_sc demo_app = demo_sc" "aw_now demo_app = 0" by (simp_all add: demo_app_def wire_def)
  have 1: "app_step demo_app ADatagram b" by (simp add: app_step_def b_def sc demo_sc_def)
  have 2: "app_step b (AElapse (4 * second)) a" by (simp add: app_step_def a_def second_def)
  have "run app_step b [AElapse (4 * second)] a" by (rule run_single, rule 2)
  then have r: "run app_step demo_app ([] @ ADatagram # [AElapse (4 * second)]) a" by simp (rule run_Cons, rule 1)
  have 3: "app_step a AIdle (idle_round a)" by (simp add: app_step_def a_def b_def sc demo_sc_def second_def)
  have "5 * second \<le> idle_timeout (aw_sc a) (aw_clip a)" by (simp add: a_def b_def sc idle_timeout_def demo_sc_def second_def)
  then have "elapsed [AElapse (4 * second)] < idle_timeout (aw_sc a) (aw_clip a)" by (simp add: second_def)
  from no_idle_off_mid_stream [OF r 3 this] r 3 show ?thesis by blast
qed

end
