(* ===== verification/WebUi.thy ===== *)
theory WebUi
  imports ClipServer Setup LiveStats
begin

text \<open>
  What the web UI shows (\<open>internal/webui\<close>, \<open>cmd/relume-tv/uisource.go\<close>): the snapshot built from the
  program's live state, the hub with its bounded event tail, and the log lines mirrored into it.
  The fan-out to browsers and the HTTP side are in \<open>UiServer\<close>.  Times are numbers, with
  \<open>None\<close> for the empty string.
\<close>

section \<open>The snapshot\<close>

record LightView =
  lw_ID :: string
  lw_Name :: string
  lw_On :: bool
  lw_Bri :: int
  lw_X :: real
  lw_Y :: real
  lw_Driven :: bool

record snapshot =
  sh_Version :: string
  sh_StartedAt :: gotime
  sh_ProPaired :: bool
  sh_ProName :: string
  sh_ProHost :: string
  sh_ProBridgeID :: string
  sh_CertPinned :: bool
  sh_TVClients :: "string list"
  sh_Mode :: string
  sh_DTLSStreamUp :: bool
  sh_Fallback :: bool
  sh_BridgeName :: string
  sh_LastActivity :: gotime
  sh_Lights :: "LightView list"
  sh_Health :: string
  sh_StreamFPS :: int
  sh_ProSendFPS :: int
  sh_ProWriteRate :: int
  sh_RestRecvRate :: int
  sh_CoalesceRate :: int
  sh_ForwardErrors :: nat
  sh_LastForwardErr :: gotime
  sh_SmoothingTauMs :: int
  sh_JitterInBri :: nat
  sh_JitterSentBri :: nat
  sh_MedianWindow :: int
  sh_MedianThreshold :: int
  sh_SpikesSuppressed :: nat
  sh_SetupComplete :: bool
  sh_CurrentStep :: int
  sh_FirstRun :: bool
  sh_DiscoveredHost :: string
  sh_BridgeIsPro :: bool
  sh_DiscoveryOK :: bool
  sh_ProReachable :: bool
  sh_TVDescriptorSeen :: bool
  sh_PowerCycleSkipped :: bool
  sh_PrecondMsg :: string

text \<open>The answers of a \<open>StateSource\<close>, one field per method; the tuples are those of the interface.\<close>

record state_source =
  ss_Version :: string
  ss_StartedAt :: gotime
  ss_ProInfo :: "bool \<times> string \<times> string \<times> string \<times> bool"
  ss_TVClients :: "string list"
  ss_ModeInfo :: "string \<times> bool \<times> bool"
  ss_BridgeName :: string
  ss_LastActivity :: gotime
  ss_LightsV1 :: "(string, gval) gomap option"
  ss_DrivenV1IDs :: "string list"
  ss_LiveColors :: "(string, LiveColor) gomap"
  ss_Active :: bool
  ss_StreamFPS :: int
  ss_ProSendFPS :: int
  ss_ProWriteRate :: int
  ss_RestRecvRate :: int
  ss_CoalesceRate :: int
  ss_ForwardErrors :: nat
  ss_LastForwardErr :: gotime
  ss_SmoothingTauMs :: int
  ss_Jitter :: "nat \<times> nat \<times> bool"
  ss_MedianWindow :: int
  ss_MedianThreshold :: int
  ss_SpikesSuppressed :: nat
  ss_SetupComplete :: bool
  ss_CurrentStep :: int
  ss_FirstRun :: bool
  ss_SetupInfo :: "string \<times> bool \<times> bool \<times> bool \<times> bool \<times> string"
  ss_PowerCycleSkipped :: bool

definition health :: "bool \<Rightarrow> string list \<Rightarrow> bool \<Rightarrow> string \<times> bool \<times> bool \<Rightarrow> string" where
  "health paired tv active mi =
     (case mi of (mode, dtlsUp, fallback) \<Rightarrow>
        if \<not> paired then ''unpaired-pro''
        else if tv = [] then ''no-tv''
        else if \<not> active then ''idle''
        else if mode = ''entertainment'' \<and> dtlsUp \<and> \<not> fallback then ''streaming-pro''
        else if mode = ''entertainment'' \<and> fallback then ''entertainment-fallback''
        else ''active-rest'')"

text \<open>One light: what the Pro reports, then the live colour over it.\<close>

definition obj_of :: "gval \<Rightarrow> obj option" where
  "obj_of v = (case v of GObj o' \<Rightarrow> Some o' | _ \<Rightarrow> None)"

definition obj_or_empty :: "gval \<Rightarrow> obj" where
  "obj_or_empty v = (case obj_of v of None \<Rightarrow> [] | Some o' \<Rightarrow> o')"

definition with_name :: "gval \<Rightarrow> LightView \<Rightarrow> LightView" where
  "with_name v lv = (case v of GStr n \<Rightarrow> lv\<lparr>lw_Name := n\<rparr> | _ \<Rightarrow> lv)"

definition with_bri :: "gval \<Rightarrow> LightView \<Rightarrow> LightView" where
  "with_bri v lv = (case v of GFloat b \<Rightarrow> lv\<lparr>lw_Bri := trunc b\<rparr> | _ \<Rightarrow> lv)"

definition with_xy :: "gval \<Rightarrow> LightView \<Rightarrow> LightView" where
  "with_xy v lv = (case v of GArr [x, y] \<Rightarrow> lv\<lparr>lw_X := gfloat x, lw_Y := gfloat y\<rparr> | _ \<Rightarrow> lv)"

definition is_true :: "gval \<Rightarrow> bool" where
  "is_true v = (case v of GBool b \<Rightarrow> b | _ \<Rightarrow> False)"

definition pro_view :: "string \<Rightarrow> gval \<Rightarrow> LightView" where
  "pro_view i raw =
     (let m = obj_or_empty raw;
          lv = with_name (oget m ''name'')
            \<lparr>lw_ID = i, lw_Name = [], lw_On = False, lw_Bri = 0, lw_X = 0, lw_Y = 0, lw_Driven = False\<rparr>
      in case obj_of (oget m ''state'') of None \<Rightarrow> lv
         | Some st \<Rightarrow> with_xy (oget st ''xy'') (with_bri (oget st ''bri'') (lv\<lparr>lw_On := is_true (oget st ''on'')\<rparr>)))"

lemma with_fields [simp]:
  "lw_ID (with_name v lv) = lw_ID lv" "lw_Driven (with_name v lv) = lw_Driven lv" "lw_Bri (with_name v lv) = lw_Bri lv"
  "lw_X (with_name v lv) = lw_X lv" "lw_Y (with_name v lv) = lw_Y lv" "lw_On (with_name v lv) = lw_On lv"
  "lw_ID (with_bri v lv) = lw_ID lv" "lw_Driven (with_bri v lv) = lw_Driven lv"
  "lw_X (with_bri v lv) = lw_X lv" "lw_Y (with_bri v lv) = lw_Y lv"
  "lw_ID (with_xy v lv) = lw_ID lv" "lw_Driven (with_xy v lv) = lw_Driven lv" "lw_Bri (with_xy v lv) = lw_Bri lv"
  unfolding with_name_def with_bri_def with_xy_def by (cases v; simp split: list.split)+

lemma with_untyped:
  "\<forall>b. v \<noteq> GFloat b \<Longrightarrow> with_bri v lv = lv" "\<forall>vs. v \<noteq> GArr vs \<Longrightarrow> with_xy v lv = lv"
  by (cases v; simp add: with_bri_def with_xy_def)+

definition live_over :: "LiveColor option \<Rightarrow> LightView \<Rightarrow> LightView" where
  "live_over lc lv =
     (case lc of None \<Rightarrow> lv
      | Some c \<Rightarrow>
          let lv1 = (if lw_Driven lv then lv\<lparr>lw_On := lv_On c\<rparr> else lv);
              lv2 = (if lv_Bri c > 0 then lv1\<lparr>lw_Bri := lv_Bri c\<rparr> else lv1)
          in if lv_X c \<noteq> 0 \<or> lv_Y c \<noteq> 0 then lv2\<lparr>lw_X := lv_X c, lw_Y := lv_Y c\<rparr> else lv2)"

definition light_view :: "string list \<Rightarrow> (string, LiveColor) gomap \<Rightarrow> string \<times> gval \<Rightarrow> LightView" where
  "light_view driven live = (\<lambda>(i, raw).
     live_over (mget live i) ((pro_view i raw)\<lparr>lw_Driven := i \<in> set driven\<rparr>))"

definition numeric_id :: "LightView \<Rightarrow> int" where
  "numeric_id lv = (case Atoi (lw_ID lv) of None \<Rightarrow> 0 | Some n \<Rightarrow> n)"

definition BuildSnapshot :: "state_source \<Rightarrow> snapshot" where
  "BuildSnapshot src =
     (case ss_ProInfo src of (paired, name, host, bridgeID, pinned) \<Rightarrow>
      case ss_ModeInfo src of (mode, dtlsUp, fallback) \<Rightarrow>
      case ss_Jitter src of (inBri, sentBri, fresh) \<Rightarrow>
      case ss_SetupInfo src of (dhost, isPro, dok, reachable, descr, msg) \<Rightarrow>
      let tv = ss_TVClients src in
      \<lparr>sh_Version = ss_Version src, sh_StartedAt = ss_StartedAt src, sh_ProPaired = paired, sh_ProName = name,
       sh_ProHost = host, sh_ProBridgeID = bridgeID, sh_CertPinned = pinned, sh_TVClients = tv, sh_Mode = mode,
       sh_DTLSStreamUp = dtlsUp, sh_Fallback = fallback, sh_BridgeName = ss_BridgeName src,
       sh_LastActivity = ss_LastActivity src,
       sh_Lights = (case ss_LightsV1 src of None \<Rightarrow> []
         | Some lv1 \<Rightarrow> sort_key numeric_id (map (light_view (ss_DrivenV1IDs src) (ss_LiveColors src)) lv1)),
       sh_Health = health paired tv (ss_Active src) (mode, dtlsUp, fallback),
       sh_StreamFPS = ss_StreamFPS src, sh_ProSendFPS = ss_ProSendFPS src, sh_ProWriteRate = ss_ProWriteRate src,
       sh_RestRecvRate = ss_RestRecvRate src, sh_CoalesceRate = ss_CoalesceRate src,
       sh_ForwardErrors = ss_ForwardErrors src, sh_LastForwardErr = ss_LastForwardErr src,
       sh_SmoothingTauMs = ss_SmoothingTauMs src,
       sh_JitterInBri = (if fresh then inBri else 0), sh_JitterSentBri = (if fresh then sentBri else 0),
       sh_MedianWindow = ss_MedianWindow src, sh_MedianThreshold = ss_MedianThreshold src,
       sh_SpikesSuppressed = (if fresh then ss_SpikesSuppressed src else 0),
       sh_SetupComplete = ss_SetupComplete src, sh_CurrentStep = ss_CurrentStep src, sh_FirstRun = ss_FirstRun src,
       sh_DiscoveredHost = dhost, sh_BridgeIsPro = isPro, sh_DiscoveryOK = dok, sh_ProReachable = reachable,
       sh_TVDescriptorSeen = descr, sh_PowerCycleSkipped = ss_PowerCycleSkipped src, sh_PrecondMsg = msg\<rparr>)"

section \<open>The source: the program's live state\<close>

text \<open>
  \<open>clip\<close> is the server with the shared configuration, \<open>e\<close> the environment of the light read.  A
  snapshot reads each counter once; reading prunes it, which only forgets what no longer counts.
\<close>

record ui_source =
  us_clip :: clip_server
  us_live :: liveColors
  us_frames :: frameStats
  us_proSend :: frameStats
  us_restRecv :: frameStats
  us_proStats :: proStats
  us_jitter :: jitterStats
  us_setup :: setupStatus
  us_advName :: string
  us_version :: string
  us_started :: gotime
  us_smoothTauMs :: int
  us_medianWindow :: int
  us_medianThreshold :: int

definition ProInfo :: "Config \<Rightarrow> bool \<times> string \<times> string \<times> string \<times> bool" where
  "ProInfo cfg = (case GetPro cfg of None \<Rightarrow> (False, [], [], [], False)
     | Some p \<Rightarrow> (True, bp_Name p, bp_Host p, bp_BridgeID p, bp_CertSHA256 p \<noteq> []))"

definition SetupComplete :: "Config \<Rightarrow> bool" where
  "SetupComplete cfg \<longleftrightarrow> Committed cfg \<and> GetPro cfg \<noteq> None \<and> PairedDeviceTypes cfg \<noteq> []"

definition SetupInfo :: "setupStatus \<Rightarrow> string \<times> bool \<times> bool \<times> bool \<times> bool \<times> string" where
  "SetupInfo s = (case Precond s of (discoveryOK, host, isPro, msg) \<Rightarrow>
     (host, isPro, discoveryOK, ProReachable s, TVDescriptorSeen s, msg))"

definition ui_Active :: "int \<Rightarrow> ui_source \<Rightarrow> bool" where
  "ui_Active now u \<longleftrightarrow> fst (DrivenV1IDs now (us_live u)) \<noteq> []"

definition source_of :: "clip_env \<Rightarrow> ui_source \<Rightarrow> state_source" where
  "source_of e u =
     (let cfg = cv_cfg (us_clip u); now = en_now e in
      \<lparr>ss_Version = us_version u, ss_StartedAt = us_started u, ss_ProInfo = ProInfo cfg,
       ss_TVClients = PairedDeviceTypes cfg, ss_ModeInfo = UIStatus (us_clip u), ss_BridgeName = us_advName u,
       ss_LastActivity = LastActivity (us_clip u), ss_LightsV1 = fst (LightsV1Snapshot e (us_clip u)),
       ss_DrivenV1IDs = fst (DrivenV1IDs now (us_live u)), ss_LiveColors = LiveSnapshot (us_live u),
       ss_Active = ui_Active now u,
       ss_StreamFPS = fst (FPS now (us_frames u)), ss_ProSendFPS = fst (FPS now (us_proSend u)),
       ss_ProWriteRate = fst (FPS now (pst_writes (us_proStats u))), ss_RestRecvRate = fst (FPS now (us_restRecv u)),
       ss_CoalesceRate = fst (FPS now (pst_coalesces (us_proStats u))),
       ss_ForwardErrors = pst_fwdErrs (us_proStats u), ss_LastForwardErr = LastForwardErr (us_proStats u),
       ss_SmoothingTauMs = us_smoothTauMs u, ss_Jitter = Reduction now (us_jitter u),
       ss_MedianWindow = us_medianWindow u, ss_MedianThreshold = us_medianThreshold u,
       ss_SpikesSuppressed = Spikes (us_jitter u), ss_SetupComplete = SetupComplete cfg,
       ss_CurrentStep = CurrentStep (us_setup u), ss_FirstRun = FirstRun cfg, ss_SetupInfo = SetupInfo (us_setup u),
       ss_PowerCycleSkipped = PowerCycleSkipped (us_setup u)\<rparr>)"

section \<open>The hub\<close>

record event =
  ev_Time :: int
  ev_Level :: string
  ev_Msg :: string
  ev_Attrs :: string

datatype frame = SnapshotFrame snapshot | EventFrame event

text \<open>The frames handed on for the fan-out are recorded; the snapshot is \<open>None\<close> until one is set.\<close>

record hub =
  hb_ringSize :: int
  hb_events :: "event list"
  hb_snap :: "snapshot option"
  hb_sent :: "frame list"

definition NewHub :: "int \<Rightarrow> hub" where
  "NewHub ringSize = \<lparr>hb_ringSize = (if ringSize < 1 then 1 else ringSize), hb_events = [], hb_snap = None, hb_sent = []\<rparr>"

definition PublishEvent :: "event \<Rightarrow> hub \<Rightarrow> hub" where
  "PublishEvent e h =
     (let es = hb_events h @ [e];
          es' = (if int (length es) > hb_ringSize h then drop (nat (int (length es) - hb_ringSize h)) es else es)
      in h\<lparr>hb_events := es', hb_sent := hb_sent h @ [EventFrame e]\<rparr>)"

definition SetSnapshot :: "snapshot \<Rightarrow> hub \<Rightarrow> hub" where
  "SetSnapshot s h = h\<lparr>hb_snap := Some s, hb_sent := hb_sent h @ [SnapshotFrame s]\<rparr>"

definition hub_Snapshot :: "hub \<Rightarrow> snapshot option" where
  "hub_Snapshot h = hb_snap h"

definition Events :: "hub \<Rightarrow> event list" where
  "Events h = hb_events h"

text \<open>One tick of the snapshot loop, and what a browser is sent when it connects.\<close>

definition snapshot_tick :: "bool \<Rightarrow> state_source \<Rightarrow> hub \<Rightarrow> hub" where
  "snapshot_tick hasSubscribers src h = (if hasSubscribers then SetSnapshot (BuildSnapshot src) h else h)"

definition initial_paint :: "state_source \<Rightarrow> hub \<Rightarrow> frame list" where
  "initial_paint src h = SnapshotFrame (BuildSnapshot src) # map EventFrame (Events h)"

section \<open>Log lines as events\<close>

definition ellipsis :: string where
  "ellipsis = [CHR 0xE2, CHR 0x80, CHR 0xA6]"

definition quoteValue :: "string \<Rightarrow> string" where
  "quoteValue v =
     (if v = [] \<or> (\<exists>c\<in>set v. c \<in> {CHR '' '', CHR 0x09, CHR 0x0A, CHR 0x22, CHR ''=''})
      then CHR 0x22 # concat (map (\<lambda>c. if c = CHR 0x22 then [CHR 0x5C, CHR 0x22] else [c]) v) @ [CHR 0x22]
      else v)"

text \<open>
  \<open>[]rune(s)\<close>: the valid UTF-8 sequences at the front of the text, every other byte read as the
  replacement character.  Each rune is kept as the bytes it encodes to.
\<close>

definition cont :: "nat \<Rightarrow> nat \<Rightarrow> char \<Rightarrow> bool" where
  "cont lo hi c \<longleftrightarrow> lo \<le> of_char c \<and> of_char c \<le> hi"

definition rune_width :: "string \<Rightarrow> nat" where
  "rune_width s =
     (case s of [] \<Rightarrow> 0
      | a # t \<Rightarrow>
          let n = (of_char a :: nat);
              second_ok = (case t of [] \<Rightarrow> False
                | b # _ \<Rightarrow> cont (if n = 0xE0 then 0xA0 else if n = 0xF0 then 0x90 else 0x80)
                    (if n = 0xED then 0x9F else if n = 0xF4 then 0x8F else 0xBF) b);
              k = (if 0xC2 \<le> n \<and> n \<le> 0xDF then 2 else if 0xE0 \<le> n \<and> n \<le> 0xEF then 3
                   else if 0xF0 \<le> n \<and> n \<le> 0xF4 then 4 else 0)
          in if n < 0x80 then 1
             else if k = 0 \<or> \<not> second_ok \<or> length s < k \<or> \<not> list_all (cont 0x80 0xBF) (take (k - 2) (drop 2 s)) then 0
             else k)"

function runes :: "string \<Rightarrow> string list" where
  "runes s =
     (if s = [] then []
      else if rune_width s = 0 then [CHR 0xEF, CHR 0xBF, CHR 0xBD] # runes (drop 1 s)
      else take (rune_width s) s # runes (drop (rune_width s) s))"
  by auto
termination by (relation "measure length") auto

declare runes.simps [simp del]

definition maxAttrsLen :: nat where
  "maxAttrsLen = 500"

record log_handler =
  lh_attrs :: "(string \<times> string) list"

definition formatAttrs :: "log_handler \<Rightarrow> (string \<times> string) list \<Rightarrow> string" where
  "formatAttrs l attrs =
     (let s = str_Join (map (\<lambda>(k, v). k @ ''='' @ quoteValue v) (lh_attrs l @ attrs)) '' '' in
      if length s > maxAttrsLen
      then (let r = runes s; r' = (if length r > maxAttrsLen then take maxAttrsLen r else r) in concat r' @ ellipsis)
      else s)"

definition WithAttrs :: "(string \<times> string) list \<Rightarrow> log_handler \<Rightarrow> log_handler" where
  "WithAttrs attrs l = l\<lparr>lh_attrs := lh_attrs l @ attrs\<rparr>"

definition WithGroup :: "string \<Rightarrow> log_handler \<Rightarrow> log_handler" where
  "WithGroup name l = l"

definition Handle :: "int \<Rightarrow> string \<Rightarrow> string \<Rightarrow> (string \<times> string) list \<Rightarrow> log_handler \<Rightarrow> hub \<Rightarrow> hub" where
  "Handle time level msg attrs l h =
     PublishEvent \<lparr>ev_Time = time, ev_Level = level, ev_Msg = msg, ev_Attrs = formatAttrs l attrs\<rparr> h"

section \<open>Lemmas\<close>

text \<open>The event tail is the end of everything published, whatever the size asked for.\<close>

datatype hub_event = HubPublish event | HubSnapshot snapshot

fun hub_next :: "hub \<Rightarrow> hub_event \<Rightarrow> hub" where
  "hub_next h (HubPublish e) = PublishEvent e h"
| "hub_next h (HubSnapshot s) = SetSnapshot s h"

definition published :: "hub_event list \<Rightarrow> event list" where
  "published hs = List.map_filter (\<lambda>x. case x of HubPublish e \<Rightarrow> Some e | HubSnapshot s \<Rightarrow> None) hs"

lemma published_snoc [simp]:
  "published [] = []" "published (hs @ [HubPublish e]) = published hs @ [e]" "published (hs @ [HubSnapshot s]) = published hs"
  by (simp_all add: published_def List.map_filter_def)

lemma hub_tail:
  "Events (foldl hub_next (NewHub n) hs) = drop (length (published hs) - nat (max 1 n)) (published hs)
   \<and> hb_ringSize (foldl hub_next (NewHub n) hs) = max 1 n"
proof (induction hs rule: rev_induct)
  case (snoc h hs)
  show ?case
  proof (cases h)
    case (HubPublish e)
    define k where "k = nat (max 1 n)"
    have k: "hb_ringSize (foldl hub_next (NewHub n) hs) = int k" "1 \<le> k" using snoc by (auto simp: k_def)
    have ev: "hb_events (foldl hub_next (NewHub n) hs) = drop (length (published hs) - k) (published hs)"
      using snoc by (simp add: Events_def k_def)
    have "Events (foldl hub_next (NewHub n) (hs @ [h])) = drop (length (published (hs @ [h])) - k) (published (hs @ [h]))"
      using k(2) by (auto simp: HubPublish Events_def PublishEvent_def Let_def k(1) ev not_less Suc_diff_le)
    then show ?thesis using snoc by (simp add: HubPublish PublishEvent_def Let_def k_def)
  next
    case (HubSnapshot s)
    then show ?thesis using snoc by (simp add: SetSnapshot_def Events_def)
  qed
qed (auto simp: NewHub_def Events_def)

text \<open>The \<open>runes\<close> of a text never add bytes of their own, up to the replacement of invalid ones.\<close>

lemma rune_width_le: "rune_width s \<le> length s"
  by (auto simp: rune_width_def Let_def split: list.split if_splits)

lemma formatAttrs_short: "length (formatAttrs l attrs) \<le> 500 \<or> (\<exists>t. formatAttrs l attrs = t @ ellipsis)"
  by (auto simp: formatAttrs_def Let_def maxAttrsLen_def)

text \<open>
  A value without double quotes, whitespace and equals signs is written as it is; otherwise the
  quotes are escaped but backslashes are not, so different values are written alike.
\<close>

lemma quoteValue_plain:
  "v \<noteq> [] \<Longrightarrow> (\<And>c. c \<in> set v \<Longrightarrow> c \<notin> {CHR '' '', CHR 0x09, CHR 0x0A, CHR 0x22, CHR ''=''}) \<Longrightarrow> quoteValue v = v"
  by (auto simp: quoteValue_def)

text \<open>What the Pro reports for brightness and colour never reaches the view: the types do not match.\<close>

lemma oget_lightState:
  "oget (lightState l) ''bri'' \<noteq> GFloat b" "oget (lightState l) ''xy'' \<noteq> GArr vs"
  by (cases "lt_Dimming l"; cases "lt_Color l"; cases "lt_ColorTemperature l"; simp add: lightState_def oget_def Let_def)+

lemma pro_colours_never_shown:
  "lw_Bri (pro_view i (lightV1 l)) = 0 \<and> lw_X (pro_view i (lightV1 l)) = 0 \<and> lw_Y (pro_view i (lightV1 l)) = 0"
proof -
  have "obj_of (oget (obj_or_empty (lightV1 l)) ''state'') = Some (lightState l)"
    by (simp add: lightV1_def Let_def obj_or_empty_def obj_of_def oget_def split: prod.split)
  then show ?thesis
    by (simp add: pro_view_def Let_def with_untyped oget_lightState)
qed

text \<open>The degraded state the health switch means to flag cannot occur with this source: in fallback the mode is \<open>rest\<close>.\<close>

lemma fallback_health_unreachable: "sh_Health (BuildSnapshot (source_of e u)) \<noteq> ''entertainment-fallback''"
  by (auto simp: BuildSnapshot_def source_of_def Let_def health_def UIStatus_def ProInfo_def Reduction_def SetupInfo_def
      Precond_def split: option.split)

lemma pro_view_fields [simp]:
  "lw_ID (pro_view i raw) = i" "lw_Driven (pro_view i raw) = False"
  by (simp_all add: pro_view_def Let_def split: option.split)

lemma live_over_fields [simp]:
  "lw_ID (live_over lc lv) = lw_ID lv" "lw_Driven (live_over lc lv) = lw_Driven lv" "lw_Name (live_over lc lv) = lw_Name lv"
  "lw_On (live_over lc lv) = (case lc of Some c \<Rightarrow> if lw_Driven lv then lv_On c else lw_On lv | None \<Rightarrow> lw_On lv)"
  by (auto simp: live_over_def Let_def split: option.split)

section \<open>Properties\<close>

text \<open>
  C22: the unauthenticated web UI reveals no secret.  A snapshot depends on the configuration only
  through whether it is committed and a first run, the device types of the paired TVs, and the name,
  host and id of the Pro and whether a certificate is pinned: two installations that differ in the TV
  user names and client keys, the Pro's application and client key or the pinned fingerprint show the
  same snapshot, in every state of the rest of the program.
\<close>

theorem snapshot_reveals_no_secret:
  assumes "cf_persist c1 = cf_persist c2" "cf_firstRun c1 = cf_firstRun c2"
    and "map (au_DeviceType \<circ> snd) (cf_APIUsers c1) = map (au_DeviceType \<circ> snd) (cf_APIUsers c2)"
    and "map_option (\<lambda>p. (bp_Name p, bp_Host p, bp_BridgeID p, bp_CertSHA256 p \<noteq> [])) (cf_Pro c1)
       = map_option (\<lambda>p. (bp_Name p, bp_Host p, bp_BridgeID p, bp_CertSHA256 p \<noteq> [])) (cf_Pro c2)"
  shows "BuildSnapshot (source_of e (u\<lparr>us_clip := clip\<lparr>cv_cfg := c1\<rparr>\<rparr>))
    = BuildSnapshot (source_of e (u\<lparr>us_clip := clip\<lparr>cv_cfg := c2\<rparr>\<rparr>))"
proof -
  have "(\<lambda>(_, w). au_DeviceType w) = (au_DeviceType \<circ> snd :: string \<times> APIUser \<Rightarrow> string)" by (auto simp: fun_eq_iff)
  then have tv: "PairedDeviceTypes c1 = PairedDeviceTypes c2" using assms(3) by (simp add: PairedDeviceTypes_def)
  have pro: "ProInfo c1 = ProInfo c2" "(GetPro c1 = None) = (GetPro c2 = None)"
    using assms(4) by (cases "cf_Pro c1"; cases "cf_Pro c2"; simp add: ProInfo_def GetPro_def)+
  have sc: "SetupComplete c1 = SetupComplete c2"
    using tv pro assms(1) by (simp add: SetupComplete_def Committed_def)
  have lights: "fst (LightsV1Snapshot e (clip\<lparr>cv_cfg := c\<rparr>)) = fst (LightsV1Snapshot e clip)" for c
    by (auto simp: LightsV1Snapshot_def split: option.split prod.split)
  have "source_of e (u\<lparr>us_clip := clip\<lparr>cv_cfg := c1\<rparr>\<rparr>) = source_of e (u\<lparr>us_clip := clip\<lparr>cv_cfg := c2\<rparr>\<rparr>)"
    using tv pro sc assms(2)
    by (simp add: source_of_def Let_def lights UIStatus_def LastActivity_def FirstRun_def ui_Active_def)
  then show ?thesis by simp
qed

lemma snapshot_reveals_no_secret_witness:
  "\<forall>e u clip. BuildSnapshot (source_of e (u\<lparr>us_clip := clip\<lparr>cv_cfg := demo_config\<rparr>\<rparr>))
     = BuildSnapshot (source_of e (u\<lparr>us_clip := clip\<lparr>cv_cfg := demo_config\<lparr>
         cf_APIUsers := [(''u9'', \<lparr>au_Username = ''u9'', au_DeviceType = ''tv'', au_ClientKey = ''CD''\<rparr>)],
         cf_Pro := map_option (\<lambda>p. p\<lparr>bp_AppKey := ''other'', bp_ClientKey := ''EF''\<rparr>) (cf_Pro demo_config)\<rparr>\<rparr>\<rparr>))"
  by (intro allI snapshot_reveals_no_secret) (simp_all add: demo_config_def zero_BridgePro_def)

text \<open>
  The lights shown are the provider's, each once and in numeric order; a light is marked as
  driven exactly when the TV wrote to it within the window, and whether it is shown as on follows the
  TV's last write while it is driven and the Pro's own state otherwise, so a light that was turned
  off after the stream ended is not shown as lit.
\<close>

theorem snapshot_lights:
  assumes "fst (LightsV1Snapshot e (us_clip u)) = Some lv1"
  shows "mset (map lw_ID (sh_Lights (BuildSnapshot (source_of e u)))) = mset (mkeys lv1)
    \<and> sorted (map numeric_id (sh_Lights (BuildSnapshot (source_of e u))))
    \<and> (\<forall>v\<in>set (sh_Lights (BuildSnapshot (source_of e u))).
         (lw_Driven v \<longleftrightarrow> lw_ID v \<in> set (fst (DrivenV1IDs (en_now e) (us_live u))))
       \<and> (\<exists>raw. (lw_ID v, raw) \<in> set lv1 \<and> lw_On v =
            (case mget (LiveSnapshot (us_live u)) (lw_ID v) of
               Some c \<Rightarrow> if lw_Driven v then lv_On c else lw_On (pro_view (lw_ID v) raw)
             | None \<Rightarrow> lw_On (pro_view (lw_ID v) raw))))"
proof -
  let ?f = "light_view (fst (DrivenV1IDs (en_now e) (us_live u))) (LiveSnapshot (us_live u))"
  have l: "sh_Lights (BuildSnapshot (source_of e u)) = sort_key numeric_id (map ?f lv1)"
    using assms by (simp add: BuildSnapshot_def source_of_def Let_def split: prod.split)
  have "map (lw_ID \<circ> ?f) lv1 = mkeys lv1" by (auto simp: light_view_def)
  then have "mset (map lw_ID (sort_key numeric_id (map ?f lv1))) = mset (mkeys lv1)"
    by (metis mset_map mset_sort list.map_comp)
  moreover have "(lw_Driven v \<longleftrightarrow> lw_ID v \<in> set (fst (DrivenV1IDs (en_now e) (us_live u))))
       \<and> (\<exists>raw. (lw_ID v, raw) \<in> set lv1 \<and> lw_On v =
            (case mget (LiveSnapshot (us_live u)) (lw_ID v) of
               Some c \<Rightarrow> if lw_Driven v then lv_On c else lw_On (pro_view (lw_ID v) raw)
             | None \<Rightarrow> lw_On (pro_view (lw_ID v) raw)))" if v: "v \<in> ?f ` set lv1" for v
  proof -
    obtain i raw where "(i, raw) \<in> set lv1" "v = ?f (i, raw)" using v by auto
    then show ?thesis by (auto simp: light_view_def split: option.split)
  qed
  ultimately show ?thesis unfolding l by (simp add: sorted_sort_key)
qed

text \<open>Two lights, one of them driven by the TV a moment ago.\<close>

definition demo_ui_lights :: "(string, gval) gomap" where
  "demo_ui_lights = [(''2'', GObj [(''state'', GObj [(''on'', GBool True)])]), (''1'', GObj [(''state'', GObj [(''on'', GBool True)])])]"

definition demo_ui :: ui_source where
  "demo_ui = \<lparr>us_clip = (New demo_config FileAbsent ''10.0.0.2'' 80 0)
        \<lparr>cv_lights := Some (NewLightProvider\<lparr>pv_cached := Some demo_ui_lights, pv_refresh := True\<rparr>)\<rparr>,
     us_live = SetState 0 ''1'' [(''on'', GBool False)] (newLiveColors drivenLightWindow),
     us_frames = newFrameStats, us_proSend = newFrameStats, us_restRecv = newFrameStats, us_proStats = newProStats,
     us_jitter = newJitterStats, us_setup = newSetupStatus False, us_advName = ''relume-tv-EA2832'', us_version = ''1'',
     us_started = Some 0, us_smoothTauMs = 40, us_medianWindow = 1, us_medianThreshold = 8000\<rparr>"

definition demo_ui_env :: clip_env where
  "demo_ui_env = \<lparr>en_now = second, en_pro = Inr [], en_user = [], en_key = [], en_write = sure_write,
     en_ifaces = None, en_gapTrace = False\<rparr>"

lemma snapshot_lights_witness:
  "mset (map lw_ID (sh_Lights (BuildSnapshot (source_of demo_ui_env demo_ui)))) = {#''2'', ''1''#}
   \<and> sorted (map numeric_id (sh_Lights (BuildSnapshot (source_of demo_ui_env demo_ui))))"
proof -
  have "fst (LightsV1Snapshot demo_ui_env (us_clip demo_ui)) = Some demo_ui_lights"
    by (simp add: LightsV1Snapshot_def provider_LightsV1_def lights_begin_def demo_ui_def)
  from snapshot_lights [OF this] show ?thesis by (simp add: demo_ui_lights_def)
qed

end
