(* ===== verification/Ssdp.thy ===== *)
theory Ssdp
  imports Upnp
begin

text \<open>
  The SSDP responder (\<open>internal/ssdp/ssdp.go\<close>) by which the TV finds the emulated bridge: header
  parsing, the answers to an \<open>M-SEARCH\<close>, the \<open>NOTIFY\<close> broadcasts, and the startup burst.  Datagrams
  are texts; a socket is a function that sends one of them, changing the network's state, and may fail.
  A serial too short for a bridge id panics (\<open>None\<close>).
\<close>

section \<open>Messages\<close>

record Responder =
  rs_id :: Identity
  rs_advIP :: string
  rs_httpPort :: int
  rs_BurstDuration :: duration
  rs_BurstInterval :: duration

definition NewResponder :: "Identity \<Rightarrow> string \<Rightarrow> int \<Rightarrow> Responder" where
  "NewResponder i advIP port =
     \<lparr>rs_id = i, rs_advIP = advIP, rs_httpPort = port, rs_BurstDuration = 0, rs_BurstInterval = 0\<rparr>"

text \<open>One line of \<open>parseHeaders\<close>: nothing without a colon after its first character.\<close>

definition header_line :: "string \<Rightarrow> (string, string) gomap \<Rightarrow> (string, string) gomap" where
  "header_line line out =
     (case str_IndexByte line (CHR '':'') of
        None \<Rightarrow> out
      | Some i \<Rightarrow> if i = 0 then out
          else mput (ToUpper (TrimSpace (take i line))) (TrimSpace (drop (i + 1) line)) out)"

definition parseHeaders :: "string \<Rightarrow> (string, string) gomap" where
  "parseHeaders msg = fold header_line (split2 (CHR 0x0D) (CHR 0x0A) msg) []"

record ssdpVariant =
  va_st :: string
  va_nt :: string
  va_usn :: string

definition maxAge :: "ssdpVariant \<Rightarrow> int" where
  "maxAge v = 100"

definition location :: "Responder \<Rightarrow> ssdpVariant \<Rightarrow> string" where
  "location r v = ''http://'' @ rs_advIP r @ '':'' @ Itoa (rs_httpPort r) @ ''/description.xml''"

definition serverHeader :: "Responder \<Rightarrow> string" where
  "serverHeader r = ServerHeaderDefault"

definition ssdpVariants :: "Responder \<Rightarrow> ssdpVariant list" where
  "ssdpVariants r = (let uuid = UUID (rs_id r) in
     [\<lparr>va_st = ''upnp:rootdevice'', va_nt = ''upnp:rootdevice'', va_usn = ''uuid:'' @ uuid @ ''::upnp:rootdevice''\<rparr>,
      \<lparr>va_st = ''uuid:'' @ uuid, va_nt = ''uuid:'' @ uuid, va_usn = ''uuid:'' @ uuid\<rparr>,
      \<lparr>va_st = ''urn:schemas-upnp-org:device:basic:1'', va_nt = ''urn:schemas-upnp-org:device:basic:1'',
       va_usn = ''uuid:'' @ uuid @ ''::urn:schemas-upnp-org:device:basic:1''\<rparr>])"

definition crlf :: string where
  "crlf = [CHR 0x0D, CHR 0x0A]"

definition message :: "string list \<Rightarrow> string" where
  "message ls = concat (map (\<lambda>l. l @ crlf) ls)"

definition field :: "string \<Rightarrow> string \<Rightarrow> string" where
  "field k v = k @ CHR '':'' # CHR '' '' # v"

definition search_lines :: "Responder \<Rightarrow> string \<Rightarrow> ssdpVariant \<Rightarrow> string list" where
  "search_lines r bridgeID v =
     [''HTTP/1.1 200 OK'', field ''HOST'' ''239.255.255.250:1900'', ''EXT:'',
      field ''CACHE-CONTROL'' (''max-age='' @ Itoa (maxAge v)), field ''LOCATION'' (location r v),
      field ''SERVER'' (serverHeader r), field ''hue-bridgeid'' bridgeID, field ''ST'' (va_st v), field ''USN'' (va_usn v), []]"

definition notify_lines :: "Responder \<Rightarrow> string \<Rightarrow> ssdpVariant \<Rightarrow> string list" where
  "notify_lines r bridgeID v =
     [''NOTIFY * HTTP/1.1'', field ''HOST'' ''239.255.255.250:1900'',
      field ''CACHE-CONTROL'' (''max-age='' @ Itoa (maxAge v)), field ''LOCATION'' (location r v),
      field ''SERVER'' (serverHeader r), field ''NTS'' ''ssdp:alive'', field ''hue-bridgeid'' bridgeID,
      field ''NT'' (va_nt v), field ''USN'' (va_usn v), []]"

definition targets :: "string \<Rightarrow> ssdpVariant \<Rightarrow> bool" where
  "targets st v \<longleftrightarrow> EqualFold st ''ssdp:all'' \<or> EqualFold st (va_st v)"

fun search_loop :: "Responder \<Rightarrow> string \<Rightarrow> ssdpVariant list \<Rightarrow> string list option" where
  "search_loop r st [] = Some []"
| "search_loop r st (v # vs) =
     (if \<not> targets st v then search_loop r st vs
      else case BridgeID (rs_id r) of None \<Rightarrow> None
        | Some b \<Rightarrow> map_option (\<lambda>out. message (search_lines r b v) # out) (search_loop r st vs))"

definition searchResponses :: "Responder \<Rightarrow> string \<Rightarrow> string list option" where
  "searchResponses r st = search_loop r (TrimSpace st) (ssdpVariants r)"

definition notifyMessages :: "Responder \<Rightarrow> string list option" where
  "notifyMessages r = map_option (\<lambda>b. map (\<lambda>v. message (notify_lines r b v)) (ssdpVariants r)) (BridgeID (rs_id r))"

text \<open>What is sent back for a datagram: everything until a send fails.\<close>

definition hget :: "(string, string) gomap \<Rightarrow> string \<Rightarrow> string" where
  "hget h k = (case mget h k of None \<Rightarrow> [] | Some v \<Rightarrow> v)"

definition handle_datagram :: "Responder \<Rightarrow> string \<Rightarrow> string list option" where
  "handle_datagram r msg =
     (if \<not> HasPrefix msg ''M-SEARCH'' then Some []
      else searchResponses r (hget (parseHeaders msg) ''ST''))"

text \<open>
  The startup burst: one send at once, then one per tick until the deadline.  The ticks that are
  processed before the deadline are an argument; the burst ends with the first that is not.
\<close>

definition runBurst :: "duration \<Rightarrow> duration \<Rightarrow> nat \<Rightarrow> nat \<times> duration" where
  "runBurst interval duration ticks =
     (if duration \<le> 0 then (0, interval)
      else (Suc ticks, if interval \<le> 0 then second else interval))"

section \<open>Parsing what is sent\<close>

lemma split_message:
  "\<forall>l\<in>set ls. CHR 0x0D \<notin> set l \<Longrightarrow> split2 (CHR 0x0D) (CHR 0x0A) (message ls) = ls @ [[]]"
  by (induction ls) (simp_all add: message_def crlf_def split2_line)

text \<open>A text that can be the value of a header: no carriage return in it and no space at its ends.\<close>

definition header_value :: "string \<Rightarrow> bool" where
  "header_value v \<longleftrightarrow> CHR 0x0D \<notin> set v \<and> (v = [] \<or> \<not> is_space (hd v) \<and> \<not> is_space (last v))"

lemma header_value_append:
  "header_value u \<Longrightarrow> header_value v \<Longrightarrow> u \<noteq> [] \<Longrightarrow> v \<noteq> [] \<Longrightarrow> header_value (u @ v)"
  by (auto simp: header_value_def)

lemma header_line_skip: "CHR '':'' \<notin> set l \<Longrightarrow> header_line l out = out"
  unfolding header_line_def by (subst str_IndexByte_None [THEN iffD2]) simp_all

lemma header_line_put:
  "CHR '':'' \<notin> set k \<Longrightarrow> k \<noteq> [] \<Longrightarrow>
   header_line (k @ CHR '':'' # v) out = mput (ToUpper (TrimSpace k)) (TrimSpace v) out"
  by (simp add: header_line_def str_IndexByte_append)

lemma header_line_field:
  "CHR '':'' \<notin> set k \<Longrightarrow> k \<noteq> [] \<Longrightarrow> header_value v \<Longrightarrow>
   header_line (field k v) out = mput (ToUpper (TrimSpace k)) v out"
  by (simp add: field_def header_line_put is_space_def TrimSpace_id header_value_def)

text \<open>The values the responder sends are such texts when the address and the serial are.\<close>

lemma is_space_upper: "is_space (upper_char c) = is_space c" "upper_char c = CHR 0x0D \<longleftrightarrow> c = CHR 0x0D"
proof -
  have "upper_char c = c \<or> 97 \<le> ord_char c \<and> ord_char c \<le> 122 \<and> ord_char (upper_char c) = ord_char c - 32"
    by (auto simp: upper_char_def)
  moreover have "ord_char (CHR 0x0D) = (13 :: nat)" by simp
  ultimately show "is_space (upper_char c) = is_space c" "upper_char c = CHR 0x0D \<longleftrightarrow> c = CHR 0x0D"
    by (auto simp: is_space_def)
qed

lemma itoa_header_value: "0 \<le> n \<Longrightarrow> header_value (Itoa n)"
proof -
  assume n: "0 \<le> n"
  have d: "list_all is_digit (itoa_nat (nat n))" by (rule itoa_nat_digits)
  have "\<not> is_space c" if "is_digit c" for c using that by (auto simp: is_digit_def is_space_def)
  moreover have "is_space (CHR 0x0D)" by (simp add: is_space_def)
  ultimately show ?thesis using d n
    by (auto simp: header_value_def Itoa_def list_all_iff)
qed

lemma itoa_no_cr: "CHR 0x0D \<in> set (itoa_nat n) \<Longrightarrow> False"
  using itoa_nat_digits [of n] by (auto simp: list_all_iff is_digit_def)

lemma header_value_BridgeID: "header_value (id_Serial i) \<Longrightarrow> BridgeID i = Some b \<Longrightarrow> header_value b"
proof -
  assume h: "header_value (id_Serial i)" and b: "BridgeID i = Some b"
  let ?s = "id_Serial i"
  have l: "6 \<le> length ?s" "b = map upper_char (take 6 ?s @ ''fffe'' @ drop 6 ?s)"
    using b by (auto simp: BridgeID_def Let_def ToUpper_def split: if_splits)
  have ne: "?s \<noteq> []" "hd (take 6 ?s @ ''fffe'' @ drop 6 ?s) = hd ?s" using l(1) by (cases ?s; auto)+
  have la: "\<not> is_space (last (take 6 ?s @ ''fffe'' @ drop 6 ?s))"
    using h ne(1) by (cases "drop 6 ?s = []") (auto simp: header_value_def is_space_def last_drop)
  have cr: "CHR 0x0D \<notin> set (take 6 ?s @ ''fffe'' @ drop 6 ?s)"
    using h by (auto simp: header_value_def dest: in_set_takeD in_set_dropD)
  define S where "S = take 6 ?s @ ''fffe'' @ drop 6 ?s"
  have S: "S \<noteq> []" "\<not> is_space (hd S)" "\<not> is_space (last S)" "CHR 0x0D \<notin> set S"
    using h ne la cr by (auto simp: S_def header_value_def)
  have "CHR 0x0D \<notin> upper_char ` set S" using S(4) is_space_upper(2) by (metis imageE)
  then show ?thesis unfolding header_value_def l(2) S_def [symmetric] using S(1-3)
    by (simp add: is_space_upper hd_map last_map)
qed

lemma header_value_location: "header_value (rs_advIP r) \<Longrightarrow> header_value (location r v)"
  by (auto simp: header_value_def location_def is_space_def Itoa_def dest!: itoa_no_cr)

lemma header_value_usn:
  assumes "header_value (id_Serial (rs_id r))" "id_Serial (rs_id r) \<noteq> []" "v \<in> set (ssdpVariants r)"
  shows "header_value (va_usn v) \<and> header_value (va_st v) \<and> header_value (va_nt v)"
proof -
  have c: "header_value ''2f402f80-da50-11e1-9b23-''" "header_value ''uuid:''" "header_value ''upnp:rootdevice''"
    "header_value ''::upnp:rootdevice''" "header_value ''urn:schemas-upnp-org:device:basic:1''"
    "header_value ''::urn:schemas-upnp-org:device:basic:1''"
    by code_simp+
  have u: "header_value (UUID (rs_id r))" "UUID (rs_id r) \<noteq> []"
    unfolding UUID_def using header_value_append [OF c(1) assms(1)] assms(2) by simp_all
  note hv = header_value_append [OF c(2) u(1)] header_value_append [OF c(2) header_value_append [OF u(1) c(4)]]
    header_value_append [OF c(2) header_value_append [OF u(1) c(6)]]
  show ?thesis using assms(3) hv c u(2) unfolding ssdpVariants_def Let_def
    by (simp only: list.set insert_iff empty_iff) (elim disjE; simp only: ssdpVariant.simps append_is_Nil_conv list.distinct; simp)
qed

text \<open>A message of such lines, parsed: the fields under their upper-case names, the last one winning.\<close>

lemma parse_search:
  assumes "header_value (rs_advIP r)" "header_value (id_Serial (rs_id r))" "BridgeID (rs_id r) = Some b" "v \<in> set (ssdpVariants r)"
  shows "parseHeaders (message (search_lines r b v)) =
    mput ''USN'' (va_usn v) (mput ''ST'' (va_st v) (mput ''HUE-BRIDGEID'' b (mput ''SERVER'' (serverHeader r)
      (mput ''LOCATION'' (location r v) (mput ''CACHE-CONTROL'' ''max-age=100'' (mput ''EXT'' []
      (mput ''HOST'' ''239.255.255.250:1900'' [])))))))"
proof -
  have ne: "id_Serial (rs_id r) \<noteq> []" using assms(3) by (auto simp: BridgeID_def Let_def split: if_splits)
  have hv: "header_value (location r v)" "header_value b" "header_value (va_usn v)" "header_value (va_st v)"
    "header_value (serverHeader r)" "header_value ''239.255.255.250:1900''" "header_value ''max-age=100''"
    using header_value_location [OF assms(1)] header_value_BridgeID [OF assms(2,3)] header_value_usn [OF assms(2) ne assms(4)]
    by (auto simp: serverHeader_def ServerHeaderDefault_def header_value_def is_space_def)
  have age: "Itoa (maxAge v) = ''100''" unfolding maxAge_def by code_simp
  have cr: "CHR 0x0D \<notin> set (field k w)" if "header_value w" "CHR 0x0D \<notin> set k" for k w
    using that by (simp add: field_def header_value_def)
  have lines: "\<forall>l\<in>set (search_lines r b v). CHR 0x0D \<notin> set l"
    using hv by (simp add: search_lines_def age cr)
  have keys: "ToUpper (TrimSpace ''HOST'') = ''HOST''" "ToUpper (TrimSpace ''CACHE-CONTROL'') = ''CACHE-CONTROL''"
    "ToUpper (TrimSpace ''LOCATION'') = ''LOCATION''" "ToUpper (TrimSpace ''SERVER'') = ''SERVER''"
    "ToUpper (TrimSpace ''hue-bridgeid'') = ''HUE-BRIDGEID''" "ToUpper (TrimSpace ''ST'') = ''ST''"
    "ToUpper (TrimSpace ''USN'') = ''USN''" "ToUpper (TrimSpace ''EXT'') = ''EXT''" "TrimSpace [] = []"
    by code_simp+
  have ext: "header_line ''EXT:'' out = mput ''EXT'' [] out" for out
    using header_line_put [of "''EXT''" "[]" out] by (simp add: keys)
  have skip: "header_line ''HTTP/1.1 200 OK'' out = out" "header_line [] out = out" for out
    by (rule header_line_skip, simp)+
  show ?thesis
    unfolding parseHeaders_def split_message [OF lines]
    by (simp add: search_lines_def age skip ext header_line_field hv keys)
qed

lemma search_loop_filter:
  "BridgeID (rs_id r) = Some b \<Longrightarrow>
   search_loop r st vs = Some (map (\<lambda>v. message (search_lines r b v)) (filter (targets st) vs))"
  by (induction vs) simp_all

section \<open>Property\<close>

text \<open>
  C39: the TV finds the bridge by SSDP.  A datagram is answered exactly when it is an \<open>M-SEARCH\<close> whose
  (case-insensitive) target is everything or one of the bridge's three, with one answer per target it
  asks for; and reading an answer with the responder's own header parser gives back the descriptor's
  address, the target, the unique name and the bridge id.
\<close>

theorem ssdp_answers:
  assumes "header_value (rs_advIP r)" "header_value (id_Serial (rs_id r))" "BridgeID (rs_id r) = Some b"
  shows "\<exists>out. handle_datagram r msg = Some out \<and>
    list_all2 (\<lambda>v m. mget (parseHeaders m) ''LOCATION'' = Some (location r v) \<and> mget (parseHeaders m) ''ST'' = Some (va_st v)
        \<and> mget (parseHeaders m) ''USN'' = Some (va_usn v) \<and> mget (parseHeaders m) ''HUE-BRIDGEID'' = Some b)
      (if HasPrefix msg ''M-SEARCH''
       then filter (targets (TrimSpace (hget (parseHeaders msg) ''ST''))) (ssdpVariants r) else []) out"
proof (cases "HasPrefix msg ''M-SEARCH''")
  case True
  let ?vs = "filter (targets (TrimSpace (hget (parseHeaders msg) ''ST''))) (ssdpVariants r)"
  have h: "handle_datagram r msg = Some (map (\<lambda>v. message (search_lines r b v)) ?vs)"
    using True by (simp add: handle_datagram_def searchResponses_def search_loop_filter [OF assms(3)])
  have "mget (parseHeaders (message (search_lines r b v))) ''LOCATION'' = Some (location r v)
      \<and> mget (parseHeaders (message (search_lines r b v))) ''ST'' = Some (va_st v)
      \<and> mget (parseHeaders (message (search_lines r b v))) ''USN'' = Some (va_usn v)
      \<and> mget (parseHeaders (message (search_lines r b v))) ''HUE-BRIDGEID'' = Some b" if "v \<in> set (ssdpVariants r)" for v
    unfolding parse_search [OF assms that] by (simp only: mget_put) simp
  then show ?thesis using True h by (auto simp: list_all2_map2 list_all2_same)
next
  case False
  then show ?thesis by (simp add: handle_datagram_def)
qed

definition demo_responder :: Responder where
  "demo_responder = NewResponder \<lparr>id_Serial = ''2c4d54ea2832''\<rparr> ''10.0.0.2'' 80"

lemma ssdp_answers_witness:
  "\<exists>m. handle_datagram demo_responder (message [''M-SEARCH * HTTP/1.1'', ''ST: UPNP:rootdevice'']) = Some [m]
     \<and> mget (parseHeaders m) ''LOCATION'' = Some ''http://10.0.0.2:80/description.xml''"
proof -
  let ?msg = "message [''M-SEARCH * HTTP/1.1'', ''ST: UPNP:rootdevice'']"
  have c: "header_value (rs_advIP demo_responder)" "header_value (id_Serial (rs_id demo_responder))" by code_simp+
  have b: "BridgeID (rs_id demo_responder) = Some ''2C4D54FFFEEA2832''" by code_simp
  have f: "filter (targets (TrimSpace (hget (parseHeaders ?msg) ''ST''))) (ssdpVariants demo_responder)
      = [\<lparr>va_st = ''upnp:rootdevice'', va_nt = ''upnp:rootdevice'',
          va_usn = ''uuid:2f402f80-da50-11e1-9b23-2c4d54ea2832::upnp:rootdevice''\<rparr>]"
    and p: "HasPrefix ?msg ''M-SEARCH''" by code_simp+
  have l: "location demo_responder v = ''http://10.0.0.2:80/description.xml''" for v
    unfolding location_def by code_simp
  show ?thesis using ssdp_answers [OF c b, of ?msg]
    unfolding f if_P [OF p] l by (auto simp: list_all2_Cons1)
qed

section \<open>The responder at work\<close>

text \<open>
  Sending a list of messages stops at the first that fails.  A destination is the multicast group or
  the sender of a search.
\<close>

datatype dest = Group | Host string

type_synonym 'n socket = "dest \<Rightarrow> string \<Rightarrow> 'n \<Rightarrow> bool \<times> 'n"

fun send_msgs :: "'n socket \<Rightarrow> dest \<Rightarrow> string list \<Rightarrow> 'n \<Rightarrow> 'n" where
  "send_msgs sock d [] n = n"
| "send_msgs sock d (m # ms) n = (case sock d m n of (ok, n1) \<Rightarrow> if ok then send_msgs sock d ms n1 else n1)"

definition sendNotify :: "'n socket \<Rightarrow> Responder \<Rightarrow> 'n \<Rightarrow> 'n option" where
  "sendNotify sock r n = map_option (\<lambda>ms. send_msgs sock Group ms n) (notifyMessages r)"

definition respond :: "'n socket \<Rightarrow> Responder \<Rightarrow> string \<Rightarrow> string \<Rightarrow> 'n \<Rightarrow> 'n option" where
  "respond sock r src msg n = map_option (\<lambda>ms. send_msgs sock (Host src) ms n) (handle_datagram r msg)"

text \<open>
  What wakes one of the responder's goroutines: the ticker of \<open>notifyLoop\<close> or of the burst, or the
  end of a read, with at most 2048 bytes of a datagram, a timeout, or another error.
\<close>

datatype wakeup = NotifyTick | BurstTick | ReadTimeout | ReadError | ReadFrom string string

fun run_wakeup :: "'n socket \<Rightarrow> Responder \<Rightarrow> 'n \<Rightarrow> wakeup \<Rightarrow> 'n option" where
  "run_wakeup sock r n NotifyTick = sendNotify sock r n"
| "run_wakeup sock r n BurstTick = (if rs_BurstDuration r > 0 then sendNotify sock r n else Some n)"
| "run_wakeup sock r n ReadTimeout = Some n"
| "run_wakeup sock r n ReadError = Some n"
| "run_wakeup sock r n (ReadFrom src data) = respond sock r src (take 2048 data) n"

text \<open>\<open>Run\<close> until its context ends: \<open>notifyLoop\<close> and the burst send once at once.\<close>

fun run_wakeups :: "'n socket \<Rightarrow> Responder \<Rightarrow> 'n \<Rightarrow> wakeup list \<Rightarrow> 'n option" where
  "run_wakeups sock r n [] = Some n"
| "run_wakeups sock r n (w # ws) = (case run_wakeup sock r n w of None \<Rightarrow> None | Some n1 \<Rightarrow> run_wakeups sock r n1 ws)"

definition Run :: "'n socket \<Rightarrow> Responder \<Rightarrow> 'n \<Rightarrow> wakeup list \<Rightarrow> 'n option" where
  "Run sock r n ws = run_wakeups sock r n (NotifyTick # BurstTick # ws)"

text \<open>The responder never stops by itself: with a usable identity no failing send or read ends it.\<close>

lemma run_wakeup_total: "BridgeID (rs_id r) = Some b \<Longrightarrow> \<exists>n'. run_wakeup sock r n w = Some n'"
  by (cases w) (auto simp: sendNotify_def respond_def notifyMessages_def handle_datagram_def searchResponses_def search_loop_filter)

lemma Run_total:
  assumes "BridgeID (rs_id r) = Some b" shows "\<exists>n'. Run sock r n ws = Some n'"
proof -
  have "\<exists>n'. run_wakeups sock r n vs = Some n'" for vs
  proof (induction vs arbitrary: n)
    case (Cons w vs)
    obtain n1 where "run_wakeup sock r n w = Some n1" using run_wakeup_total [OF assms, of sock n w] by blast
    then show ?case using Cons by simp
  qed simp
  then show ?thesis unfolding Run_def .
qed

text \<open>
  With a network that records what is sent: only the three announcements go to the group, and a host
  is sent something only after a search of its own that names the bridge.
\<close>

definition recorder :: "(dest \<times> string) list socket" where
  "recorder d m n = (True, n @ [(d, m)])"

lemma send_msgs_recorder: "send_msgs recorder d ms n = n @ map (Pair d) ms"
  by (induction ms arbitrary: n) (simp_all add: recorder_def)

definition wakeup_sends :: "Responder \<Rightarrow> string \<Rightarrow> wakeup \<Rightarrow> (dest \<times> string) list" where
  "wakeup_sends r b w = (case w of
     NotifyTick \<Rightarrow> map (\<lambda>v. (Group, message (notify_lines r b v))) (ssdpVariants r)
   | BurstTick \<Rightarrow> if rs_BurstDuration r > 0 then map (\<lambda>v. (Group, message (notify_lines r b v))) (ssdpVariants r) else []
   | ReadFrom src data \<Rightarrow> if HasPrefix (take 2048 data) ''M-SEARCH''
       then map (\<lambda>v. (Host src, message (search_lines r b v)))
         (filter (targets (TrimSpace (hget (parseHeaders (take 2048 data)) ''ST''))) (ssdpVariants r)) else []
   | _ \<Rightarrow> [])"

lemma run_wakeup_recorder:
  assumes "BridgeID (rs_id r) = Some b" shows "run_wakeup recorder r n w = Some (n @ wakeup_sends r b w)"
  by (cases w) (auto simp: assms sendNotify_def respond_def notifyMessages_def handle_datagram_def searchResponses_def
      search_loop_filter [OF assms] send_msgs_recorder wakeup_sends_def comp_def)

lemma Run_recorder:
  assumes "BridgeID (rs_id r) = Some b"
  shows "Run recorder r n ws = Some (n @ concat (map (wakeup_sends r b) (NotifyTick # BurstTick # ws)))"
proof -
  have "run_wakeups recorder r n vs = Some (n @ concat (map (wakeup_sends r b) vs))" for vs
    by (induction vs arbitrary: n) (simp_all add: run_wakeup_recorder [OF assms])
  then show ?thesis unfolding Run_def .
qed

end
