(* ===== verification/Mdns.thy ===== *)
theory Mdns
  imports ConfigStore
begin

text \<open>
  The mDNS side of being found: the service announced to the TV (\<open>internal/mdns/announce.go\<close>; the
  responder itself is a library), and the passive observer that reads the questions in other hosts'
  packets (\<open>internal/diag/mdns.go\<close>).  A packet is a list of bytes, numbers below 256.
\<close>

section \<open>The announced service\<close>

record serviceSpec =
  sp_instance :: string
  sp_service :: string
  sp_domain :: string
  sp_host :: string
  sp_txt :: "string list"

text \<open>The characters the DNS library escapes in a name.\<close>

definition special_chars :: string where
  "special_chars = [CHR '' '', CHR ''.'', CHR 0x5C, CHR 0x22, CHR 0x27, CHR '';'', CHR ''@'', CHR ''('', CHR '')'']"

definition escapeLabel :: "string \<Rightarrow> string" where
  "escapeLabel label = concat (map (\<lambda>c. if c \<in> set special_chars then [CHR 0x5C, c] else [c]) label)"

definition serviceSpec_of :: "Identity \<Rightarrow> serviceSpec option" where
  "serviceSpec_of i =
     (case BridgeID i of None \<Rightarrow> None
      | Some bridgeID \<Rightarrow> Some \<lparr>sp_instance = ''Philips Hue - '' @ drop (length bridgeID - 6) bridgeID,
          sp_service = ''_hue._tcp'', sp_domain = ''local.'', sp_host = id_Serial i,
          sp_txt = [''bridgeid='' @ bridgeID, ''modelid=BSB002'']\<rparr>)"

text \<open>The arguments of the library's \<open>NewMDNSService\<close>: instance, service, domain, host name, port, TXT.\<close>

definition newService :: "serviceSpec \<Rightarrow> int \<Rightarrow> string \<times> string \<times> string \<times> string \<times> int \<times> string list" where
  "newService spec port =
     (escapeLabel (sp_instance spec), sp_service spec, sp_domain spec, sp_host spec @ ''.'' @ sp_domain spec, port, sp_txt spec)"

text \<open>What reading an escaped label gives back: the wire form.\<close>

fun unescape :: "string \<Rightarrow> string" where
  "unescape (c # d # s) = (if c = CHR 0x5C then d # unescape s else c # unescape (d # s))"
| "unescape s = s"

lemma unescape_plain: "c \<noteq> CHR 0x5C \<Longrightarrow> unescape (c # s) = c # unescape s"
  by (cases s) auto

lemma unescape_escape: "unescape (escapeLabel label @ s) = label @ unescape s"
proof (induction label)
  case (Cons c label)
  have "CHR 0x5C \<in> set special_chars" by (simp add: special_chars_def)
  then have "c \<notin> set special_chars \<Longrightarrow> c \<noteq> CHR 0x5C" by blast
  then show ?case using Cons by (cases "c \<in> set special_chars") (simp_all add: escapeLabel_def unescape_plain)
qed (simp add: escapeLabel_def)

lemma escapeLabel_inverse: "unescape (escapeLabel label) = label"
  using unescape_escape [of label "[]"] by simp

section \<open>Reading questions\<close>

text \<open>
  \<open>readName\<close>: the labels from an offset on, following compression pointers.  The loop ends: a label
  moves the offset forward inside the packet, and a pointer uses up one of at most \<open>length msg\<close> jumps.
\<close>

definition byte_at :: "nat list \<Rightarrow> nat \<Rightarrow> nat" where
  "byte_at msg i = msg ! i"

function read_loop :: "nat list \<Rightarrow> string list \<Rightarrow> bool \<Rightarrow> nat \<Rightarrow> nat \<Rightarrow> nat \<Rightarrow> (string list \<times> nat) option" where
  "read_loop msg labels jumped nxt jumps off =
     (if \<not> off < length msg then None
      else let l = byte_at msg off in
        if l = 0 then Some (labels, if jumped then nxt else off + 1)
        else if l div 64 = 3 then
          (if \<not> off + 1 < length msg \<or> jumps + 1 > length msg then None
           else read_loop msg labels True (if jumped then nxt else off + 2) (jumps + 1)
                  (l mod 64 * 256 + byte_at msg (off + 1)))
        else if off + 1 + l > length msg then None
        else read_loop msg (labels @ [map char_of (take l (drop (off + 1) msg))]) jumped nxt jumps (off + 1 + l))"
  by auto
termination
  by (relation "inv_image (less_than <*lex*> less_than) (\<lambda>(msg, labels, jumped, nxt, jumps, off). (length msg - jumps, length msg - off))")
    auto

declare read_loop.simps [simp del]

definition readName :: "nat list \<Rightarrow> nat \<Rightarrow> (string \<times> nat) option" where
  "readName msg off = map_option (\<lambda>(labels, nxt). (str_Join labels ''.'', nxt)) (read_loop msg [] False off 0 off)"

fun question_loop :: "nat list \<Rightarrow> nat \<Rightarrow> nat \<Rightarrow> string list" where
  "question_loop msg 0 off = []"
| "question_loop msg (Suc q) off =
     (if \<not> off < length msg then []
      else (case readName msg off of None \<Rightarrow> [] | Some (name, nxt) \<Rightarrow> name # question_loop msg q (nxt + 4)))"

definition dnsQuestionNames :: "nat list \<Rightarrow> string list" where
  "dnsQuestionNames msg =
     (if length msg < 12 then [] else question_loop msg (byte_at msg 4 * 256 + byte_at msg 5) 12)"

definition shouldLogMDNS :: "string \<Rightarrow> bool \<Rightarrow> string list \<Rightarrow> bool" where
  "shouldLogMDNS tvIP fromTV names =
     (if tvIP \<noteq> [] \<and> fromTV then names \<noteq> [] else (\<exists>name\<in>set names. Contains (ToLower name) ''hue''))"

definition inspect :: "string \<Rightarrow> bool \<Rightarrow> nat list \<Rightarrow> string list" where
  "inspect tvIP fromTV msg =
     (let names = dnsQuestionNames msg in if shouldLogMDNS tvIP fromTV names then names else [])"

section \<open>What the observer reads\<close>

definition enc_name :: "string list \<Rightarrow> nat list" where
  "enc_name labels = concat (map (\<lambda>l. length l # map of_char l) labels) @ [0]"

definition label_ok :: "string \<Rightarrow> bool" where
  "label_ok l \<longleftrightarrow> l \<noteq> [] \<and> length l < 64"

lemma read_loop_enc:
  "list_all label_ok ls \<Longrightarrow> msg = pre @ enc_name ls @ post \<Longrightarrow> off = length pre \<Longrightarrow>
   read_loop msg acc j n k off = Some (acc @ ls, if j then n else off + length (enc_name ls))"
proof (induction ls arbitrary: pre acc off)
  case Nil
  then show ?case by (subst read_loop.simps) (simp add: enc_name_def byte_at_def)
next
  case (Cons l ls)
  let ?pre = "pre @ length l # map of_char l"
  have l: "l \<noteq> []" "length l < 64" using Cons.prems(1) by (simp_all add: label_ok_def)
  have msg: "msg = ?pre @ enc_name ls @ post" using Cons.prems(2) by (simp add: enc_name_def)
  have at: "byte_at msg off = length l" "off + 1 + length l \<le> length msg"
    using Cons.prems(2,3) by (simp_all add: enc_name_def byte_at_def nth_append)
  have tk: "map char_of (take (length l) (drop (off + 1) msg)) = l"
    using Cons.prems(2,3) by (simp add: enc_name_def map_idI)
  have "read_loop msg acc j n k off = read_loop msg (acc @ [l]) j n k (off + 1 + length l)"
    using at l tk by (subst read_loop.simps) (simp add: Let_def)
  also have "\<dots> = Some ((acc @ [l]) @ ls, if j then n else off + 1 + length l + length (enc_name ls))"
    using Cons.prems(1,3) by (intro Cons.IH [OF _ msg]) simp_all
  finally show ?case by (simp add: enc_name_def)
qed

text \<open>An uncompressed packet with any number of questions is read back question by question.\<close>

definition enc_question :: "string list \<times> nat list \<Rightarrow> nat list" where
  "enc_question q = enc_name (fst q) @ snd q"

lemma question_loop_enc:
  "\<forall>q\<in>set qs. list_all label_ok (fst q) \<and> length (snd q) = 4 \<Longrightarrow> msg = pre @ concat (map enc_question qs) @ post \<Longrightarrow>
   off = length pre \<Longrightarrow> question_loop msg (length qs) off = map (\<lambda>q. str_Join (fst q) ''.'') qs"
proof (induction qs arbitrary: pre off)
  case (Cons q qs)
  have q: "list_all label_ok (fst q)" "length (snd q) = 4" using Cons.prems(1) by auto
  have "read_loop msg [] False off 0 off = Some (fst q, off + length (enc_name (fst q)))"
  proof -
    have "msg = pre @ enc_name (fst q) @ (snd q @ concat (map enc_question qs) @ post)"
      using Cons.prems(2) by (simp add: enc_question_def [of q])
    from read_loop_enc [OF q(1) this Cons.prems(3), of "[]" False off 0] show ?thesis by simp
  qed
  moreover have "question_loop msg (length qs) (off + length (enc_name (fst q)) + 4) = map (\<lambda>q. str_Join (fst q) ''.'') qs"
    by (rule Cons.IH [of "pre @ enc_question q"]) (use Cons.prems q in \<open>auto simp: enc_question_def\<close>)
  moreover have "off < length msg" using Cons.prems(2,3) by (simp add: enc_question_def enc_name_def)
  ultimately show ?case by (simp add: readName_def)
qed simp

lemma dnsQuestionNames_enc:
  assumes "\<forall>q\<in>set qs. list_all label_ok (fst q) \<and> length (snd q) = 4" "length h = 4" "length h' = 6"
  shows "dnsQuestionNames (h @ [length qs div 256, length qs mod 256] @ h' @ concat (map enc_question qs))
    = map (\<lambda>q. str_Join (fst q) ''.'') qs"
proof -
  let ?pre = "h @ [length qs div 256, length qs mod 256] @ h'"
  let ?msg = "?pre @ concat (map enc_question qs)"
  have b: "byte_at ?msg 4 = length qs div 256" "byte_at ?msg 5 = length qs mod 256"
    using assms(2) by (simp_all add: byte_at_def nth_append)
  have "question_loop ?msg (length qs) 12 = map (\<lambda>q. str_Join (fst q) ''.'') qs"
    using question_loop_enc [OF assms(1), of ?msg ?pre "[]" 12] assms(2,3) by simp
  then have "dnsQuestionNames ?msg = map (\<lambda>q. str_Join (fst q) ''.'') qs"
    using assms(2,3) unfolding dnsQuestionNames_def b by simp
  then show ?thesis by simp
qed

text \<open>A packet whose pointers chase each other is given up on.\<close>

lemma pointer_cycle: "readName [0xC0, 2, 0xC0, 0] 0 = None"
  by (simp add: readName_def read_loop.simps byte_at_def Let_def)

end
