(* ===== verification/UiServer.thy ===== *)
theory UiServer
  imports WebUi Systems "HOL-Library.Sublist"
begin

text \<open>
  The web UI's server (\<open>internal/webui/server.go\<close>, \<open>hub.go\<close>): its routes, and the streams of frames
  to the connected browsers as one transition system.  The event handler of each browser, the
  goroutines that publish, the snapshot loop and the shutdown take steps in any order.  A publication is
  two steps, as in the code: the hub's own state under its mutex, then, with the mutex released, the
  fan-out.  The fan-out itself (\<open>kit/sse\<close>) is a library: its operations are a parameter, and what
  \<open>hub.go\<close> relies on is the locale \<open>fan_out\<close>.  A subscription is a Go channel, whose content is \<open>queue\<close>.
\<close>

section \<open>Routes\<close>

text \<open>
  \<open>probe\<close> stands for the patterns \<open>httpx.Health\<close> registers.  \<open>GET\<close> patterns answer \<open>HEAD\<close> too; as \<open>GET /\<close>
  matches every path, another method is refused.  The page's shell is served for \<open>/\<close> and \<open>/index.html\<close>
  only.  Paths are clean.
\<close>

datatype ui_route = UiState | UiEvents | UiHealth | UiShell | UiAsset string | UiMethodNotAllowed

definition shell_route :: "string \<Rightarrow> bool" where
  "shell_route p \<longleftrightarrow> p = ''/'' \<or> p = ''/index.html''"

definition ui_routes :: "(string \<Rightarrow> string \<Rightarrow> bool) \<Rightarrow> string \<Rightarrow> string \<Rightarrow> ui_route" where
  "ui_routes probe meth path =
     (if probe meth path then UiHealth
      else if meth \<noteq> ''GET'' \<and> meth \<noteq> ''HEAD'' then UiMethodNotAllowed
      else if path = ''/api/state'' then UiState
      else if path = ''/api/events'' then UiEvents
      else if shell_route path then UiShell
      else UiAsset path)"

section \<open>The fan-out library\<close>

record 'f fanout =
  fn_NewHub :: "nat \<Rightarrow> 'f"
  fn_Publish :: "frame \<Rightarrow> 'f \<Rightarrow> 'f"
  fn_PublishLatest :: "frame \<Rightarrow> 'f \<Rightarrow> 'f"
  fn_Subscribe :: "'f \<Rightarrow> (nat \<times> 'f) option"
  fn_Cancel :: "nat \<Rightarrow> 'f \<Rightarrow> 'f"
  fn_Close :: "'f \<Rightarrow> 'f"
  fn_Len :: "'f \<Rightarrow> nat"
  fn_recv :: "nat \<Rightarrow> 'f \<Rightarrow> (frame option \<times> 'f) option"

text \<open>
  What \<open>hub.go\<close> states of it: a subscriber whose buffer is full misses a published frame; for the latest
  frame its oldest one is evicted; a cancelled subscription is removed and closed; after \<open>Close\<close> nobody is
  subscribed and nobody can subscribe.  Receiving takes the oldest frame, waits on an empty open channel
  and reports the end of a closed one.
\<close>

locale fan_out =
  fixes F :: "'f fanout" and subs :: "'f \<Rightarrow> nat set" and queue :: "'f \<Rightarrow> nat \<Rightarrow> frame list"
    and is_closed :: "'f \<Rightarrow> bool" and depth :: "'f \<Rightarrow> nat"
  assumes new_hub: "subs (fn_NewHub F n) = {}" "\<not> is_closed (fn_NewHub F n)" "depth (fn_NewHub F n) = n"
    and publish: "subs (fn_Publish F f s) = subs s" "is_closed (fn_Publish F f s) = is_closed s"
      "depth (fn_Publish F f s) = depth s"
      "queue (fn_Publish F f s) c = (if c \<in> subs s \<and> length (queue s c) < depth s then queue s c @ [f] else queue s c)"
    and latest: "subs (fn_PublishLatest F f s) = subs s" "is_closed (fn_PublishLatest F f s) = is_closed s"
      "depth (fn_PublishLatest F f s) = depth s"
      "queue (fn_PublishLatest F f s) c = (if c \<notin> subs s then queue s c
         else if length (queue s c) < depth s then queue s c @ [f] else tl (queue s c) @ [f])"
    and subscribe_closed: "is_closed s \<Longrightarrow> fn_Subscribe F s = None"
    and subscribe_open: "\<not> is_closed s \<Longrightarrow> \<exists>c s'. fn_Subscribe F s = Some (c, s') \<and> c \<notin> subs s \<and> subs s' = insert c (subs s)
      \<and> \<not> is_closed s' \<and> depth s' = depth s \<and> queue s' = (queue s)(c := [])"
    and cancel: "subs (fn_Cancel F c s) = subs s - {c}" "is_closed (fn_Cancel F c s) = is_closed s"
      "depth (fn_Cancel F c s) = depth s" "queue (fn_Cancel F c s) = queue s"
    and close: "subs (fn_Close F s) = {}" "is_closed (fn_Close F s)" "depth (fn_Close F s) = depth s"
      "queue (fn_Close F s) = queue s"
    and len: "fn_Len F s = 0 \<longleftrightarrow> subs s = {}"
    and recv_frame: "queue s c = f # q \<Longrightarrow> \<exists>s'. fn_recv F c s = Some (Some f, s') \<and> subs s' = subs s
      \<and> is_closed s' = is_closed s \<and> depth s' = depth s \<and> queue s' = (queue s)(c := q)"
    and recv_empty: "queue s c = [] \<Longrightarrow> fn_recv F c s = (if c \<in> subs s then None else Some (None, s))"

section \<open>The server with its browsers\<close>

definition subBuffer :: nat where
  "subBuffer = 32"

text \<open>
  One browser on \<open>/api/events\<close>: the position of its handler, and what was written to it.  The rest records
  history: the tail that was copied, the frames received from the subscription, and how many frames
  had been fanned out when it was made.
\<close>

datatype sse_phase = Accepted | Tailing | Replaying "event list" | Live nat | Ended

record client =
  cl_phase :: sse_phase
  cl_out :: "frame list"
  cl_tail :: "event list"
  cl_got :: "frame list"
  cl_at :: nat

text \<open>\<open>ui_pending\<close>: publications between the two steps.  \<open>ui_fanned\<close>: the frames fanned out so far.\<close>

record 'f ui_sys =
  ui_hub :: hub
  ui_fan :: 'f
  ui_pending :: "frame list"
  ui_fanned :: "frame list"
  ui_clients :: "client list"
  ui_cancelled :: bool

definition ui_start :: "'f fanout \<Rightarrow> int \<Rightarrow> 'f ui_sys" where
  "ui_start F ringSize = \<lparr>ui_hub = NewHub ringSize, ui_fan = fn_NewHub F subBuffer, ui_pending = [], ui_fanned = [],
     ui_clients = [], ui_cancelled = False\<rparr>"

definition hub_Publish :: "event \<Rightarrow> 'f ui_sys \<Rightarrow> 'f ui_sys" where
  "hub_Publish e s = s\<lparr>ui_hub := PublishEvent e (ui_hub s), ui_pending := ui_pending s @ [EventFrame e]\<rparr>"

definition hub_SetSnapshot :: "snapshot \<Rightarrow> 'f ui_sys \<Rightarrow> 'f ui_sys" where
  "hub_SetSnapshot snap s = s\<lparr>ui_hub := SetSnapshot snap (ui_hub s), ui_pending := ui_pending s @ [SnapshotFrame snap]\<rparr>"

definition fan_frame :: "'f fanout \<Rightarrow> frame \<Rightarrow> 'f \<Rightarrow> 'f" where
  "fan_frame F f h = (case f of EventFrame e \<Rightarrow> fn_Publish F f h | SnapshotFrame p \<Rightarrow> fn_PublishLatest F f h)"

definition hasSubscribers :: "'f fanout \<Rightarrow> 'f ui_sys \<Rightarrow> bool" where
  "hasSubscribers F s \<longleftrightarrow> fn_Len F (ui_fan s) > 0"

definition runSnapshotLoop_tick :: "'f fanout \<Rightarrow> state_source \<Rightarrow> 'f ui_sys \<Rightarrow> 'f ui_sys" where
  "runSnapshotLoop_tick F src s = (if hasSubscribers F s then hub_SetSnapshot (BuildSnapshot src) s else s)"

text \<open>
  The steps of \<open>handleEvents\<close>.  The flag of a step that writes says whether \<open>SendJSON\<close> succeeded.  Leaving
  the handler runs the deferred \<open>cancel\<close>, once there is a subscription.
\<close>

datatype sse_step = Paint state_source bool | CopyTail | ReplayEvent bool | Join | Receive bool | SeeCancel | SeeGone

definition leave :: "'f fanout \<Rightarrow> client \<Rightarrow> 'f \<Rightarrow> client \<times> 'f" where
  "leave F c h = (c\<lparr>cl_phase := Ended\<rparr>, case cl_phase c of Live ch \<Rightarrow> fn_Cancel F ch h | _ \<Rightarrow> h)"

definition emit :: "frame \<Rightarrow> client \<Rightarrow> client" where
  "emit f c = c\<lparr>cl_out := cl_out c @ [f]\<rparr>"

fun handleEvents_step :: "'f fanout \<Rightarrow> 'f ui_sys \<Rightarrow> client \<Rightarrow> sse_step \<Rightarrow> (client \<times> 'f) option" where
  "handleEvents_step F s c (Paint src ok) =
     (if cl_phase c \<noteq> Accepted then None
      else Some (if ok then ((emit (SnapshotFrame (BuildSnapshot src)) c)\<lparr>cl_phase := Tailing\<rparr>, ui_fan s)
        else leave F c (ui_fan s)))"
| "handleEvents_step F s c CopyTail =
     (if cl_phase c \<noteq> Tailing then None
      else Some (c\<lparr>cl_phase := Replaying (Events (ui_hub s)), cl_tail := Events (ui_hub s)\<rparr>, ui_fan s))"
| "handleEvents_step F s c (ReplayEvent ok) =
     (case cl_phase c of
        Replaying (e # es) \<Rightarrow>
          Some (if ok then ((emit (EventFrame e) c)\<lparr>cl_phase := Replaying es\<rparr>, ui_fan s) else leave F c (ui_fan s))
      | _ \<Rightarrow> None)"
| "handleEvents_step F s c Join =
     (case cl_phase c of
        Replaying [] \<Rightarrow>
          (case fn_Subscribe F (ui_fan s) of
             None \<Rightarrow> Some (leave F c (ui_fan s))
           | Some (ch, h) \<Rightarrow> Some (c\<lparr>cl_phase := Live ch, cl_at := length (ui_fanned s)\<rparr>, h))
      | _ \<Rightarrow> None)"
| "handleEvents_step F s c (Receive ok) =
     (case cl_phase c of
        Live ch \<Rightarrow>
          (case fn_recv F ch (ui_fan s) of
             None \<Rightarrow> None
           | Some (None, h) \<Rightarrow> Some (leave F c h)
           | Some (Some f, h) \<Rightarrow>
               if ui_cancelled s \<or> \<not> ok then Some (leave F c h)
               else Some ((emit f c)\<lparr>cl_got := cl_got c @ [f]\<rparr>, h))
      | _ \<Rightarrow> None)"
| "handleEvents_step F s c SeeCancel =
     (case cl_phase c of Live ch \<Rightarrow> if ui_cancelled s then Some (leave F c (ui_fan s)) else None | _ \<Rightarrow> None)"
| "handleEvents_step F s c SeeGone =
     (case cl_phase c of Live ch \<Rightarrow> Some (leave F c (ui_fan s)) | _ \<Rightarrow> None)"

text \<open>
  The request context is cancelled on shutdown, and by a browser that goes away only for its own
  request, which \<open>SeeGone\<close> covers.
\<close>

datatype ui_event =
    UPublish event
  | USnapshot snapshot
  | UTick state_source
  | UFan nat
  | UConnect bool
  | UHandler nat sse_step
  | UCancel
  | UClose

definition newClient :: "bool \<Rightarrow> client" where
  "newClient flushable = \<lparr>cl_phase = (if flushable then Accepted else Ended), cl_out = [], cl_tail = [], cl_got = [], cl_at = 0\<rparr>"

fun ui_next :: "'f fanout \<Rightarrow> 'f ui_sys \<Rightarrow> ui_event \<Rightarrow> 'f ui_sys option" where
  "ui_next F s (UPublish e) = Some (hub_Publish e s)"
| "ui_next F s (USnapshot snap) = Some (hub_SetSnapshot snap s)"
| "ui_next F s (UTick src) = Some (runSnapshotLoop_tick F src s)"
| "ui_next F s (UFan k) =
     (if k < length (ui_pending s)
      then let f = ui_pending s ! k in
        Some (s\<lparr>ui_pending := take k (ui_pending s) @ drop (Suc k) (ui_pending s),
          ui_fan := fan_frame F f (ui_fan s), ui_fanned := ui_fanned s @ [f]\<rparr>)
      else None)"
| "ui_next F s (UConnect flushable) = Some (s\<lparr>ui_clients := ui_clients s @ [newClient flushable]\<rparr>)"
| "ui_next F s (UHandler i st) =
     (if i < length (ui_clients s)
      then (case handleEvents_step F s (ui_clients s ! i) st of
          None \<Rightarrow> None
        | Some (c, h) \<Rightarrow> Some (s\<lparr>ui_clients := (ui_clients s)[i := c], ui_fan := h\<rparr>))
      else None)"
| "ui_next F s UCancel = Some (s\<lparr>ui_cancelled := True\<rparr>)"
| "ui_next F s UClose = Some (s\<lparr>ui_fan := fn_Close F (ui_fan s)\<rparr>)"

definition ui_step :: "'f fanout \<Rightarrow> 'f ui_sys \<Rightarrow> ui_event \<Rightarrow> 'f ui_sys \<Rightarrow> bool" where
  "ui_step F s e s' \<longleftrightarrow> ui_next F s e = Some s'"

section \<open>The invariant\<close>

definition is_snap :: "frame \<Rightarrow> bool" where
  "is_snap f = (case f of SnapshotFrame p \<Rightarrow> True | EventFrame e \<Rightarrow> False)"

text \<open>The snapshot sent last in a sequence of frames, if any, occurs in another.\<close>

definition freshest_in :: "frame list \<Rightarrow> frame list \<Rightarrow> bool" where
  "freshest_in sent xs \<longleftrightarrow> (case find is_snap (rev sent) of None \<Rightarrow> True | Some f \<Rightarrow> f \<in> set xs)"

lemma freshest_Nil [simp]: "freshest_in [] xs"
  by (simp add: freshest_in_def)

lemma freshest_mono: "freshest_in sent xs \<Longrightarrow> set xs \<subseteq> set ys \<Longrightarrow> freshest_in sent ys"
  by (auto simp: freshest_in_def split: option.splits)

lemma freshest_snoc [simp]:
  "freshest_in (sent @ [EventFrame e]) xs = freshest_in sent xs"
  "freshest_in (sent @ [SnapshotFrame p]) xs = (SnapshotFrame p \<in> set xs)"
  by (simp_all add: freshest_in_def is_snap_def)

lemma subseq_tail: "subseq (g @ q) w \<Longrightarrow> subseq (g @ tl q) w"
  by (cases q) (auto intro: subseq_order.order_trans [OF list_emb_append_mono [OF subseq_order.order_refl]])

lemma subseq_snoc_both: "subseq (g @ q) w \<Longrightarrow> subseq (g @ q @ [f]) (w @ [f])"
  using subseq_append [of "g @ q" "[f]" w] by simp

lemma freshest_more: "freshest_in sent (g @ q) \<Longrightarrow> freshest_in sent (g @ q @ [f])"
  by (erule freshest_mono) auto

lemma subseq_snoc_right: "subseq xs w \<Longrightarrow> subseq xs (w @ [f])"
  by (rule subseq_order.order_trans [OF _ subseq_rev_drop_many]) simp_all

text \<open>What a browser was sent: the first snapshot, the tail, and live frames once the tail is through.\<close>

definition painted :: "client \<Rightarrow> bool" where
  "painted c \<longleftrightarrow> (\<exists>snap k. cl_out c = SnapshotFrame snap # map EventFrame (take k (cl_tail c)) @ cl_got c
     \<and> (cl_got c \<noteq> [] \<longrightarrow> length (cl_tail c) \<le> k))"

definition sent_since :: "client \<Rightarrow> frame list \<Rightarrow> frame list" where
  "sent_since c fanned = drop (cl_at c) fanned"

lemma sent_since_snoc: "cl_at c \<le> length w \<Longrightarrow> sent_since c (w @ [f]) = sent_since c w @ [f]"
  by (simp add: sent_since_def)

text \<open>A subscription: \<open>q\<close> is the content of its channel, \<open>w\<close> everything fanned out so far.\<close>

definition sub_ok :: "client \<Rightarrow> frame list \<Rightarrow> frame list \<Rightarrow> bool \<Rightarrow> bool" where
  "sub_ok c q w shut \<longleftrightarrow> cl_at c \<le> length w \<and> length q \<le> subBuffer \<and> subseq (cl_got c @ q) (sent_since c w)
     \<and> (shut \<or> (length (sent_since c w) \<le> subBuffer \<longrightarrow> cl_got c @ q = sent_since c w)
          \<and> freshest_in (sent_since c w) (cl_got c @ q))"

definition client_ok :: "client \<Rightarrow> (nat \<Rightarrow> frame list) \<Rightarrow> frame list \<Rightarrow> bool \<Rightarrow> nat \<Rightarrow> bool" where
  "client_ok c q w shut R \<longleftrightarrow>
     (case cl_phase c of
        Accepted \<Rightarrow> cl_out c = [] \<and> cl_got c = []
      | Tailing \<Rightarrow> (\<exists>snap. cl_out c = [SnapshotFrame snap]) \<and> cl_got c = []
      | Replaying es \<Rightarrow> cl_got c = [] \<and> length es \<le> R \<and> (\<exists>snap pre. cl_tail c = pre @ es
          \<and> cl_out c = SnapshotFrame snap # map EventFrame pre)
      | Live ch \<Rightarrow> (\<exists>snap. cl_out c = SnapshotFrame snap # map EventFrame (cl_tail c) @ cl_got c) \<and> sub_ok c (q ch) w shut
      | Ended \<Rightarrow> (cl_out c = [] \<and> cl_got c = [] \<or> painted c) \<and> (cl_got c \<noteq> [] \<longrightarrow> cl_at c \<le> length w)
          \<and> subseq (cl_got c) (sent_since c w))"

text \<open>The channel a browser holds, if any.\<close>

definition own :: "client \<Rightarrow> nat set" where
  "own c = (case cl_phase c of Live ch \<Rightarrow> {ch} | _ \<Rightarrow> {})"

definition live_channels :: "client list \<Rightarrow> nat set" where
  "live_channels cs = (\<Union>c\<in>set cs. own c)"

definition apart :: "client list \<Rightarrow> bool" where
  "apart cs \<longleftrightarrow> (\<forall>i<length cs. \<forall>j<length cs. i \<noteq> j \<longrightarrow> own (cs ! i) \<inter> own (cs ! j) = {})"

lemma own_simps [simp]:
  "cl_phase c = Live ch \<Longrightarrow> own c = {ch}" "own (c\<lparr>cl_phase := Live ch\<rparr>) = {ch}" "own (c\<lparr>cl_phase := Ended\<rparr>) = {}"
  "own (c\<lparr>cl_phase := Tailing\<rparr>) = {}" "own (c\<lparr>cl_phase := Replaying es\<rparr>) = {}" "own (emit f c) = own c"
  "own (c\<lparr>cl_got := g\<rparr>) = own c" "own (c\<lparr>cl_at := n\<rparr>) = own c" "own (c\<lparr>cl_tail := es\<rparr>) = own c"
  by (simp_all add: own_def emit_def)

lemma own_none: "cl_phase c \<in> {Accepted, Tailing, Ended} \<or> cl_phase c = Replaying es \<Longrightarrow> own c = {}"
  by (auto simp: own_def)

lemma own_leave [simp]: "own (fst (leave F c h)) = {}"
  by (simp add: leave_def)

lemma client_ok_local:
  "client_ok c q w b R \<Longrightarrow> (\<And>ch. ch \<in> own c \<Longrightarrow> q' ch = q ch) \<Longrightarrow> client_ok c q' w b R"
  by (auto simp: client_ok_def own_def split: sse_phase.splits)

lemma client_ok_shut: "client_ok c q w b R \<Longrightarrow> client_ok c q w True R"
  by (auto simp: client_ok_def sub_ok_def split: sse_phase.splits)

lemma live_channels_nth: "live_channels cs = (\<Union>j<length cs. own (cs ! j))"
  by (auto simp: live_channels_def set_conv_nth)

lemma live_channels_split: "i < length cs \<Longrightarrow> live_channels cs = own (cs ! i) \<union> (\<Union>j\<in>{..<length cs} - {i}. own (cs ! j))"
  unfolding live_channels_nth by auto

lemma live_channels_update:
  assumes "apart cs" "i < length cs" shows "live_channels (cs[i := c]) = live_channels cs - own (cs ! i) \<union> own c"
proof -
  let ?rest = "\<Union>j\<in>{..<length cs} - {i}. own (cs ! j)"
  have "own (cs ! j) \<inter> own (cs ! i) = {}" if "j \<in> {..<length cs} - {i}" for j using assms that by (auto simp: apart_def)
  then have "?rest \<inter> own (cs ! i) = {}" by blast
  moreover have "live_channels (cs[i := c]) = own c \<union> ?rest"
    using assms(2) live_channels_split [of i "cs[i := c]"] by simp
  ultimately show ?thesis unfolding live_channels_split [OF assms(2)] by blast
qed

lemma apart_update:
  assumes "apart cs" "i < length cs" "own c \<inter> (live_channels cs - own (cs ! i)) = {}"
  shows "apart (cs[i := c])"
proof -
  have "own c \<inter> own (cs ! j) = {}" if "j < length cs" "j \<noteq> i" for j
  proof -
    have "own (cs ! j) \<subseteq> live_channels cs" using that by (auto simp: live_channels_nth)
    then show ?thesis using assms that unfolding apart_def by blast
  qed
  then show ?thesis using assms(1,2) by (auto simp: apart_def nth_list_update)
qed

text \<open>
  How many steps a handler may still take once the request context is cancelled and the hub closed,
  with a ring of at most \<open>R\<close> events.
\<close>

definition steps_left :: "nat \<Rightarrow> client \<Rightarrow> nat" where
  "steps_left R c = (case cl_phase c of Accepted \<Rightarrow> R + 3 | Tailing \<Rightarrow> R + 2 | Replaying es \<Rightarrow> length es + 1 | Live ch \<Rightarrow> 1 | Ended \<Rightarrow> 0)"

text \<open>The steps of one handler in a run.\<close>

definition own_step :: "nat \<Rightarrow> ui_event \<Rightarrow> bool" where
  "own_step i e \<longleftrightarrow> (\<exists>st. e = UHandler i st)"

section \<open>The invariant is kept\<close>

context fan_out
begin

definition ui_inv :: "'f ui_sys \<Rightarrow> bool" where
  "ui_inv s \<longleftrightarrow> depth (ui_fan s) = subBuffer \<and> 1 \<le> hb_ringSize (ui_hub s)
     \<and> int (length (hb_events (ui_hub s))) \<le> hb_ringSize (ui_hub s)
     \<and> subs (ui_fan s) = (if is_closed (ui_fan s) then {} else live_channels (ui_clients s)) \<and> apart (ui_clients s)
     \<and> (\<forall>c\<in>set (ui_clients s). client_ok c (queue (ui_fan s)) (ui_fanned s) (is_closed (ui_fan s)) (nat (hb_ringSize (ui_hub s))))"

lemma fan_frame_same:
  "subs (fan_frame F f h) = subs h" "is_closed (fan_frame F f h) = is_closed h" "depth (fan_frame F f h) = depth h"
  by (cases f; simp add: fan_frame_def publish latest)+

lemma sub_ok_fan:
  assumes "sub_ok c (queue h ch) w (is_closed h)" "depth h = subBuffer" "if is_closed h then subs h = {} else ch \<in> subs h"
  shows "sub_ok c (queue (fan_frame F f h) ch) (w @ [f]) (is_closed h)"
proof (cases "is_closed h")
  case True
  then have "queue (fan_frame F f h) ch = queue h ch" using assms(3) by (cases f) (simp_all add: fan_frame_def publish latest)
  then show ?thesis using assms(1) True by (auto simp: sub_ok_def sent_since_snoc intro: subseq_snoc_right)
next
  case opn: False
  let ?q = "queue h ch"
  have ch: "ch \<in> subs h" using opn assms(3) by simp
  have at: "cl_at c \<le> length w" "length ?q \<le> subBuffer" "subseq (cl_got c @ ?q) (sent_since c w)"
    and all: "length (sent_since c w) \<le> subBuffer \<Longrightarrow> cl_got c @ ?q = sent_since c w"
    and fr: "freshest_in (sent_since c w) (cl_got c @ ?q)"
    using assms(1) opn by (auto simp: sub_ok_def)
  have room: "length ?q < subBuffer" if "length (sent_since c w) < subBuffer"
  proof -
    have "length (cl_got c @ ?q) \<le> length (sent_since c w)" using at(3) by (rule list_emb_length)
    then show ?thesis using that by simp
  qed
  show ?thesis
  proof (cases f)
    case (EventFrame e)
    then show ?thesis using at all fr room ch assms(2)
      by (auto simp: sub_ok_def fan_frame_def publish sent_since_snoc
          intro: subseq_snoc_right subseq_snoc_both freshest_more)
  next
    case (SnapshotFrame p)
    have "length ?q < subBuffer \<or> length ?q = subBuffer" "subBuffer > 0" using at(2) by (auto simp: subBuffer_def)
    then show ?thesis using at all fr room ch assms(2) SnapshotFrame
      by (auto simp: sub_ok_def fan_frame_def latest sent_since_snoc
          intro: subseq_snoc_both subseq_snoc_both [OF subseq_tail])
  qed
qed

lemma client_ok_fan:
  assumes "client_ok c (queue h) w (is_closed h) R" "depth h = subBuffer"
    and "if is_closed h then subs h = {} else own c \<subseteq> subs h"
  shows "client_ok c (queue (fan_frame F f h)) (w @ [f]) (is_closed h) R"
proof (cases "cl_phase c")
  case (Live ch)
  then show ?thesis using assms sub_ok_fan [of c h ch w f] by (auto simp: client_ok_def split: if_splits)
qed (use assms in \<open>auto simp: client_ok_def sent_since_snoc intro: subseq_snoc_right\<close>)

text \<open>What one step of a handler does to its browser and to the fan-out.\<close>

definition moves :: "client \<Rightarrow> 'f \<Rightarrow> client \<Rightarrow> 'f \<Rightarrow> bool" where
  "moves c h c' h' \<longleftrightarrow> is_closed h' = is_closed h \<and> depth h' = depth h
     \<and> (\<forall>ch. ch \<notin> own c \<union> own c' \<longrightarrow> queue h' ch = queue h ch)
     \<and> (own c' = own c \<and> subs h' = subs h \<or> own c' = {} \<and> subs h' = subs h - own c
        \<or> own c = {} \<and> \<not> is_closed h \<and> own c' \<inter> subs h = {} \<and> subs h' = subs h \<union> own c')"

lemma moves_leave: "moves c h (fst (leave F c h)) (snd (leave F c h))"
  by (auto simp: moves_def leave_def cancel own_def split: sse_phase.split)

lemma leave_eq: "leave F c h = (c', h') \<Longrightarrow> moves c h c' h' \<and> c' = c\<lparr>cl_phase := Ended\<rparr>"
  using moves_leave [of c h] by (auto simp: leave_def)

lemma moves_trans_queue:
  assumes "queue h1 = (queue h)(ch := q)" "subs h1 = subs h" "is_closed h1 = is_closed h" "depth h1 = depth h" "own c = {ch}"
    and "moves c h1 c' h'" "own c' \<subseteq> own c"
  shows "moves c h c' h'"
  using assms by (auto simp: moves_def)

lemma client_ok_ended:
  assumes "client_ok c q w b R" shows "client_ok (c\<lparr>cl_phase := Ended\<rparr>) q' w b R"
proof (cases "cl_phase c")
  case Tailing
  then show ?thesis using assms by (auto simp: client_ok_def painted_def intro: exI [of _ 0])
next
  case (Replaying es)
  then obtain snap pre where "cl_tail c = pre @ es" "cl_out c = SnapshotFrame snap # map EventFrame pre" "cl_got c = []"
    using assms by (auto simp: client_ok_def)
  then show ?thesis by (auto simp: client_ok_def painted_def intro!: exI [of _ "length pre"])
next
  case (Live ch)
  then have "subseq (cl_got c @ q ch) (sent_since c w)" using assms by (simp add: client_ok_def sub_ok_def)
  then have "subseq (cl_got c) (sent_since c w)"
    by (rule subseq_order.order_trans [OF subseq_rev_drop_many [OF subseq_order.order_refl]])
  moreover obtain snap where "cl_out c = SnapshotFrame snap # map EventFrame (take (length (cl_tail c)) (cl_tail c)) @ cl_got c"
    using Live assms by (auto simp: client_ok_def)
  then have "painted c" unfolding painted_def by blast
  moreover have "cl_at c \<le> length w" using Live assms by (simp add: client_ok_def sub_ok_def)
  ultimately show ?thesis by (simp add: client_ok_def painted_def sent_since_def)
qed (use assms in \<open>auto simp: client_ok_def painted_def sent_since_def\<close>)

lemma handler_leaves:
  assumes "leave F c h = (c', h')" "client_ok c q w b R"
  shows "moves c h c' h' \<and> client_ok c' q' w b R"
  using leave_eq [OF assms(1)] client_ok_ended [OF assms(2)] by auto

lemma handler_step:
  assumes step: "handleEvents_step F s c st = Some (c', h)"
    and ok: "client_ok c (queue (ui_fan s)) (ui_fanned s) (is_closed (ui_fan s)) R"
    and R: "length (Events (ui_hub s)) \<le> R"
  shows "moves c (ui_fan s) c' h \<and> client_ok c' (queue h) (ui_fanned s) (is_closed (ui_fan s)) R"
proof (cases st)
  case (Paint src ok')
  then have "cl_phase c = Accepted" "own c = {}" using step by (auto simp: own_def split: if_splits)
  then show ?thesis using step ok Paint handler_leaves [OF _ ok, of "ui_fan s" c' h]
    by (cases ok') (auto simp: moves_def client_ok_def emit_def)
next
  case CopyTail
  then have "cl_phase c = Tailing" "own c = {}" using step by (auto simp: own_def split: if_splits)
  then show ?thesis using step ok CopyTail R by (auto simp: moves_def client_ok_def)
next
  case (ReplayEvent ok')
  then obtain e es where p: "cl_phase c = Replaying (e # es)" "own c = {}"
    using step by (auto simp: own_def split: sse_phase.splits list.splits)
  obtain snap pre where t: "cl_tail c = pre @ e # es" "cl_out c = SnapshotFrame snap # map EventFrame pre" "cl_got c = []" "Suc (length es) \<le> R"
    using ok p by (auto simp: client_ok_def)
  have "client_ok ((emit (EventFrame e) c)\<lparr>cl_phase := Replaying es\<rparr>) q w b R" for q w b
    using t by (auto simp: client_ok_def emit_def intro!: exI [of _ snap] exI [of _ "pre @ [e]"])
  then show ?thesis using step ok ReplayEvent p handler_leaves [OF _ ok, of "ui_fan s" c' h]
    by (cases ok') (auto simp: moves_def)
next
  case Join
  then have p: "cl_phase c = Replaying []" "own c = {}"
    using step by (auto simp: own_def split: sse_phase.splits list.splits)
  show ?thesis
  proof (cases "is_closed (ui_fan s)")
    case True
    then show ?thesis using step Join p subscribe_closed handler_leaves [OF _ ok, of "ui_fan s" c' h] by simp
  next
    case False
    from subscribe_open [OF this] obtain ch where sub: "fn_Subscribe F (ui_fan s) = Some (ch, h)" "ch \<notin> subs (ui_fan s)"
        "subs h = insert ch (subs (ui_fan s))" "\<not> is_closed h" "depth h = depth (ui_fan s)" "queue h = (queue (ui_fan s))(ch := [])"
        "c' = c\<lparr>cl_phase := Live ch, cl_at := length (ui_fanned s)\<rparr>"
      using step Join p by auto
    have "own c' = {ch}" using sub(7) by simp
    then have "moves c (ui_fan s) c' h" using sub False p(2) by (auto simp: moves_def)
    moreover have "client_ok c' (queue h) (ui_fanned s) False R" using ok p(1) sub(6,7)
      by (auto simp: client_ok_def sub_ok_def sent_since_def)
    ultimately show ?thesis using False by simp
  qed
next
  case (Receive ok')
  then obtain ch where p: "cl_phase c = Live ch" using step by (auto split: sse_phase.splits)
  show ?thesis
  proof (cases "queue (ui_fan s) ch")
    case Nil
    then have "leave F c (ui_fan s) = (c', h)" using step p Receive recv_empty [OF Nil] by (auto split: if_splits)
    then show ?thesis using handler_leaves [OF _ ok] by blast
  next
    case (Cons f q)
    from recv_frame [OF Cons] obtain h1 where r: "fn_recv F ch (ui_fan s) = Some (Some f, h1)" "subs h1 = subs (ui_fan s)"
        "is_closed h1 = is_closed (ui_fan s)" "depth h1 = depth (ui_fan s)" "queue h1 = (queue (ui_fan s))(ch := q)" by blast
    show ?thesis
    proof (cases "ui_cancelled s \<or> \<not> ok'")
      case True
      then have l: "leave F c h1 = (c', h)" using step p Receive r(1) by auto
      then have "own c' = {}" by (auto simp: leave_def)
      then show ?thesis using handler_leaves [OF l ok] moves_trans_queue [OF r(5,2,3,4), of c c' h] p by simp
    next
      case False
      then have c': "c' = (emit f c)\<lparr>cl_got := cl_got c @ [f]\<rparr>" "h = h1" using step p Receive r(1) by auto
      have "own c = {ch}" "own c' = {ch}" using p by (simp_all add: c' emit_def)
      then have "moves c (ui_fan s) c' h" using r by (auto simp: moves_def c')
      moreover have "client_ok c' (queue h) (ui_fanned s) (is_closed (ui_fan s)) R" using ok p Cons r(5)
        by (auto simp: client_ok_def sub_ok_def c' emit_def sent_since_def)
      ultimately show ?thesis by simp
    qed
  qed
next
  case SeeCancel
  then show ?thesis using step handler_leaves [OF _ ok, of "ui_fan s" c' h] by (auto split: sse_phase.splits if_splits)
next
  case SeeGone
  then show ?thesis using step handler_leaves [OF _ ok, of "ui_fan s" c' h] by (auto split: sse_phase.splits if_splits)
qed

lemma subs_own: "ui_inv s \<Longrightarrow> c \<in> set (ui_clients s) \<Longrightarrow> if is_closed (ui_fan s) then subs (ui_fan s) = {} else own c \<subseteq> subs (ui_fan s)"
  by (auto simp: ui_inv_def live_channels_def)

lemma ui_inv_handler:
  assumes inv: "ui_inv s" and i: "i < length (ui_clients s)" and step: "handleEvents_step F s (ui_clients s ! i) st = Some (c', h)"
  shows "ui_inv (s\<lparr>ui_clients := (ui_clients s)[i := c'], ui_fan := h\<rparr>)"
proof -
  let ?cs = "ui_clients s" and ?fan = "ui_fan s" and ?R = "nat (hb_ringSize (ui_hub s))"
  let ?c = "?cs ! i"
  have ok: "client_ok d (queue ?fan) (ui_fanned s) (is_closed ?fan) ?R" if "d \<in> set ?cs" for d
    using inv that by (simp add: ui_inv_def)
  have "length (Events (ui_hub s)) \<le> ?R" using inv by (auto simp: ui_inv_def Events_def)
  from handler_step [OF step ok [OF nth_mem [OF i]] this]
  have m: "moves ?c ?fan c' h" and c': "client_ok c' (queue h) (ui_fanned s) (is_closed ?fan) ?R" by auto
  have ap: "apart ?cs" and sb: "subs ?fan = (if is_closed ?fan then {} else live_channels ?cs)" using inv by (simp_all add: ui_inv_def)
  have fresh: "own c' \<inter> (live_channels ?cs - own ?c) = {}" if "\<not> own c' \<subseteq> own ?c"
    using m sb that by (auto simp: moves_def)
  have ap': "apart (?cs[i := c'])" using fresh by (intro apart_update [OF ap i]) blast
  have sb': "subs h = (if is_closed h then {} else live_channels (?cs[i := c']))"
  proof -
    have "own ?c \<subseteq> live_channels ?cs" using i by (auto simp: live_channels_nth)
    then show ?thesis using m sb unfolding live_channels_update [OF ap i] moves_def by auto
  qed
  have "client_ok d (queue h) (ui_fanned s) (is_closed h) ?R" if d: "d \<in> set (?cs[i := c'])" for d
  proof -
    from d i obtain j where j: "j < length ?cs" "d = (?cs[i := c']) ! j" by (auto simp: in_set_conv_nth)
    show ?thesis
    proof (cases "j = i")
      case True
      then show ?thesis using c' m j i by (simp add: moves_def)
    next
      case False
      then have dj: "d = ?cs ! j" using j by simp
      have "own d \<inter> own ?c = {}" using ap False i j(1) dj by (simp add: apart_def)
      moreover have "own d \<inter> own c' = {}" using ap' [unfolded apart_def, rule_format, of j i] False i j(1) dj by simp
      ultimately have "queue h ch = queue ?fan ch" if "ch \<in> own d" for ch using m that by (auto simp: moves_def)
      then show ?thesis using client_ok_local [OF ok [of d]] j(1) dj m by (auto simp: moves_def)
    qed
  qed
  then show ?thesis using inv ap' sb' m by (simp add: ui_inv_def moves_def)
qed

lemma ui_inv_hub:
  assumes "ui_inv s" shows "ui_inv (hub_Publish e s)" "ui_inv (hub_SetSnapshot snap s)"
  using assms by (auto simp: ui_inv_def hub_Publish_def hub_SetSnapshot_def PublishEvent_def SetSnapshot_def Let_def)

lemma ui_inv_step: assumes inv: "ui_inv s" and step: "ui_step F s e s'" shows "ui_inv s'"
proof -
  have st: "ui_next F s e = Some s'" using step by (simp add: ui_step_def)
  show ?thesis
  proof (cases e)
    case (UFan k)
    define f where "f = ui_pending s ! k"
    define fan where "fan = fan_frame F f (ui_fan s)"
    have s': "s' = s\<lparr>ui_pending := take k (ui_pending s) @ drop (Suc k) (ui_pending s), ui_fan := fan, ui_fanned := ui_fanned s @ [f]\<rparr>"
      using st UFan by (auto simp: f_def fan_def Let_def split: if_splits)
    have d: "depth (ui_fan s) = subBuffer" using inv by (simp add: ui_inv_def)
    have "client_ok c (queue fan) (ui_fanned s @ [f]) (is_closed (ui_fan s)) (nat (hb_ringSize (ui_hub s)))" if "c \<in> set (ui_clients s)" for c
      unfolding fan_def using client_ok_fan [OF _ d subs_own [OF inv that]] inv that by (simp add: ui_inv_def)
    then show ?thesis using inv by (simp add: s' ui_inv_def fan_frame_same fan_def)
  next
    case (UConnect fl)
    then have s': "s' = s\<lparr>ui_clients := ui_clients s @ [newClient fl]\<rparr>" using st by simp
    have o: "own (newClient fl) = {}" by (simp add: own_def newClient_def)
    have "apart (ui_clients s @ [newClient fl])"
      using inv o by (auto simp: ui_inv_def apart_def nth_append)
    moreover have "live_channels (ui_clients s @ [newClient fl]) = live_channels (ui_clients s)" using o by (simp add: live_channels_def)
    moreover have "client_ok (newClient fl) q w b R" for q w b R by (simp add: client_ok_def newClient_def)
    ultimately show ?thesis using inv by (simp add: s' ui_inv_def)
  next
    case (UHandler i x)
    then show ?thesis using st ui_inv_handler [OF inv] by (auto split: if_splits option.splits)
  next
    case UClose
    have "client_ok c (queue (ui_fan s)) (ui_fanned s) True (nat (hb_ringSize (ui_hub s)))" if "c \<in> set (ui_clients s)" for c
      by (rule client_ok_shut) (use inv that in \<open>auto simp: ui_inv_def\<close>)
    then show ?thesis using st UClose inv by (auto simp: ui_inv_def close)
  next
    case (UTick src)
    then show ?thesis using st ui_inv_hub [OF inv] inv by (auto simp: runSnapshotLoop_tick_def)
  next
    case UCancel
    then show ?thesis using st inv by (auto simp: ui_inv_def)
  qed (use st ui_inv_hub [OF inv] in auto)
qed

lemma ui_inv_start: "ui_inv (ui_start F n)"
  by (auto simp: ui_inv_def ui_start_def NewHub_def new_hub live_channels_def apart_def)

lemma ui_run_inv: "run (ui_step F) (ui_start F n) es s \<Longrightarrow> ui_inv s"
  by (induction "ui_start F n" es s rule: run.induct) (auto intro: ui_inv_start ui_inv_step)

section \<open>Shutdown\<close>

definition stopping :: "'f ui_sys \<Rightarrow> bool" where
  "stopping s \<longleftrightarrow> ui_cancelled s \<and> is_closed (ui_fan s)"

lemma stopping_step:
  assumes "ui_inv s" "stopping s" "ui_step F s e s'"
  shows "stopping s' \<and> hb_ringSize (ui_hub s') = hb_ringSize (ui_hub s)"
proof -
  have st: "ui_next F s e = Some s'" using assms(3) by (simp add: ui_step_def)
  show ?thesis
  proof (cases e)
    case (UHandler i x)
    then obtain c' h where i: "i < length (ui_clients s)" and h: "handleEvents_step F s (ui_clients s ! i) x = Some (c', h)"
      and s': "s' = s\<lparr>ui_clients := (ui_clients s)[i := c'], ui_fan := h\<rparr>"
      using st by (auto split: if_splits option.splits)
    have "client_ok (ui_clients s ! i) (queue (ui_fan s)) (ui_fanned s) (is_closed (ui_fan s)) (nat (hb_ringSize (ui_hub s)))"
      "length (Events (ui_hub s)) \<le> nat (hb_ringSize (ui_hub s))"
      using assms(1) i by (auto simp: ui_inv_def Events_def)
    from handler_step [OF h this] show ?thesis using assms(2) by (simp add: s' stopping_def moves_def)
  qed (use st assms(2) in \<open>auto simp: stopping_def hub_Publish_def hub_SetSnapshot_def PublishEvent_def SetSnapshot_def
      runSnapshotLoop_tick_def fan_frame_same close Let_def split: if_splits\<close>)
qed

lemma handler_progress:
  assumes "stopping s" "handleEvents_step F s c st = Some (c', h)" "length (Events (ui_hub s)) \<le> R"
  shows "steps_left R c' < steps_left R c"
proof -
  have left: "cl_phase d = Ended" if "leave F c h = (d, h')" for d h h' using that by (auto simp: leave_def)
  show ?thesis
  proof (cases st)
    case Join
    then show ?thesis using assms subscribe_closed
      by (auto simp: stopping_def steps_left_def dest!: left split: sse_phase.splits list.splits)
  next
    case (ReplayEvent ok)
    then show ?thesis using assms
      by (cases ok) (auto simp: steps_left_def emit_def dest!: left split: sse_phase.splits list.splits)
  next
    case (Paint src ok)
    then show ?thesis using assms by (cases ok) (auto simp: steps_left_def emit_def dest!: left split: if_splits)
  qed (use assms in \<open>auto simp: stopping_def steps_left_def dest!: left split: if_splits sse_phase.splits option.splits prod.splits\<close>)
qed

lemma steps_left_le: "client_ok c q w b R \<Longrightarrow> steps_left R c \<le> R + 3"
  by (auto simp: steps_left_def client_ok_def split: sse_phase.splits)

lemma stopping_run:
  assumes "run (ui_step F) s es s'" "ui_inv s" "stopping s" "i < length (ui_clients s)"
  shows "ui_inv s' \<and> stopping s' \<and> hb_ringSize (ui_hub s') = hb_ringSize (ui_hub s) \<and> i < length (ui_clients s')
    \<and> steps_left (nat (hb_ringSize (ui_hub s))) (ui_clients s' ! i) + length (filter (own_step i) es)
        \<le> steps_left (nat (hb_ringSize (ui_hub s))) (ui_clients s ! i)"
  using assms
proof (induction rule: run.induct)
  case (run_snoc s es s1 e s2)
  let ?R = "nat (hb_ringSize (ui_hub s))"
  have h: "ui_inv s1" "stopping s1" "hb_ringSize (ui_hub s1) = hb_ringSize (ui_hub s)" "i < length (ui_clients s1)"
    and b: "steps_left ?R (ui_clients s1 ! i) + length (filter (own_step i) es) \<le> steps_left ?R (ui_clients s ! i)"
    using run_snoc.IH run_snoc.prems by auto
  have st: "ui_next F s1 e = Some s2" using run_snoc.hyps(2) by (simp add: ui_step_def)
  have R: "length (Events (ui_hub s1)) \<le> ?R" using h(1,3) by (auto simp: ui_inv_def Events_def)
  have "i < length (ui_clients s2) \<and> steps_left ?R (ui_clients s2 ! i) + (if own_step i e then 1 else 0) \<le> steps_left ?R (ui_clients s1 ! i)"
  proof (cases e)
    case (UHandler j x)
    then obtain c' k where j: "j < length (ui_clients s1)" and x: "handleEvents_step F s1 (ui_clients s1 ! j) x = Some (c', k)"
      and s2: "s2 = s1\<lparr>ui_clients := (ui_clients s1)[j := c'], ui_fan := k\<rparr>"
      using st by (auto split: if_splits option.splits)
    show ?thesis using handler_progress [OF h(2) x R] h(4) UHandler by (auto simp: s2 own_step_def nth_list_update)
  qed (use st h(4) in \<open>auto simp: own_step_def hub_Publish_def hub_SetSnapshot_def runSnapshotLoop_tick_def nth_append Let_def
      split: if_splits\<close>)
  then show ?case using h b ui_inv_step [OF h(1) run_snoc.hyps(2)] stopping_step [OF h(1,2) run_snoc.hyps(2)] by auto
qed simp

lemma can_step:
  assumes "stopping s" "i < length (ui_clients s)" "cl_phase (ui_clients s ! i) \<noteq> Ended"
  shows "\<exists>st s'. ui_step F s (UHandler i st) s'"
proof (cases "cl_phase (ui_clients s ! i)")
  case Accepted
  then show ?thesis using assms by (intro exI [of _ "Paint undefined False"]) (simp add: ui_step_def split: prod.split)
next
  case Tailing
  then show ?thesis using assms by (intro exI [of _ CopyTail]) (simp add: ui_step_def)
next
  case (Replaying es)
  then show ?thesis using assms subscribe_closed
    by (cases es) (auto simp: ui_step_def stopping_def split: prod.split intro: exI [of _ Join] exI [of _ "ReplayEvent False"])
next
  case (Live ch)
  then show ?thesis using assms by (intro exI [of _ SeeCancel]) (simp add: ui_step_def stopping_def split: prod.split)
qed (use assms in simp)

lemma ring_size: "run (ui_step F) (ui_start F n) es s \<Longrightarrow> hb_ringSize (ui_hub s) = max 1 n"
proof (induction "ui_start F n" es s rule: run.induct)
  case (run_snoc es s e s')
  then show ?case
    by (cases e) (auto simp: ui_step_def hub_Publish_def hub_SetSnapshot_def PublishEvent_def SetSnapshot_def
        runSnapshotLoop_tick_def Let_def split: if_splits option.splits prod.splits)
qed (simp add: ui_start_def NewHub_def)

text \<open>The snapshot loop reads the state, and through it the Pro, only while somebody watches.\<close>

lemma loop_needs_audience:
  assumes "run (ui_step F) (ui_start F n) es s" "ui_step F s (UTick src) s'" "s' \<noteq> s"
  shows "\<exists>c\<in>set (ui_clients s). \<exists>ch. cl_phase c = Live ch"
proof -
  have "hasSubscribers F s" using assms(2,3) by (auto simp: ui_step_def runSnapshotLoop_tick_def split: if_splits)
  then have "subs (ui_fan s) \<noteq> {}" using len [of "ui_fan s"] by (auto simp: hasSubscribers_def)
  then have "live_channels (ui_clients s) \<noteq> {}" using ui_run_inv [OF assms(1)] by (auto simp: ui_inv_def split: if_splits)
  then obtain c where "c \<in> set (ui_clients s)" "own c \<noteq> {}" by (auto simp: live_channels_def)
  then show ?thesis by (cases "cl_phase c") (auto simp: own_def)
qed

lemma client_stream:
  assumes "run (ui_step F) (ui_start F n) es s" "c \<in> set (ui_clients s)"
  shows "(cl_out c \<noteq> [] \<longrightarrow> painted c) \<and> subseq (cl_got c) (sent_since c (ui_fanned s))
    \<and> (\<forall>ch. cl_phase c = Live ch \<longrightarrow> sub_ok c (queue (ui_fan s) ch) (ui_fanned s) (is_closed (ui_fan s)))"
proof -
  let ?b = "is_closed (ui_fan s)" and ?R = "nat (hb_ringSize (ui_hub s))"
  have ok: "client_ok c (queue (ui_fan s)) (ui_fanned s) ?b ?R"
    using ui_run_inv [OF assms(1)] assms(2) by (simp add: ui_inv_def)
  from client_ok_ended [OF this, of "queue (ui_fan s)"]
  have "cl_out c = [] \<and> cl_got c = [] \<or> painted c" "subseq (cl_got c) (sent_since c (ui_fanned s))"
    by (auto simp: client_ok_def painted_def sent_since_def)
  then show ?thesis using ok by (auto simp: client_ok_def)
qed

end

section \<open>A fan-out over channels\<close>

text \<open>The contract is met by bounded channels, one per subscriber.\<close>

record chan_hub =
  bn_subs :: "nat list"
  bn_queue :: "nat \<Rightarrow> frame list"
  bn_closed :: bool
  bn_depth :: nat

definition fresh_channel :: "nat list \<Rightarrow> nat" where
  "fresh_channel cs = Suc (foldr max cs 0)"

lemma fresh_channel: "fresh_channel cs \<notin> set cs"
proof -
  have "c \<in> set cs \<Longrightarrow> c \<le> foldr max cs 0" for c by (induction cs) auto
  then show ?thesis by (auto simp: fresh_channel_def dest: Suc_le_lessD)
qed

definition chan_fan :: "chan_hub fanout" where
  "chan_fan = \<lparr>fn_NewHub = (\<lambda>n. \<lparr>bn_subs = [], bn_queue = (\<lambda>_. []), bn_closed = False, bn_depth = n\<rparr>),
     fn_Publish = (\<lambda>f s. s\<lparr>bn_queue := (\<lambda>c. if c \<in> set (bn_subs s) \<and> length (bn_queue s c) < bn_depth s
        then bn_queue s c @ [f] else bn_queue s c)\<rparr>),
     fn_PublishLatest = (\<lambda>f s. s\<lparr>bn_queue := (\<lambda>c. if c \<notin> set (bn_subs s) then bn_queue s c
        else if length (bn_queue s c) < bn_depth s then bn_queue s c @ [f] else tl (bn_queue s c) @ [f])\<rparr>),
     fn_Subscribe = (\<lambda>s. if bn_closed s then None
        else let c = fresh_channel (bn_subs s) in Some (c, s\<lparr>bn_subs := c # bn_subs s, bn_queue := (bn_queue s)(c := [])\<rparr>)),
     fn_Cancel = (\<lambda>c s. s\<lparr>bn_subs := removeAll c (bn_subs s)\<rparr>),
     fn_Close = (\<lambda>s. s\<lparr>bn_subs := [], bn_closed := True\<rparr>),
     fn_Len = (\<lambda>s. length (bn_subs s)),
     fn_recv = (\<lambda>c s. case bn_queue s c of
          f # q \<Rightarrow> Some (Some f, s\<lparr>bn_queue := (bn_queue s)(c := q)\<rparr>)
        | [] \<Rightarrow> if c \<in> set (bn_subs s) then None else Some (None, s))\<rparr>"

interpretation channels: fan_out chan_fan "\<lambda>s. set (bn_subs s)" bn_queue bn_closed bn_depth
  by unfold_locales (auto simp: chan_fan_def Let_def fresh_channel)

section \<open>Properties\<close>


text \<open>
  C29: the shutdown never waits for a browser.  Once the request context is cancelled and the hub
  closed, the handler of a stream takes at most as many steps as the ring holds events plus three,
  wherever it was, and until it has ended it always has a step to take.
\<close>

theorem streams_end_on_shutdown:
  assumes "fan_out F subs queue is_closed depth" "run (ui_step F) (ui_start F n) es s" "ui_cancelled s" "is_closed (ui_fan s)"
    and "i < length (ui_clients s)" "run (ui_step F) s fs s'"
  shows "length (filter (own_step i) fs) \<le> nat (max 1 n) + 3
    \<and> (cl_phase (ui_clients s' ! i) = Ended \<or> (\<exists>st t. ui_step F s' (UHandler i st) t))"
proof -
  note inv = fan_out.ui_run_inv [OF assms(1,2)] and ring = fan_out.ring_size [OF assms(1,2)]
  have stop: "fan_out.stopping is_closed s" using assms(3,4) by (simp add: fan_out.stopping_def [OF assms(1)])
  note r = fan_out.stopping_run [OF assms(1,6) inv stop assms(5), unfolded ring]
  have "steps_left (nat (max 1 n)) (ui_clients s ! i) \<le> nat (max 1 n) + 3"
    using inv assms(5) ring by (intro fan_out.steps_left_le [OF assms(1)]) (auto simp: fan_out.ui_inv_def [OF assms(1)])
  then have "length (filter (own_step i) fs) \<le> nat (max 1 n) + 3" using r by linarith
  moreover have "cl_phase (ui_clients s' ! i) \<noteq> Ended \<longrightarrow> (\<exists>st t. ui_step F s' (UHandler i st) t)"
    using fan_out.can_step [OF assms(1)] r by blast
  ultimately show ?thesis by blast
qed

text \<open>
  A browser connects while an event is in the ring but not yet fanned out: the event is in its tail, and
  comes again over the subscription.
\<close>

definition demo_event :: event where
  "demo_event = \<lparr>ev_Time = 0, ev_Level = ''INFO'', ev_Msg = ''hello'', ev_Attrs = []\<rparr>"

definition demo_snap :: snapshot where
  "demo_snap = BuildSnapshot (source_of demo_ui_env demo_ui)"

definition demo_ui_run :: "ui_event list" where
  "demo_ui_run = [UPublish demo_event, UConnect True, UHandler 0 (Paint (source_of demo_ui_env demo_ui) True),
     UHandler 0 CopyTail, UHandler 0 (ReplayEvent True), UHandler 0 Join, UFan 0, UHandler 0 (Receive True)]"

lemma demo_ui_run:
  "\<exists>s. run (ui_step chan_fan) (ui_start chan_fan 200) demo_ui_run s \<and> \<not> bn_closed (ui_fan s) \<and> (\<exists>c. ui_clients s = [c]
     \<and> cl_phase c = Live 1 \<and> cl_at c = 0 \<and> ui_fanned s = [EventFrame demo_event] \<and> cl_got c = [EventFrame demo_event]
     \<and> cl_out c = [SnapshotFrame demo_snap, EventFrame demo_event, EventFrame demo_event])"
proof -
  obtain s where s: "exec (ui_next chan_fan) (ui_start chan_fan 200) demo_ui_run = Some s" "\<not> bn_closed (ui_fan s)"
      "\<exists>c. ui_clients s = [c] \<and> cl_phase c = Live 1 \<and> cl_at c = 0 \<and> ui_fanned s = [EventFrame demo_event]
        \<and> cl_got c = [EventFrame demo_event]
        \<and> cl_out c = [SnapshotFrame demo_snap, EventFrame demo_event, EventFrame demo_event]"
    by (simp add: demo_ui_run_def ui_start_def NewHub_def hub_Publish_def PublishEvent_def newClient_def emit_def Events_def
        chan_fan_def fresh_channel_def fan_frame_def subBuffer_def demo_snap_def Let_def)
  have "run (ui_step chan_fan) (ui_start chan_fan 200) demo_ui_run s"
    by (rule exec_run [OF s(1)]) (simp add: ui_step_def)
  then show ?thesis using s by blast
qed


text \<open>The same browser when the program stops.\<close>

lemma streams_end_on_shutdown_witness:
  "\<exists>s t. run (ui_step chan_fan) (ui_start chan_fan 200) (demo_ui_run @ [UCancel, UClose]) s
     \<and> ui_step chan_fan s (UHandler 0 SeeCancel) t \<and> cl_phase (ui_clients t ! 0) = Ended
     \<and> length (filter (own_step 0) [UHandler 0 SeeCancel]) \<le> 203"
proof -
  obtain s c where s: "run (ui_step chan_fan) (ui_start chan_fan 200) demo_ui_run s" "ui_clients s = [c]" "cl_phase c = Live 1"
    using demo_ui_run by force
  define s2 where "s2 = s\<lparr>ui_cancelled := True, ui_fan := fn_Close chan_fan (ui_fan s)\<rparr>"
  have "run (ui_step chan_fan) s [UCancel, UClose] s2"
    by (rule run_Cons, simp add: ui_step_def, rule run_single) (simp add: ui_step_def s2_def)
  from run_append [OF this s(1)] have r: "run (ui_step chan_fan) (ui_start chan_fan 200) (demo_ui_run @ [UCancel, UClose]) s2" .
  obtain t where t: "ui_step chan_fan s2 (UHandler 0 SeeCancel) t" "cl_phase (ui_clients t ! 0) = Ended"
    using s(2,3) by (auto simp: ui_step_def s2_def leave_def)
  have "bn_closed (ui_fan s2)" "ui_cancelled s2" "0 < length (ui_clients s2)" using s(2) by (simp_all add: s2_def chan_fan_def)
  from streams_end_on_shutdown [OF channels.fan_out_axioms r this(2,1,3) run_single [where step = "ui_step chan_fan", OF t(1)]] r t show ?thesis by auto
qed

end
