(* ===== verification/Flags.thy ===== *)
theory Flags
  imports GoStrings
begin

text \<open>
  What \<open>cmd/relume-tv/main.go\<close> uses of Go's standard library to read its command line: \<open>strconv.ParseInt\<close>
  with base 0, \<open>strconv.ParseBool\<close>, \<open>time.ParseDuration\<close>, and the loop of \<open>flag.FlagSet.Parse\<close>.  Texts are
  bytes.  An error is \<open>None\<close>, or a \<open>flag_error\<close> for the loop.  The fraction of a duration is computed exactly.
\<close>

section \<open>Integers\<close>

definition digit_of :: "char \<Rightarrow> nat option" where
  "digit_of c =
     (let l = ord_char (lower_char c) in
      if is_digit c then Some (digit_val c) else if 97 \<le> l \<and> l \<le> 122 then Some (l - 87) else None)"

fun uint_digits :: "nat \<Rightarrow> nat \<Rightarrow> string \<Rightarrow> nat option" where
  "uint_digits base n [] = Some n"
| "uint_digits base n (c # s) =
     (if c = CHR ''_'' then uint_digits base n s
      else case digit_of c of None \<Rightarrow> None
      | Some d \<Rightarrow> if base \<le> d \<or> 2 ^ 64 \<le> n * base + d then None else uint_digits base (n * base + d) s)"

text \<open>Underscores stand between digits, or after a base prefix.  \<open>saw\<close> is the class of the character before.\<close>

datatype seen = Nothing | Digit | Underscore | Other

fun underscores_ok :: "bool \<Rightarrow> seen \<Rightarrow> string \<Rightarrow> bool" where
  "underscores_ok hex saw [] = (saw \<noteq> Underscore)"
| "underscores_ok hex saw (c # s) =
     (if is_digit c \<or> hex \<and> 97 \<le> ord_char (lower_char c) \<and> ord_char (lower_char c) \<le> 102 then underscores_ok hex Digit s
      else if c = CHR ''_'' then saw = Digit \<and> underscores_ok hex Underscore s
      else saw \<noteq> Underscore \<and> underscores_ok hex Other s)"

definition base_prefix :: "string \<Rightarrow> char option" where
  "base_prefix s = (case s of z # p # _ \<Rightarrow>
       if z = CHR ''0'' \<and> lower_char p \<in> {CHR ''b'', CHR ''o'', CHR ''x''} then Some (lower_char p) else None
     | _ \<Rightarrow> None)"

definition underscoreOK :: "string \<Rightarrow> bool" where
  "underscoreOK s =
     (let t = (if s \<noteq> [] \<and> hd s \<in> {CHR ''-'', CHR ''+''} then tl s else s) in
      case base_prefix t of
        None \<Rightarrow> underscores_ok False Nothing t
      | Some p \<Rightarrow> underscores_ok (p = CHR ''x'') Digit (drop 2 t))"

definition base_of :: "string \<Rightarrow> nat \<times> string" where
  "base_of s =
     (if s = [] \<or> hd s \<noteq> CHR ''0'' then (10, s)
      else case (if 3 \<le> length s then base_prefix s else None) of
        None \<Rightarrow> (8, tl s)
      | Some p \<Rightarrow> (if p = CHR ''b'' then 2 else if p = CHR ''o'' then 8 else 16, drop 2 s))"

definition ParseUint0 :: "string \<Rightarrow> nat option" where
  "ParseUint0 s =
     (if s = [] then None
      else case base_of s of (base, ds) \<Rightarrow>
        case uint_digits base 0 ds of None \<Rightarrow> None
        | Some n \<Rightarrow> if CHR ''_'' \<in> set ds \<and> \<not> underscoreOK s then None else Some n)"

definition ParseInt0 :: "string \<Rightarrow> int option" where
  "ParseInt0 s =
     (if s = [] then None
      else let neg = (hd s = CHR ''-''); t = (if hd s \<in> {CHR ''-'', CHR ''+''} then tl s else s) in
        case ParseUint0 t of None \<Rightarrow> None
        | Some n \<Rightarrow> if (if neg then 2 ^ 63 < n else 2 ^ 63 \<le> n) then None
            else Some (if neg then - int n else int n))"

definition ParseBool :: "string \<Rightarrow> bool option" where
  "ParseBool s =
     (if s \<in> {''1'', ''t'', ''T'', ''TRUE'', ''true'', ''True''} then Some True
      else if s \<in> {''0'', ''f'', ''F'', ''FALSE'', ''false'', ''False''} then Some False
      else None)"

section \<open>Durations\<close>

fun leadingInt :: "nat \<Rightarrow> string \<Rightarrow> (nat \<times> string) option" where
  "leadingInt x [] = Some (x, [])"
| "leadingInt x (c # s) =
     (if \<not> is_digit c then Some (x, c # s)
      else if 2 ^ 63 div 10 < x \<or> 2 ^ 63 < x * 10 + digit_val c then None
      else leadingInt (x * 10 + digit_val c) s)"

text \<open>Digits that no longer fit are skipped.\<close>

fun leadingFraction :: "bool \<Rightarrow> nat \<Rightarrow> nat \<Rightarrow> string \<Rightarrow> nat \<times> nat \<times> string" where
  "leadingFraction over x scale [] = (x, scale, [])"
| "leadingFraction over x scale (c # s) =
     (if \<not> is_digit c then (x, scale, c # s)
      else if over \<or> (2 ^ 63 - 1) div 10 < x \<or> 2 ^ 63 < x * 10 + digit_val c then leadingFraction True x scale s
      else leadingFraction False (x * 10 + digit_val c) (scale * 10) s)"

text \<open>The two spellings of the micro sign are bytes of UTF-8.\<close>

definition unitMap :: "(string \<times> nat) list" where
  "unitMap = [(''ns'', 1), (''us'', 1000), ([CHR 0xC2, CHR 0xB5, CHR ''s''], 1000), ([CHR 0xCE, CHR 0xBC, CHR ''s''], 1000),
     (''ms'', 1000000), (''s'', 1000000000), (''m'', 60 * 1000000000), (''h'', 3600 * 1000000000)]"

lemma leadingInt_length: "leadingInt x s = Some (v, r) \<Longrightarrow> length r \<le> length s"
  by (induction x s rule: leadingInt.induct) (auto split: if_splits)

lemma leadingFraction_length: "leadingFraction ov x scale s = (f, sc, r) \<Longrightarrow> length r \<le> length s"
  by (induction ov x scale s rule: leadingFraction.induct) (auto split: if_splits)

text \<open>One group: number, fraction and unit.  The rest of the text, and the nanoseconds.\<close>

definition unit_char :: "char \<Rightarrow> bool" where
  "unit_char c \<longleftrightarrow> c \<noteq> CHR ''.'' \<and> \<not> is_digit c"

definition dur_group :: "string \<Rightarrow> (nat \<times> string) option" where
  "dur_group s =
     (if s = [] \<or> unit_char (hd s) then None
      else case leadingInt 0 s of None \<Rightarrow> None
      | Some (v, s1) \<Rightarrow>
          let point = (s1 \<noteq> [] \<and> hd s1 = CHR ''.'');
              (f, scale, s2) = (if point then leadingFraction False 0 1 (tl s1) else (0, 1, s1));
              pre = (length s1 \<noteq> length s);
              post = (point \<and> length s2 \<noteq> length (tl s1));
              u = takeWhile unit_char s2
          in if \<not> pre \<and> \<not> post \<or> u = [] then None
             else case map_of unitMap u of None \<Rightarrow> None
             | Some unit \<Rightarrow>
                 let v1 = v * unit; v2 = v1 + f * unit div scale in
                 if 2 ^ 63 div unit < v \<or> (0 < f \<and> 2 ^ 63 < v2) then None
                 else Some (v2, dropWhile unit_char s2))"

lemma dur_group_shorter: "dur_group s = Some (v, r) \<Longrightarrow> length r < length s"
proof -
  assume g: "dur_group s = Some (v, r)"
  then obtain w s1 where l: "leadingInt 0 s = Some (w, s1)" by (auto simp: dur_group_def split: if_splits option.splits)
  obtain f scale s2 where p: "(if s1 \<noteq> [] \<and> hd s1 = CHR ''.'' then leadingFraction False 0 1 (tl s1) else (0, 1, s1)) = (f, scale, s2)"
    using prod_cases3 by blast
  have "length s2 \<le> length s1" using p leadingFraction_length [of False 0 1 "tl s1" f scale s2] by (auto split: if_splits)
  moreover have "takeWhile unit_char s2 \<noteq> []" "r = dropWhile unit_char s2"
    using g l p by (auto simp: dur_group_def Let_def split: if_splits option.splits)
  moreover have "length (dropWhile unit_char s2) + length (takeWhile unit_char s2) = length s2"
    by (metis add.commute length_append takeWhile_dropWhile_id)
  ultimately show ?thesis using leadingInt_length [OF l] by (cases "takeWhile unit_char s2") auto
qed

text \<open>The sum is a \<open>uint64\<close>, checked only after it may have wrapped.\<close>

function dur_loop :: "nat \<Rightarrow> string \<Rightarrow> nat option" where
  "dur_loop d s =
     (if s = [] then Some d
      else case dur_group s of None \<Rightarrow> None
      | Some (v, r) \<Rightarrow> let d' = (d + v) mod 2 ^ 64 in if 2 ^ 63 < d' then None else dur_loop d' r)"
  by auto
termination by (relation "measure (\<lambda>(d, s). length s)") (auto dest: dur_group_shorter)

declare dur_loop.simps [simp del]

definition ParseDuration :: "string \<Rightarrow> duration option" where
  "ParseDuration s =
     (let neg = (s \<noteq> [] \<and> hd s = CHR ''-'');
          t = (if s \<noteq> [] \<and> hd s \<in> {CHR ''-'', CHR ''+''} then tl s else s)
      in if t = ''0'' then Some 0
         else if t = [] then None
         else case dur_loop 0 t of None \<Rightarrow> None
         | Some d \<Rightarrow> if neg then Some (- int d) else if 2 ^ 63 - 1 < d then None else Some (int d))"

section \<open>Flags\<close>

text \<open>A flag sets one field of the options; a boolean one needs no value.\<close>

datatype 'o flag =
    StringFlag "string \<Rightarrow> 'o \<Rightarrow> 'o"
  | IntFlag "int \<Rightarrow> 'o \<Rightarrow> 'o"
  | BoolFlag "bool \<Rightarrow> 'o \<Rightarrow> 'o"
  | DurationFlag "duration \<Rightarrow> 'o \<Rightarrow> 'o"

fun set_flag :: "'o flag \<Rightarrow> string \<Rightarrow> 'o \<Rightarrow> 'o option" where
  "set_flag (StringFlag f) v opts = Some (f v opts)"
| "set_flag (IntFlag f) v opts = map_option (\<lambda>n. f n opts) (ParseInt0 v)"
| "set_flag (BoolFlag f) v opts = map_option (\<lambda>b. f b opts) (ParseBool v)"
| "set_flag (DurationFlag f) v opts = map_option (\<lambda>d. f d opts) (ParseDuration v)"

datatype flag_error = BadSyntax string | NotDefined string | HelpRequested | BadValue string string | NeedsArgument string

text \<open>The name and the value of \<open>-name=value\<close>; the equals sign cannot be first.\<close>

definition split_flag :: "string \<Rightarrow> string \<times> string option" where
  "split_flag s =
     (case str_IndexByte (tl s) (CHR ''='') of
        None \<Rightarrow> (s, None)
      | Some i \<Rightarrow> (take (i + 1) s, Some (drop (i + 2) s)))"

definition flag_body :: "string \<Rightarrow> string" where
  "flag_body s = (if s ! 1 = CHR ''-'' then drop 2 s else tl s)"

fun parse_flags :: "(string \<times> 'o flag) list \<Rightarrow> string list \<Rightarrow> 'o \<Rightarrow> flag_error + string list \<times> 'o" where
  "parse_flags formal [] opts = Inr ([], opts)"
| "parse_flags formal (s # args) opts =
     (if length s < 2 \<or> hd s \<noteq> CHR ''-'' then Inr (s # args, opts)
      else if s = ''--'' then Inr (args, opts)
      else if flag_body s = [] \<or> hd (flag_body s) \<in> {CHR ''-'', CHR ''=''} then Inl (BadSyntax s)
      else (case split_flag (flag_body s) of (name, value) \<Rightarrow>
        case map_of formal name of
          None \<Rightarrow> Inl (if name = ''help'' \<or> name = ''h'' then HelpRequested else NotDefined name)
        | Some (BoolFlag f) \<Rightarrow>
            let v = (case value of None \<Rightarrow> ''true'' | Some v \<Rightarrow> v) in
            (case set_flag (BoolFlag f) v opts of None \<Rightarrow> Inl (BadValue name v) | Some opts' \<Rightarrow> parse_flags formal args opts')
        | Some fl \<Rightarrow>
            (case value of
               Some v \<Rightarrow>
                 (case set_flag fl v opts of None \<Rightarrow> Inl (BadValue name v) | Some opts' \<Rightarrow> parse_flags formal args opts')
             | None \<Rightarrow>
                 (case args of [] \<Rightarrow> Inl (NeedsArgument name)
                  | v # rest \<Rightarrow>
                      (case set_flag fl v opts of None \<Rightarrow> Inl (BadValue name v)
                       | Some opts' \<Rightarrow> parse_flags formal rest opts')))))"

text \<open>\<open>flag.ExitOnError\<close>: asking for help is no failure.\<close>

definition flag_exit :: "flag_error \<Rightarrow> int" where
  "flag_exit e = (if e = HelpRequested then 0 else 2)"

section \<open>Reading what was printed\<close>

text \<open>The value of a run of digits after \<open>x\<close>.\<close>

definition digits_from :: "nat \<Rightarrow> string \<Rightarrow> nat" where
  "digits_from x ds = foldl (\<lambda>n c. 10 * n + digit_val c) x ds"

lemma digits_from_simps [simp]:
  "digits_from x [] = x" "digits_from x (c # ds) = digits_from (10 * x + digit_val c) ds"
  by (simp_all add: digits_from_def)

lemma digits_from_ge: "x \<le> digits_from x ds"
proof (induction ds arbitrary: x)
  case (Cons c ds)
  have "x \<le> 10 * x + digit_val c" by simp
  also have "\<dots> \<le> digits_from (10 * x + digit_val c) ds" by (rule Cons)
  finally show ?case by simp
qed simp

lemma digits_from_itoa: "digits_from 0 (itoa_nat n) = n"
  using digits_val_itoa_nat [of n] by (simp add: digits_from_def digits_val_def)

lemma uint_digits_decimal:
  "list_all is_digit ds \<Longrightarrow> digits_from x ds < 2 ^ 64 \<Longrightarrow> uint_digits 10 x ds = Some (digits_from x ds)"
proof (induction ds arbitrary: x)
  case (Cons c ds)
  have c: "is_digit c" "c \<noteq> CHR ''_''" using Cons.prems(1) by (auto simp: is_digit_def)
  have "10 * x + digit_val c < 2 ^ 64" using digits_from_ge [of "10 * x + digit_val c" ds] Cons.prems(2) by simp
  moreover have "digit_val c < 10" using c(1) by (auto simp: is_digit_def digit_val_def)
  ultimately show ?case using Cons c by (simp add: digit_of_def mult.commute)
qed simp

lemma leadingInt_digits:
  "list_all is_digit ds \<Longrightarrow> digits_from x ds \<le> 2 ^ 63 \<Longrightarrow> r = [] \<or> \<not> is_digit (hd r)
    \<Longrightarrow> leadingInt x (ds @ r) = Some (digits_from x ds, r)"
proof (induction ds arbitrary: x)
  case Nil
  then show ?case by (cases r) auto
next
  case (Cons c ds)
  have "10 * x + digit_val c \<le> 2 ^ 63" using digits_from_ge [of "10 * x + digit_val c" ds] Cons.prems(2) by simp
  then have "\<not> 2 ^ 63 div 10 < x" "\<not> 2 ^ 63 < x * 10 + digit_val c" by simp_all
  then show ?case using Cons by (simp add: mult.commute)
qed

lemma hd_itoa: "0 < n \<Longrightarrow> hd (itoa_nat n) \<noteq> CHR ''0''"
proof (induction n rule: itoa_nat.induct)
  case (1 n)
  show ?case
  proof (cases "n < 10")
    case True
    have "ord_char (digit_char n) = 48 + n" using True by (simp add: digit_char_def)
    then have "digit_char n \<noteq> CHR ''0''" using 1(2) by auto
    then show ?thesis using True by (simp add: itoa_nat.simps [of n])
  next
    case False
    then have "hd (itoa_nat n) = hd (itoa_nat (n div 10))" by (simp add: itoa_nat.simps [of n])
    then show ?thesis using 1(1) False by simp
  qed
qed

lemma itoa_0: "itoa_nat 0 = ''0''"
  by code_simp

lemma ParseUint0_itoa: assumes "n < 2 ^ 64" shows "ParseUint0 (itoa_nat n) = Some n"
proof (cases "n = 0")
  case True
  then show ?thesis by (simp add: itoa_0 ParseUint0_def base_of_def)
next
  case False
  have "CHR ''_'' \<notin> set (itoa_nat n)" using itoa_nat_digits [of n] by (auto simp: list_all_iff is_digit_def)
  then show ?thesis using hd_itoa [of n] False uint_digits_decimal [OF itoa_nat_digits, of 0 n] assms
    by (simp add: ParseUint0_def base_of_def digits_from_itoa)
qed

lemma hd_itoa_digit: "is_digit (hd (itoa_nat n))"
  using itoa_nat_digits [of n] by (cases "itoa_nat n") auto

lemma hd_itoa_not_sign: "hd (itoa_nat n) \<noteq> CHR ''-''" "hd (itoa_nat n) \<noteq> CHR ''+''"
  using is_digit_not_sign [OF hd_itoa_digit] by auto

lemma ParseInt0_Itoa: assumes "int_in_range n" shows "ParseInt0 (Itoa n) = Some n"
proof (cases "n < 0")
  case True
  then show ?thesis using assms ParseUint0_itoa [of "nat (- n)"]
    by (simp add: Itoa_def ParseInt0_def int_in_range_def Let_def not_less nat_le_iff)
next
  case False
  then show ?thesis using assms ParseUint0_itoa [of "nat n"] hd_itoa_not_sign [of "nat n"]
    by (auto simp: Itoa_def ParseInt0_def int_in_range_def Let_def not_le nat_less_iff)
qed

lemma ParseBool_text: "ParseBool (if b then ''true'' else ''false'') = Some b"
  by (simp add: ParseBool_def)

definition duration_text :: "duration \<Rightarrow> string" where
  "duration_text d = Itoa d @ ''ns''"

lemma dur_loop_ns: assumes "n \<le> 2 ^ 63" shows "dur_loop 0 (itoa_nat n @ ''ns'') = Some n"
proof -
  have l: "leadingInt 0 (itoa_nat n @ ''ns'') = Some (n, ''ns'')"
    using leadingInt_digits [OF itoa_nat_digits, of 0 n "''ns''"] assms by (simp add: digits_from_itoa is_digit_def)
  have "\<not> unit_char (hd (itoa_nat n))" using hd_itoa_digit [of n] by (simp add: unit_char_def)
  then have "dur_group (itoa_nat n @ ''ns'') = Some (n, [])"
    using l assms by (simp add: dur_group_def unit_char_def is_digit_def unitMap_def)
  then show ?thesis using assms by (simp add: dur_loop.simps [of 0 "itoa_nat n @ ''ns''"] dur_loop.simps [of n])
qed

lemma ParseDuration_text: assumes "int_in_range d" shows "ParseDuration (duration_text d) = Some d"
proof (cases "d < 0")
  case True
  then have "dur_loop 0 (itoa_nat (nat (- d)) @ ''ns'') = Some (nat (- d))"
    using assms by (intro dur_loop_ns) (simp add: int_in_range_def nat_le_iff)
  then show ?thesis using True by (auto simp: duration_text_def Itoa_def ParseDuration_def Let_def)
next
  case False
  then have "dur_loop 0 (itoa_nat (nat d) @ ''ns'') = Some (nat d)"
    using assms by (intro dur_loop_ns) (simp add: int_in_range_def nat_le_iff)
  moreover have "itoa_nat (nat d) @ ''ns'' \<noteq> ''0''" by (metis append_is_Nil_conv length_append list.size(3,4) append_eq_Cons_conv list.distinct(1) itoa_nat_not_Nil)
  ultimately show ?thesis using False assms hd_itoa_not_sign [of "nat d"]
    by (auto simp: duration_text_def Itoa_def ParseDuration_def Let_def int_in_range_def hd_append nat_less_iff not_less)
qed

text \<open>One argument \<open>-name=value\<close> sets its flag.\<close>

definition flag_arg :: "string \<Rightarrow> string \<Rightarrow> string" where
  "flag_arg name v = CHR ''-'' # name @ CHR ''='' # v"

definition flag_name_ok :: "string \<Rightarrow> bool" where
  "flag_name_ok name \<longleftrightarrow> name \<noteq> [] \<and> hd name \<notin> {CHR ''-'', CHR ''=''} \<and> CHR ''='' \<notin> set name"

lemma flag_arg_body: "flag_name_ok name \<Longrightarrow> flag_body (flag_arg name v) = name @ CHR ''='' # v"
  by (cases name) (simp_all add: flag_arg_def flag_body_def flag_name_ok_def)

lemma split_flag_arg: "flag_name_ok name \<Longrightarrow> split_flag (name @ CHR ''='' # v) = (name, Some v)"
  by (cases name) (simp_all add: split_flag_def flag_name_ok_def str_IndexByte_append)

lemma parse_flag_arg:
  assumes "flag_name_ok name" "map_of formal name = Some fl" "set_flag fl v opts = Some opts'"
  shows "parse_flags formal (flag_arg name v # args) opts = parse_flags formal args opts'"
proof -
  have "\<not> (length (flag_arg name v) < 2 \<or> hd (flag_arg name v) \<noteq> CHR ''-'')" "flag_arg name v \<noteq> ''--''"
    using assms(1) by (cases name; auto simp: flag_arg_def flag_name_ok_def)+
  moreover have "\<not> (name @ CHR ''='' # v = [] \<or> hd (name @ CHR ''='' # v) \<in> {CHR ''-'', CHR ''=''})"
    using assms(1) by (cases name) (auto simp: flag_name_ok_def)
  ultimately show ?thesis using assms
    by (cases fl) (auto simp: flag_arg_body split_flag_arg Let_def split: option.splits)
qed

declare parse_flags.simps(2) [simp del]

end
