(* ===== verification/CmdLine.thy ===== *)
theory CmdLine
  imports Flags WiringProps
begin

text \<open>
  From the command line to the running program (\<open>cmd/relume-tv/main.go\<close>): the flags of the two commands,
  \<open>main\<close> with its exit codes, and the part of \<open>runServe\<close> that may fail before anything runs, up to the
  list of the workers it starts and the state they start in.
\<close>

section \<open>The flags of \<open>serve\<close>\<close>

definition serve_flags :: "(string \<times> serveOptions flag) list" where
  "serve_flags =
     [(''config'', StringFlag (\<lambda>v opts. opts\<lparr>so_configPath := v\<rparr>)),
      (''http-port'', IntFlag (\<lambda>v opts. opts\<lparr>so_httpPort := v\<rparr>)),
      (''advertise-ip'', StringFlag (\<lambda>v opts. opts\<lparr>so_advertiseIP := v\<rparr>)),
      (''debug'', BoolFlag (\<lambda>v opts. opts\<lparr>so_debug := v\<rparr>)),
      (''tv-ip'', StringFlag (\<lambda>v opts. opts\<lparr>so_tvIP := v\<rparr>)),
      (''discovery-burst-duration'', DurationFlag (\<lambda>v opts. opts\<lparr>so_discoveryBurstDuration := v\<rparr>)),
      (''discovery-burst-interval'', DurationFlag (\<lambda>v opts. opts\<lparr>so_discoveryBurstInterval := v\<rparr>)),
      (''disable-ssdp'', BoolFlag (\<lambda>v opts. opts\<lparr>so_disableSSDP := v\<rparr>)),
      (''skip-tls-verify'', BoolFlag (\<lambda>v opts. opts\<lparr>so_skipTLS := v\<rparr>)),
      (''idle-off-timeout-rest'', DurationFlag (\<lambda>v opts. opts\<lparr>so_idleOffRest := v\<rparr>)),
      (''idle-off-timeout-entertainment'', DurationFlag (\<lambda>v opts. opts\<lparr>so_idleOffEntertainment := v\<rparr>)),
      (''controlled-light-window'', DurationFlag (\<lambda>v opts. opts\<lparr>so_controlledLightWindow := v\<rparr>)),
      (''mode'', StringFlag (\<lambda>v opts. opts\<lparr>so_mode := v\<rparr>)),
      (''entertainment-dtls-timeout'', DurationFlag (\<lambda>v opts. opts\<lparr>so_dtlsFallbackTimeout := v\<rparr>)),
      (''entertainment-fallback-recovery'', DurationFlag (\<lambda>v opts. opts\<lparr>so_dtlsFallbackRecovery := v\<rparr>)),
      (''entertainment-smooth-tau'', DurationFlag (\<lambda>v opts. opts\<lparr>so_smoothTau := v\<rparr>)),
      (''entertainment-median-window'', IntFlag (\<lambda>v opts. opts\<lparr>so_medianWindow := v\<rparr>)),
      (''entertainment-median-threshold'', IntFlag (\<lambda>v opts. opts\<lparr>so_medianThreshold := v\<rparr>)),
      (''headless'', BoolFlag (\<lambda>v opts. opts\<lparr>so_headless := v\<rparr>)),
      (''ui-port'', IntFlag (\<lambda>v opts. opts\<lparr>so_uiPort := v\<rparr>)),
      (''log-level'', StringFlag (\<lambda>v opts. opts\<lparr>so_logLevel := v\<rparr>)),
      (''healthcheck'', BoolFlag (\<lambda>v opts. opts\<lparr>so_healthcheck := v\<rparr>))]"

text \<open>\<open>env\<close> is \<open>$LOG_LEVEL\<close>.  What stands behind the flags is ignored.\<close>

definition parseServeOptions :: "string \<Rightarrow> string list \<Rightarrow> flag_error + serveOptions" where
  "parseServeOptions env args =
     (case parse_flags serve_flags args (defaultOptions env) of Inl e \<Rightarrow> Inl e | Inr (rest, opts) \<Rightarrow> Inr opts)"

section \<open>The program\<close>

definition avahi_flags :: "(string \<times> (string \<times> int) flag) list" where
  "avahi_flags = [(''config'', StringFlag (\<lambda>v opts. (v, snd opts))), (''http-port'', IntFlag (\<lambda>v opts. (fst opts, v)))]"

text \<open>
  The exit code and what goes to the standard output; \<open>None\<close> is the panic of a short serial.  \<open>version\<close>,
  the probe \<open>healthcheck\<close> (a port and a path) and \<open>load\<close> are arguments, and so is whether \<open>runServe\<close> returned an error.
\<close>

definition healthcheckURL :: "serveOptions \<Rightarrow> int \<times> string" where
  "healthcheckURL opts = (so_httpPort opts, ''/healthz'')"

definition avahi_main :: "(string \<Rightarrow> config_error + Config) \<Rightarrow> string list \<Rightarrow> (int \<times> string) option" where
  "avahi_main load args =
     (case parse_flags avahi_flags args (''relume-tv.json'', 80) of
        Inl e \<Rightarrow> Some (flag_exit e, [])
      | Inr (rest, path, port) \<Rightarrow>
          (case load path of Inl e \<Rightarrow> Some (1, [])
           | Inr cfg \<Rightarrow> (case runAvahiService port cfg of None \<Rightarrow> None | Some (warned, out) \<Rightarrow> Some (0, out))))"

definition main_run ::
  "string \<Rightarrow> (int \<times> string \<Rightarrow> int) \<Rightarrow> (serveOptions \<Rightarrow> bool) \<Rightarrow> (string \<Rightarrow> config_error + Config) \<Rightarrow> string \<Rightarrow> string list
     \<Rightarrow> (int \<times> string) option" where
  "main_run version healthcheck failed load env args =
     (case main_command args of
        CmdVersion \<Rightarrow> Some (0, ''relume-tv '' @ version @ [CHR 0x0A])
      | CmdServe rest \<Rightarrow>
          (case parseServeOptions env rest of
             Inl e \<Rightarrow> Some (flag_exit e, [])
           | Inr opts \<Rightarrow>
               if so_healthcheck opts then Some (healthcheck (healthcheckURL opts), [])
               else Some (if failed opts then 1 else 0, []))
      | CmdAvahi rest \<Rightarrow> avahi_main load rest
      | CmdUnknown cmd \<Rightarrow> Some (2, []))"

text \<open>
  The handler of the TV-facing port: \<open>probe\<close> stands for the patterns \<open>httpx.Health\<close> registers in front of the
  CLIP server; a panic is answered with status 500.
\<close>

datatype tv_answer = TvHealth | TvClip response

definition tvHandler ::
  "(string \<Rightarrow> string \<Rightarrow> bool) \<Rightarrow> request \<Rightarrow> clip_env \<Rightarrow> clip_server \<Rightarrow> tv_answer \<times> clip_server" where
  "tvHandler probe rq e s =
     (if probe (rq_method rq) (rq_path rq) then (TvHealth, s)
      else case serve rq e s of (r, s') \<Rightarrow> (TvClip (case r of RespPanic \<Rightarrow> RespStatus 500 | _ \<Rightarrow> r), s'))"

lemma tvHandler_never_panics: "fst (tvHandler probe rq e s) \<noteq> TvClip RespPanic"
  by (auto simp: tvHandler_def split: prod.split response.split)

lemma probes_unseen: "probe (rq_method rq) (rq_path rq) \<Longrightarrow> snd (tvHandler probe rq e s) = s"
  by (simp add: tvHandler_def)

section \<open>Starting up\<close>

text \<open>
  What \<open>runServe\<close> asks of its surroundings: whether the logging library knows a level, the file behind a
  path, the sources of a fresh serial, the address of the outgoing interface, and the time.
\<close>

record surroundings =
  sd_knownLevel :: "string \<Rightarrow> bool"
  sd_file :: "string \<Rightarrow> file_state"
  sd_mac :: "nat list option"
  sd_rnd :: "nat list option"
  sd_outboundIP :: "string option"
  sd_now :: int

datatype start_error = BadOptions serve_error | BadLevel | BadConfig config_error | NoAddress

datatype worker =
    AutoPair
  | WatchPro
  | UiServer int
  | ActivitySummary duration
  | StreamReceiver string
  | IdleMonitor
  | MdnsAnnouncer
  | MdnsObserver string
  | SsdpResponder
  | TvServer int

definition pro_worker :: "Config \<Rightarrow> worker list" where
  "pro_worker cfg = [if GetPro cfg = None then AutoPair else WatchPro]"

definition ui_worker :: "serveConfig \<Rightarrow> worker list" where
  "ui_worker sc = (if sv_uiPort sc \<noteq> 0 then [UiServer (sv_uiPort sc)] else [])"

definition stream_worker :: "serveConfig \<Rightarrow> string \<Rightarrow> worker list" where
  "stream_worker sc ip = (if sv_entertainmentMode sc then [StreamReceiver ip] else [])"

definition idle_worker :: "serveConfig \<Rightarrow> worker list" where
  "idle_worker sc = (if sv_idleOff sc > 0 \<or> sv_idleOffFallback sc > 0 then [IdleMonitor] else [])"

definition discovery_workers :: "serveOptions \<Rightarrow> worker list" where
  "discovery_workers opts =
     MdnsAnnouncer # (if so_debug opts then [MdnsObserver (so_tvIP opts)] else [])
     @ (if so_disableSSDP opts then [] else [SsdpResponder])"

definition serve_workers :: "serveOptions \<Rightarrow> serveConfig \<Rightarrow> string \<Rightarrow> Config \<Rightarrow> worker list" where
  "serve_workers opts sc ip cfg =
     pro_worker cfg @ ui_worker sc @ [ActivitySummary (sv_activityWindow sc)] @ stream_worker sc ip @ idle_worker sc
     @ discovery_workers opts @ [TvServer (so_httpPort opts)]"

lemmas worker_defs = serve_workers_def pro_worker_def ui_worker_def stream_worker_def idle_worker_def discovery_workers_def

text \<open>The steps that may fail, in their order; only then is anything built or started.\<close>

definition startServe ::
  "surroundings \<Rightarrow> 'p net \<Rightarrow> 'p \<Rightarrow> serveOptions \<Rightarrow> (start_error + worker list \<times> 'p app) option" where
  "startServe sd net p opts =
     (case deriveServeConfig opts of Inl e \<Rightarrow> Some (Inl (BadOptions e))
      | Inr sc \<Rightarrow>
          if \<not> sd_knownLevel sd (so_logLevel opts) then Some (Inl BadLevel)
          else let file = sd_file sd (so_configPath opts) in
            case Load (so_configPath opts) file (sd_mac sd) (sd_rnd sd) of Inl e \<Rightarrow> Some (Inl (BadConfig e))
            | Inr cfg \<Rightarrow>
                case (if so_advertiseIP opts = [] then sd_outboundIP sd else Some (so_advertiseIP opts)) of
                  None \<Rightarrow> Some (Inl NoAddress)
                | Some ip \<Rightarrow>
                    if BridgeID (cf_Identity cfg) = None then None
                    else Some (Inr (serve_workers opts sc ip cfg, wire opts sc cfg file ip (sd_now sd) net p)))"

section \<open>Printing options\<close>

text \<open>The command line that spells out every option.\<close>

definition bool_text :: "bool \<Rightarrow> string" where
  "bool_text b = (if b then ''true'' else ''false'')"

definition option_values :: "serveOptions \<Rightarrow> (string \<times> string \<times> (serveOptions \<Rightarrow> serveOptions)) list" where
  "option_values c =
     [(''config'', so_configPath c, \<lambda>opts. opts\<lparr>so_configPath := so_configPath c\<rparr>),
      (''http-port'', Itoa (so_httpPort c), \<lambda>opts. opts\<lparr>so_httpPort := so_httpPort c\<rparr>),
      (''advertise-ip'', so_advertiseIP c, \<lambda>opts. opts\<lparr>so_advertiseIP := so_advertiseIP c\<rparr>),
      (''debug'', bool_text (so_debug c), \<lambda>opts. opts\<lparr>so_debug := so_debug c\<rparr>),
      (''tv-ip'', so_tvIP c, \<lambda>opts. opts\<lparr>so_tvIP := so_tvIP c\<rparr>),
      (''discovery-burst-duration'', duration_text (so_discoveryBurstDuration c),
         \<lambda>opts. opts\<lparr>so_discoveryBurstDuration := so_discoveryBurstDuration c\<rparr>),
      (''discovery-burst-interval'', duration_text (so_discoveryBurstInterval c),
         \<lambda>opts. opts\<lparr>so_discoveryBurstInterval := so_discoveryBurstInterval c\<rparr>),
      (''disable-ssdp'', bool_text (so_disableSSDP c), \<lambda>opts. opts\<lparr>so_disableSSDP := so_disableSSDP c\<rparr>),
      (''skip-tls-verify'', bool_text (so_skipTLS c), \<lambda>opts. opts\<lparr>so_skipTLS := so_skipTLS c\<rparr>),
      (''idle-off-timeout-rest'', duration_text (so_idleOffRest c), \<lambda>opts. opts\<lparr>so_idleOffRest := so_idleOffRest c\<rparr>),
      (''idle-off-timeout-entertainment'', duration_text (so_idleOffEntertainment c),
         \<lambda>opts. opts\<lparr>so_idleOffEntertainment := so_idleOffEntertainment c\<rparr>),
      (''controlled-light-window'', duration_text (so_controlledLightWindow c),
         \<lambda>opts. opts\<lparr>so_controlledLightWindow := so_controlledLightWindow c\<rparr>),
      (''mode'', so_mode c, \<lambda>opts. opts\<lparr>so_mode := so_mode c\<rparr>),
      (''entertainment-dtls-timeout'', duration_text (so_dtlsFallbackTimeout c),
         \<lambda>opts. opts\<lparr>so_dtlsFallbackTimeout := so_dtlsFallbackTimeout c\<rparr>),
      (''entertainment-fallback-recovery'', duration_text (so_dtlsFallbackRecovery c),
         \<lambda>opts. opts\<lparr>so_dtlsFallbackRecovery := so_dtlsFallbackRecovery c\<rparr>),
      (''entertainment-smooth-tau'', duration_text (so_smoothTau c), \<lambda>opts. opts\<lparr>so_smoothTau := so_smoothTau c\<rparr>),
      (''entertainment-median-window'', Itoa (so_medianWindow c), \<lambda>opts. opts\<lparr>so_medianWindow := so_medianWindow c\<rparr>),
      (''entertainment-median-threshold'', Itoa (so_medianThreshold c),
         \<lambda>opts. opts\<lparr>so_medianThreshold := so_medianThreshold c\<rparr>),
      (''headless'', bool_text (so_headless c), \<lambda>opts. opts\<lparr>so_headless := so_headless c\<rparr>),
      (''ui-port'', Itoa (so_uiPort c), \<lambda>opts. opts\<lparr>so_uiPort := so_uiPort c\<rparr>),
      (''log-level'', so_logLevel c, \<lambda>opts. opts\<lparr>so_logLevel := so_logLevel c\<rparr>),
      (''healthcheck'', bool_text (so_healthcheck c), \<lambda>opts. opts\<lparr>so_healthcheck := so_healthcheck c\<rparr>)]"

definition serve_args :: "serveOptions \<Rightarrow> string list" where
  "serve_args c = map (\<lambda>(name, v, f). flag_arg name v) (option_values c)"

definition options_in_range :: "serveOptions \<Rightarrow> bool" where
  "options_in_range c \<longleftrightarrow> list_all int_in_range
     [so_httpPort c, so_discoveryBurstDuration c, so_discoveryBurstInterval c, so_idleOffRest c, so_idleOffEntertainment c,
      so_controlledLightWindow c, so_dtlsFallbackTimeout c, so_dtlsFallbackRecovery c, so_smoothTau c, so_medianWindow c,
      so_medianThreshold c, so_uiPort c]"

lemma parse_flag_args:
  assumes "\<And>name v f. (name, v, f) \<in> set xs \<Longrightarrow> flag_name_ok name
      \<and> (\<exists>fl. map_of formal name = Some fl \<and> (\<forall>opts. set_flag fl v opts = Some (f opts)))"
  shows "parse_flags formal (map (\<lambda>(name, v, f). flag_arg name v) xs @ args) opts
    = parse_flags formal args (fold (\<lambda>(name, v, f). f) xs opts)"
  using assms
proof (induction xs arbitrary: opts)
  case (Cons x xs)
  obtain name v f where x: "x = (name, v, f)" by (cases x)
  obtain fl where "flag_name_ok name" "map_of formal name = Some fl" "\<forall>opts. set_flag fl v opts = Some (f opts)"
    using Cons.prems [of name v f] x by auto
  then have "parse_flags formal (flag_arg name v # map (\<lambda>(name, v, f). flag_arg name v) xs @ args) opts
      = parse_flags formal (map (\<lambda>(name, v, f). flag_arg name v) xs @ args) (f opts)"
    by (intro parse_flag_arg) auto
  also have "\<dots> = parse_flags formal args (fold (\<lambda>(name, v, f). f) xs (f opts))"
    by (rule Cons.IH) (use Cons.prems in auto)
  finally show ?case by (simp add: x)
qed simp

lemma serve_flags_distinct: "distinct (map fst serve_flags)" "list_all (\<lambda>x. flag_name_ok (fst x)) serve_flags"
  by code_simp+

lemma option_values_match:
  "options_in_range c \<Longrightarrow> list_all2 (\<lambda>(name, v, f) (name', fl). name = name' \<and> (\<forall>opts. set_flag fl v opts = Some (f opts)))
     (option_values c) serve_flags"
  by (simp add: option_values_def serve_flags_def options_in_range_def bool_text_def ParseInt0_Itoa ParseDuration_text
      ParseBool_text)

lemma list_all2_partner: "list_all2 P xs ys \<Longrightarrow> x \<in> set xs \<Longrightarrow> \<exists>y\<in>set ys. P x y"
  by (induction rule: list_all2_induct) auto

lemma option_values_ok:
  assumes "options_in_range c" "(name, v, f) \<in> set (option_values c)"
  shows "flag_name_ok name \<and> (\<exists>fl. map_of serve_flags name = Some fl \<and> (\<forall>opts. set_flag fl v opts = Some (f opts)))"
proof -
  obtain fl where fl: "(name, fl) \<in> set serve_flags" "\<forall>opts. set_flag fl v opts = Some (f opts)"
    using list_all2_partner [OF option_values_match [OF assms(1)] assms(2)] by fastforce
  then show ?thesis using serve_flags_distinct map_of_is_SomeI [OF serve_flags_distinct(1) fl(1)] by (auto simp: list_all_iff)
qed

lemma fold_option_values: "fold (\<lambda>(name, v, f). f) (option_values c) opts = c"
  by (cases c, cases opts) (simp add: option_values_def)

lemma parse_serve_args: "options_in_range c \<Longrightarrow> parse_flags serve_flags (serve_args c) opts = Inr ([], c)"
  using parse_flag_args [of "option_values c" serve_flags "[]" opts] option_values_ok
  by (simp add: serve_args_def fold_option_values)

section \<open>Properties\<close>

text \<open>
  The command line says everything.  Whatever \<open>$LOG_LEVEL\<close> is, the options spelt out as \<open>-name=value\<close>
  are read back as they are: every flag is known, has the type of its option, sets that option and
  no other, and every 64-bit number, duration and text survives.
\<close>

theorem serve_options_roundtrip:
  assumes "options_in_range c" shows "parseServeOptions env (serve_args c) = Inr c"
  by (simp add: parseServeOptions_def parse_serve_args [OF assms])

lemma serve_options_roundtrip_witness:
  "parseServeOptions ''info'' (serve_args ((defaultOptions [])\<lparr>so_mode := ''rest'', so_headless := True\<rparr>))
     = Inr ((defaultOptions [])\<lparr>so_mode := ''rest'', so_headless := True\<rparr>)"
  by (rule serve_options_roundtrip)
    (simp add: options_in_range_def defaultOptions_def int_in_range_def second_def millisecond_def defaultIdleOffRest_def
      defaultIdleOffEntertainment_def DefaultSmoothTau_def DefaultMedianThreshold_def)

text \<open>
  A start is whole.  When \<open>serve\<close> gets to its workers, the options are valid, the program is in the
  initial state of the wired system, for the configuration the file holds, and each worker is there
  once: the background pairing exactly without a Pro and the watcher exactly with one, the stream
  receiver exactly in entertainment mode, the idle monitor exactly with a timeout to watch, and the web UI on a
  port of its own, never when headless.
\<close>

theorem serve_starts_whole:
  assumes "startServe sd net p opts = Some (Inr (ws, a))"
  shows "app_init a \<and> distinct ws \<and> so_mode opts \<in> {''rest'', ''entertainment''} \<and> cv_file (aw_clip a) = sd_file sd (so_configPath opts)
    \<and> (AutoPair \<in> set ws \<longleftrightarrow> GetPro (aw_cfg a) = None) \<and> (WatchPro \<in> set ws \<longleftrightarrow> GetPro (aw_cfg a) \<noteq> None)
    \<and> ((\<exists>ip. StreamReceiver ip \<in> set ws) \<longleftrightarrow> so_mode opts = ''entertainment'')
    \<and> (IdleMonitor \<in> set ws \<longleftrightarrow> so_idleOffRest opts > 0 \<or> so_mode opts = ''entertainment'' \<and> so_idleOffEntertainment opts > 0)
    \<and> (UiServer port \<in> set ws \<longrightarrow> \<not> so_headless opts \<and> port \<noteq> so_httpPort opts)
    \<and> TvServer (so_httpPort opts) \<in> set ws"
proof -
  obtain sc cfg ip where d: "deriveServeConfig opts = Inr sc"
    and l: "Load (so_configPath opts) (sd_file sd (so_configPath opts)) (sd_mac sd) (sd_rnd sd) = Inr cfg"
    and w: "ws = serve_workers opts sc ip cfg" and a: "a = wire opts sc cfg (sd_file sd (so_configPath opts)) ip (sd_now sd) net p"
    using assms by (auto simp: startServe_def Let_def split: sum.splits if_splits option.splits)
  have "app_init a" using d l a unfolding app_init_def by blast
  moreover have "aw_cfg a = cfg" "cv_file (aw_clip a) = sd_file sd (so_configPath opts)"
    by (simp_all add: a wire_def serve_clip_fields)
  moreover note deriveServeConfig_cases(1,2) [OF d]
  moreover have "sv_entertainmentMode sc \<longleftrightarrow> so_mode opts = ''entertainment''" "sv_uiPort sc \<noteq> 0 \<longrightarrow> \<not> so_headless opts"
      "sv_idleOff sc > 0 \<or> sv_idleOffFallback sc > 0 \<longleftrightarrow>
         so_idleOffRest opts > 0 \<or> so_mode opts = ''entertainment'' \<and> so_idleOffEntertainment opts > 0"
    using d by (auto simp: deriveServeConfig_def Let_def uiPortFor_def idleTimeoutFor_def split: if_splits)
  ultimately show ?thesis by (auto simp: w worker_defs)
qed

text \<open>The first start of a fresh install, without arguments.\<close>

definition demo_surroundings :: surroundings where
  "demo_surroundings = \<lparr>sd_knownLevel = (\<lambda>l. True), sd_file = (\<lambda>path. FileAbsent),
     sd_mac = Some [0x2c, 0x4d, 0x54, 0xea, 0x28, 0x32], sd_rnd = None, sd_outboundIP = Some ''10.0.0.2'', sd_now = 0\<rparr>"

lemma serve_starts_whole_witness:
  "\<exists>ws a. startServe demo_surroundings demo_pnet () (defaultOptions []) = Some (Inr (ws, a)) \<and> app_init a \<and> AutoPair \<in> set ws
     \<and> GetPro (aw_cfg a) = None"
proof -
  obtain sc where sc: "deriveServeConfig (defaultOptions []) = Inr sc" using defaultOptions_accepted by blast
  obtain cfg where cfg: "Load ''relume-tv.json'' FileAbsent (Some [0x2c, 0x4d, 0x54, 0xea, 0x28, 0x32]) None = Inr cfg"
      "BridgeID (cf_Identity cfg) \<noteq> None" "GetPro cfg = None"
  proof -
    have "case Load ''relume-tv.json'' FileAbsent (Some [0x2c, 0x4d, 0x54, 0xea, 0x28, 0x32]) None of Inl e \<Rightarrow> False
      | Inr c \<Rightarrow> BridgeID (cf_Identity c) \<noteq> None \<and> GetPro c = None" by code_simp
    then show thesis using that by (auto split: sum.splits)
  qed
  define a where "a = wire (defaultOptions []) sc cfg FileAbsent ''10.0.0.2'' 0 demo_pnet ()"
  have o: "so_logLevel (defaultOptions []) = []" "so_configPath (defaultOptions []) = ''relume-tv.json''"
      "so_advertiseIP (defaultOptions []) = []" by (simp_all add: defaultOptions_def)
  have st: "startServe demo_surroundings demo_pnet () (defaultOptions [])
      = Some (Inr (serve_workers (defaultOptions []) sc ''10.0.0.2'' cfg, a))"
    using cfg by (simp add: startServe_def sc o demo_surroundings_def a_def)
  moreover have "GetPro (aw_cfg a) = None" using cfg(3) by (simp add: a_def wire_def serve_clip_fields)
  ultimately show ?thesis using serve_starts_whole [OF st] by blast
qed

section \<open>Exit codes\<close>

text \<open>A mistake on the command line ends the program with code 2 before it does anything, a request for help with 0.\<close>

lemma main_bad_flag:
  "parseServeOptions env rest = Inl e \<Longrightarrow> main_run version healthcheck failed load env (prog # ''serve'' # rest)
     = Some (if e = HelpRequested then 0 else 2, [])"
  by (simp add: main_run_def main_command_def Let_def flag_exit_def)

lemma unknown_flag:
  assumes "flag_name_ok name" "name \<notin> set (map fst serve_flags)" "name \<notin> {''help'', ''h''}"
  shows "parseServeOptions env (flag_arg name v # args) = Inl (NotDefined name)"
proof -
  have n: "map_of serve_flags name = None" using assms(2) by (simp add: map_of_eq_None_iff)
  show ?thesis using assms(1,3) flag_arg_body [OF assms(1), of v] split_flag_arg [OF assms(1), of v] n
    by (cases name) (auto simp: parseServeOptions_def parse_flags.simps(2) flag_arg_def flag_name_ok_def)
qed

text \<open>Without a command the program serves, and the probe of a container asks the TV-facing port.\<close>

lemma main_default: "main_run version healthcheck failed load env [prog]
    = main_run version healthcheck failed load env [prog, ''serve'']"
  by (simp add: main_run_def main_command_def Let_def)

lemma main_healthcheck:
  "parseServeOptions env rest = Inr opts \<Longrightarrow> so_healthcheck opts \<Longrightarrow>
     main_run version healthcheck failed load env (prog # ''serve'' # rest) = Some (healthcheck (so_httpPort opts, ''/healthz''), [])"
  by (simp add: main_run_def main_command_def Let_def healthcheckURL_def)

end
