(* ===== verification/LightTypes.thy ===== *)
theory LightTypes
  imports WiringProps
begin

text \<open>
  The shape of what the TV reads: the CLIP v1 schema of a light as an executable predicate, shown for
  \<open>translate.LightsV1\<close> and, through the provider's cache and every step of the program, for each list of
  lights the server ever answers with.
\<close>

section \<open>The schema of a light\<close>

definition nonempty_text :: "gval \<Rightarrow> bool" where
  "nonempty_text v = (case v of GStr s \<Rightarrow> s \<noteq> [] | _ \<Rightarrow> False)"

definition v1_bri_ok :: "gval option \<Rightarrow> bool" where
  "v1_bri_ok v = (case v of None \<Rightarrow> True | Some (GInt n) \<Rightarrow> 1 \<le> n \<and> n \<le> 254 | _ \<Rightarrow> False)"

definition v1_xy_ok :: "gval option \<Rightarrow> bool" where
  "v1_xy_ok v = (case v of None \<Rightarrow> True | Some (GFloats [x, y]) \<Rightarrow> True | _ \<Rightarrow> False)"

definition v1_ct_ok :: "gval option \<Rightarrow> bool" where
  "v1_ct_ok v = (case v of None \<Rightarrow> True | Some (GInt n) \<Rightarrow> n \<noteq> 0 | _ \<Rightarrow> False)"

text \<open>The colour mode names the value that is there, a chromaticity before a temperature.\<close>

definition v1_state_ok :: "obj \<Rightarrow> bool" where
  "v1_state_ok st \<longleftrightarrow> gomap_ok st
     \<and> set (mkeys st) \<subseteq> {''on'', ''alert'', ''reachable'', ''bri'', ''xy'', ''ct'', ''colormode''}
     \<and> oget st ''on'' \<in> {GBool True, GBool False} \<and> oget st ''alert'' = GStr ''none'' \<and> oget st ''reachable'' = GBool True
     \<and> v1_bri_ok (mget st ''bri'') \<and> v1_xy_ok (mget st ''xy'') \<and> v1_ct_ok (mget st ''ct'')
     \<and> mget st ''colormode'' = (if mget st ''xy'' \<noteq> None then Some (GStr ''xy'')
          else if mget st ''ct'' \<noteq> None then Some (GStr ''ct'') else None)"

definition v1_light_ok :: "gval \<Rightarrow> bool" where
  "v1_light_ok v =
     (case v of
        GObj m \<Rightarrow> mkeys m = [''state'', ''type'', ''name'', ''modelid'', ''manufacturername'', ''productname'', ''uniqueid'', ''swversion'']
          \<and> (case oget m ''state'' of GObj st \<Rightarrow> v1_state_ok st | _ \<Rightarrow> False)
          \<and> oget m ''type'' \<in> {GStr ''Extended color light'', GStr ''Color light''}
          \<and> nonempty_text (oget m ''name'') \<and> oget m ''modelid'' = GStr ''LCT015''
          \<and> nonempty_text (oget m ''manufacturername'') \<and> nonempty_text (oget m ''productname'')
          \<and> nonempty_text (oget m ''swversion'') \<and> (case oget m ''uniqueid'' of GStr s \<Rightarrow> True | _ \<Rightarrow> False)
      | _ \<Rightarrow> False)"

text \<open>The ids are decimal numbers in their canonical spelling, so that a group can name its members by number.\<close>

definition id_ok :: "string \<Rightarrow> bool" where
  "id_ok k = (case Atoi k of None \<Rightarrow> True | Some n \<Rightarrow> Itoa n = k)"

definition v1_list_ok :: "(string, gval) gomap \<Rightarrow> bool" where
  "v1_list_ok m \<longleftrightarrow> gomap_ok m \<and> list_all (\<lambda>(k, v). id_ok k \<and> v1_light_ok v) m"

section \<open>The schema of an answer\<close>

text \<open>The members of a group are ids of the light list; all of them on means one is on.\<close>

definition on_state_ok :: "gval \<Rightarrow> bool" where
  "on_state_ok v = (case v of GObj [(a, GBool every), (b, GBool any)] \<Rightarrow>
       a = ''all_on'' \<and> b = ''any_on'' \<and> (every \<longrightarrow> any) | _ \<Rightarrow> False)"

definition stream_part_ok :: "gval \<Rightarrow> bool" where
  "stream_part_ok v = (case v of GObj st \<Rightarrow> mkeys st = [''active'', ''owner'', ''proxymode'', ''proxynode'']
       \<and> oget st ''active'' \<in> {GBool True, GBool False}
       \<and> (case oget st ''owner'' of GNil \<Rightarrow> True | GStr u \<Rightarrow> u \<noteq> [] | _ \<Rightarrow> False) | _ \<Rightarrow> False)"

definition v1_group_ok :: "string \<Rightarrow> string list \<Rightarrow> gval \<Rightarrow> bool" where
  "v1_group_ok i ids v =
     (case v of
        GObj g \<Rightarrow> (case oget g ''lights'' of
            GStrs ls \<Rightarrow> set ls \<subseteq> set ids
              \<and> (case oget g ''locations'' of GObj locs \<Rightarrow> i = ''1'' \<and> set (mkeys locs) = set ls | GNil \<Rightarrow> i \<noteq> ''1'' | _ \<Rightarrow> False)
          | _ \<Rightarrow> False)
          \<and> on_state_ok (oget g ''state'')
          \<and> oget g ''type'' = GStr (if i = ''0'' then ''LightGroup'' else ''Entertainment'')
          \<and> (i = ''1'' \<longrightarrow> stream_part_ok (oget g ''stream''))
      | _ \<Rightarrow> False)"

definition v1_groups_ok :: "string list \<Rightarrow> gval \<Rightarrow> bool" where
  "v1_groups_ok ids v = (case v of GObj [(a, g0), (b, g1)] \<Rightarrow>
       a = ''0'' \<and> b = ''1'' \<and> v1_group_ok ''0'' ids g0 \<and> v1_group_ok ''1'' ids g1 | _ \<Rightarrow> False)"

definition error_ok :: "int \<Rightarrow> gval \<Rightarrow> bool" where
  "error_ok n v = (case v of GArr [GObj [(a, GObj e)]] \<Rightarrow>
       a = ''error'' \<and> oget e ''type'' = GInt n \<and> mkeys e = [''type'', ''address'', ''description''] | _ \<Rightarrow> False)"

text \<open>
  What the TV may rely on for each route it reads lights and groups with; \<open>allowed\<close> says that the user
  of the request is paired, \<open>ids\<close> are the ids of the light list.
\<close>

definition lights_answer :: "gval \<Rightarrow> bool" where
  "lights_answer v = (case v of GObj m \<Rightarrow> v1_list_ok m | _ \<Rightarrow> False)"

definition datastore_answer :: "string list \<Rightarrow> gval \<Rightarrow> bool" where
  "datastore_answer ids v = (case v of GObj o' \<Rightarrow> lights_answer (oget o' ''lights'') \<and> v1_groups_ok ids (oget o' ''groups'') | _ \<Rightarrow> False)"

definition body_ok :: "route \<Rightarrow> string list \<Rightarrow> gval \<Rightarrow> bool" where
  "body_ok r ids v =
     (case r of
        RLights u \<Rightarrow> lights_answer v
      | RLight u i \<Rightarrow> v1_light_ok v \<or> error_ok 3 v \<or> error_ok 901 v
      | RGroups u \<Rightarrow> v1_groups_ok ids v
      | RGroup u i \<Rightarrow> if i = ''0'' \<or> i = ''1'' then v1_group_ok i ids v else error_ok 3 v
      | RDatastore u \<Rightarrow> datastore_answer ids v
      | _ \<Rightarrow> True)"

definition reads_lights :: "route \<Rightarrow> bool" where
  "reads_lights r = (case r of RLights u \<Rightarrow> True | RLight u i \<Rightarrow> True | RGroups u \<Rightarrow> True | RGroup u i \<Rightarrow> True
     | RDatastore u \<Rightarrow> True | _ \<Rightarrow> False)"

text \<open>The data store panics with the configuration when the saved identity is malformed.\<close>

definition answer_ok :: "route \<Rightarrow> bool \<Rightarrow> string list \<Rightarrow> response \<Rightarrow> bool" where
  "answer_ok r allowed ids resp =
     (case resp of RespJSON v \<Rightarrow> if allowed then body_ok r ids v else error_ok 1 v
      | RespPanic \<Rightarrow> (case r of RDatastore u \<Rightarrow> allowed | _ \<Rightarrow> False)
      | _ \<Rightarrow> False)"

section \<open>Translated lights\<close>

text \<open>The state in the order it is put together, without the stores.\<close>

definition has_xy :: "Light \<Rightarrow> bool" where
  "has_xy l = (case lt_Color l of None \<Rightarrow> False | Some c \<Rightarrow> lc_X c \<noteq> 0 \<or> lc_Y c \<noteq> 0)"

definition bri_part :: "Light \<Rightarrow> obj" where
  "bri_part l = (case lt_Dimming l of None \<Rightarrow> [] | Some b \<Rightarrow> [(''bri'', GInt (briFromPercent b))])"

definition ct_part :: "Light \<Rightarrow> obj" where
  "ct_part l = (case lt_ColorTemperature l of None \<Rightarrow> [] | Some m \<Rightarrow> if m \<noteq> 0 then [(''ct'', GInt m)] else [])"

definition colour_part :: "Light \<Rightarrow> obj" where
  "colour_part l =
     (if has_xy l then [(''xy'', GFloats [lc_X (the (lt_Color l)), lc_Y (the (lt_Color l))]), (''colormode'', GStr ''xy'')] @ ct_part l
      else ct_part l @ (if ct_part l = [] then [] else [(''colormode'', GStr ''ct'')]))"

lemma lightState_parts:
  "lightState l = [(''on'', GBool (lt_On l)), (''alert'', GStr ''none''), (''reachable'', GBool True)] @ bri_part l @ colour_part l"
  by (cases "lt_Dimming l"; cases "lt_Color l"; cases "lt_ColorTemperature l")
    (simp_all add: lightState_def bri_part_def ct_part_def colour_part_def has_xy_def Let_def)

lemma bri_part_cases: "bri_part l = [] \<or> (\<exists>b. bri_part l = [(''bri'', GInt (briFromPercent b))])"
  by (cases "lt_Dimming l") (auto simp: bri_part_def)

lemma ct_part_cases: "ct_part l = [] \<or> (\<exists>m. m \<noteq> 0 \<and> ct_part l = [(''ct'', GInt m)])"
  by (simp add: ct_part_def split: option.split)

lemma colour_part_cases:
  "(\<exists>x y. colour_part l = [(''xy'', GFloats [x, y]), (''colormode'', GStr ''xy'')] @ ct_part l)
   \<or> ct_part l \<noteq> [] \<and> colour_part l = ct_part l @ [(''colormode'', GStr ''ct'')] \<or> colour_part l = []"
  by (auto simp: colour_part_def)

lemma lightState_ok: "v1_state_ok (lightState l)"
proof -
  have "v1_state_ok ([(''on'', GBool (lt_On l)), (''alert'', GStr ''none''), (''reachable'', GBool True)] @ bs @ cs)"
    if "bs = [] \<or> (\<exists>b. bs = [(''bri'', GInt (briFromPercent b))])"
      and "(\<exists>x y. cs = [(''xy'', GFloats [x, y]), (''colormode'', GStr ''xy'')] @ ts)
           \<or> ts \<noteq> [] \<and> cs = ts @ [(''colormode'', GStr ''ct'')] \<or> cs = []"
      and "ts = [] \<or> (\<exists>m. m \<noteq> 0 \<and> ts = [(''ct'', GInt m)])" for bs cs ts
    using that briFromPercent_range
    by (elim disjE exE conjE) (simp_all add: v1_state_ok_def v1_bri_ok_def v1_xy_ok_def v1_ct_ok_def oget_def gomap_ok_def)
  from this [OF bri_part_cases colour_part_cases ct_part_cases] show ?thesis by (simp only: lightState_parts)
qed

lemma lightV1_ok: "HasColor l \<Longrightarrow> v1_light_ok (lightV1 l)"
  by (simp add: lightV1_def v1_light_ok_def lightProfile_def lightState_ok nonempty_text_def oget_def Let_def)

lemma list_all_mput: "list_all P m \<Longrightarrow> P (k, v) \<Longrightarrow> list_all P (mput k v m)"
  by (induction m) auto

lemma id_ok_Itoa: "id_ok (Itoa j)"
  using Atoi_Itoa_Some [of j] by (auto simp: id_ok_def split: option.split)

lemma v1_list_put: "v1_list_ok m \<Longrightarrow> id_ok k \<Longrightarrow> v1_light_ok v \<Longrightarrow> v1_list_ok (mput k v m)"
  by (simp add: v1_list_ok_def gomap_ok_put list_all_mput)

lemma LightsV1_loop_typed: "v1_list_ok (lm_V1 lm) \<Longrightarrow> v1_list_ok (lm_V1 (LightsV1_loop n lm ls))"
  by (induction n lm ls rule: LightsV1_loop.induct) (simp_all add: Let_def v1_list_put lightV1_ok id_ok_Itoa)

lemma LightsV1_typed: "v1_list_ok (lm_V1 (LightsV1 ls))"
proof -
  have "v1_list_ok []" by (simp add: v1_list_ok_def gomap_ok_def)
  then show ?thesis by (simp add: LightsV1_def LightsV1_loop_typed)
qed

section \<open>The provider's cache\<close>

definition typed :: "clip_server \<Rightarrow> bool" where
  "typed c \<longleftrightarrow> (case cv_lights c of None \<Rightarrow> True
     | Some p \<Rightarrow> (case pv_cached p of None \<Rightarrow> True | Some m \<Rightarrow> v1_list_ok m))"

definition cached :: "clip_server \<Rightarrow> (string, gval) gomap option" where
  "cached c = bind_opt (cv_lights c) pv_cached"

lemma typed_cached: "typed c \<longleftrightarrow> (\<forall>m. cached c = Some m \<longrightarrow> v1_list_ok m)"
  by (auto simp: typed_def cached_def split: option.splits)

lemma publish_cached:
  "pv_cached (snd (publish r now p)) = (case r of Inl _ \<Rightarrow> pv_cached p | Inr ls \<Rightarrow> Some (lm_V1 (LightsV1 ls)))"
  by (simp add: publish_def Let_def split: sum.split)

lemma publish_typed: "\<forall>m. pv_cached p = Some m \<longrightarrow> v1_list_ok m \<Longrightarrow> pv_cached (snd (publish r now p)) = Some m \<Longrightarrow> v1_list_ok m"
  by (auto simp: publish_cached LightsV1_typed split: sum.splits)

lemma provider_LightsV1_eq:
  assumes "provider_LightsV1 r now p = (x, q)"
  shows "pv_cached q = pv_cached p \<or> pv_cached q = pv_cached (snd (publish r now p))"
    "x = Inr m \<Longrightarrow> pv_cached p = Some m \<or> pv_cached q = Some m"
  using assms
  by (auto simp: provider_LightsV1_def lights_begin_def lights_end_def Let_def publish_cached
      split: if_splits option.splits sum.splits)

lemma provider_typed:
  assumes "\<forall>m. pv_cached p = Some m \<longrightarrow> v1_list_ok m" "provider_LightsV1 r now p = (x, q)"
  shows "\<forall>m. pv_cached q = Some m \<longrightarrow> v1_list_ok m" "x = Inr m \<Longrightarrow> v1_list_ok m"
proof -
  show 1: "\<forall>m. pv_cached q = Some m \<longrightarrow> v1_list_ok m"
    using provider_LightsV1_eq(1) [OF assms(2)] assms(1) publish_typed [OF assms(1)] by auto
  show "x = Inr m \<Longrightarrow> v1_list_ok m" using provider_LightsV1_eq(2) [OF assms(2)] 1 assms(1) by blast
qed

end
