(* ===== verification/LightAnswers.thy ===== *)
theory LightAnswers
  imports LightTypes
begin

text \<open>
  From the provider's cache to the answers: no step of the program puts anything but a translated
  light list into the cache, so that every light, group and data store the server answers with has the
  schema of \<open>LightTypes\<close>, whatever the Pro, the TV and the web UI do.
\<close>

section \<open>Steps and the cache\<close>

text \<open>The cache is left alone, dropped with its provider, or replaced by a translation.\<close>

definition refreshed :: "clip_server \<Rightarrow> clip_server \<Rightarrow> bool" where
  "refreshed c c' \<longleftrightarrow> cached c' \<in> {cached c, None} \<or> (\<exists>ls. cached c' = Some (lm_V1 (LightsV1 ls)))"

lemma refreshed_refl [simp, intro]: "refreshed c c"
  by (simp add: refreshed_def)

lemma refreshed_trans [trans]: "refreshed c d \<Longrightarrow> refreshed d e \<Longrightarrow> refreshed c e"
  by (auto simp: refreshed_def)

lemma refreshed_typed: "refreshed c c' \<Longrightarrow> typed c \<Longrightarrow> typed c'"
  by (auto simp: refreshed_def typed_cached LightsV1_typed)

lemma refreshed_same: "cv_lights c' = cv_lights c \<Longrightarrow> refreshed c c'"
  by (simp add: refreshed_def cached_def)

lemma refreshed_provider:
  "cv_lights c = Some p \<Longrightarrow> cv_lights c' = Some q \<Longrightarrow> pv_cached q = pv_cached p \<Longrightarrow> refreshed c c'"
  by (simp add: refreshed_def cached_def)

lemma SetLightV1_cached [simp]: "pv_cached (snd (SetLightV1 i st p)) = pv_cached p"
  by (simp add: SetLightV1_def Let_def)

lemma refreshed_forward: "refreshed c (ForwardLight i st c)"
  by (cases "cv_lights c") (auto simp: ForwardLight_def intro: refreshed_provider)

lemma refreshed_read:
  assumes "cv_lights c = Some p" "provider_LightsV1 r now p = (x, q)"
  shows "refreshed c (c\<lparr>cv_lights := Some q\<rparr>)"
  using provider_LightsV1_eq(1) [OF assms(2)] assms(1)
  by (auto simp: refreshed_def cached_def publish_cached split: sum.splits)

lemma refreshed_lights: "server_lightsV1 e c = (m, c') \<Longrightarrow> refreshed c c'"
  by (auto simp: server_lightsV1_def refreshed_read split: option.splits prod.splits)

lemma refreshed_forward_all: "refreshed c (snd (forward_all action ids c))"
proof (induction ids rule: rev_induct)
  case (snoc i ids)
  let ?t = "snd (forward_all action ids c)"
  have "snd (forward_all action (ids @ [i]) c) = (if off_zone ?t i then ?t else ForwardLight i action ?t)"
    by (simp add: forward_all_def split: prod.split)
  then show ?case using snoc refreshed_trans [OF snoc refreshed_forward] by simp
qed (simp add: forward_all_def)

lemma note_rest_lights [simp]: "cv_lights (note_rest c) = cv_lights c"
  by (simp add: note_rest_def)

lemma refreshed_set_light: "handleSetLightState i body e c = (r, c') \<Longrightarrow> refreshed c c'"
  by (auto simp: handleSetLightState_def Let_def intro: refreshed_provider split: option.splits if_splits)

lemma refreshed_group_action:
  assumes "handleGroupAction i body e c = (r, c')" shows "refreshed c c'"
proof -
  have "refreshed c (snd (forward_all a ids d))" if "server_lightsV1 e (c\<lparr>cv_restCalls := n\<rparr>) = (m, d)" for a ids d m n
  proof -
    have "refreshed c (c\<lparr>cv_restCalls := n\<rparr>)" by (rule refreshed_same) simp
    also have "refreshed (c\<lparr>cv_restCalls := n\<rparr>) d" by (rule refreshed_lights [OF that])
    also have "refreshed d (snd (forward_all a ids d))" by (rule refreshed_forward_all)
    finally show ?thesis .
  qed
  then show ?thesis using assms by (auto simp: handleGroupAction_def Let_def split: if_splits prod.splits)
qed

lemma refreshed_group_update: "handleGroupUpdate u i body e c = (r, c') \<Longrightarrow> refreshed c c'"
  by (rule refreshed_same)
    (auto simp: handleGroupUpdate_def set_activation_def setRequestedMembers_def Let_def split: if_splits option.splits)

lemma refreshed_pairing: "handlePairing rq body e c = (r, c') \<Longrightarrow> refreshed c c'"
  by (rule refreshed_same) (auto simp: handlePairing_def Let_def split: if_splits option.splits prod.splits)

lemma refreshed_reads:
  "handleLights e c = (r, c') \<Longrightarrow> refreshed c c'" "handleLight i e c = (r, c') \<Longrightarrow> refreshed c c'"
  "handleDatastore e c = (r, c') \<Longrightarrow> refreshed c c'"
  by (auto simp: handleLights_def handleLight_def handleDatastore_def dest: refreshed_lights
      intro: refreshed_read split: prod.splits option.splits)

lemma refreshed_create_group: "handleCreateGroup body c = (r, c') \<Longrightarrow> refreshed c c'"
  by (rule refreshed_same) (auto simp: handleCreateGroup_def setRequestedMembers_def split: if_splits option.splits)

lemma refreshed_description: "handleDescription rq c = (r, c') \<Longrightarrow> refreshed c c'"
  by (rule refreshed_same) (auto simp: handleDescription_def Let_def split: if_splits)

lemmas refreshed_handlers = refreshed_pairing refreshed_reads refreshed_set_light refreshed_group_action
  refreshed_group_update refreshed_create_group refreshed_description

lemma refreshed_handle: "handle r rq body e c = (resp, c') \<Longrightarrow> refreshed c c'"
  by (cases r) (auto split: if_splits dest: refreshed_handlers)

lemma refreshed_serve: "refreshed c (snd (serve rq e c))"
proof -
  have "refreshed c (count_request rq c)" by (rule refreshed_same) simp
  then show ?thesis using refreshed_handle refreshed_trans by (metis serve_def surjective_pairing)
qed

section \<open>The cache of the wired program\<close>

lemma refreshed_calls: "refreshed c (forward_calls cs c)"
proof (induction cs rule: rev_induct)
  case (snoc x cs)
  then show ?case using refreshed_trans [OF snoc refreshed_forward]
    by (simp add: forward_calls_def split: prod.split)
qed (simp add: forward_calls_def)

lemma refreshed_frame: "refreshed (aw_clip a) (aw_clip (receive_frame f a))"
  by (auto simp: receive_frame_def refreshed_calls split: prod.split push_out.splits)

lemma refreshed_app_step:
  assumes "app_step a e a'" shows "refreshed (aw_clip a) (aw_clip a')"
proof -
  have st: "app_next a e = Some a'" using assms by (simp add: app_step_def)
  show ?thesis
  proof (cases e)
    case (ARequest rq env)
    then have "cv_lights (aw_clip a') = cv_lights (snd (serve rq env (aw_clip a)))" using st
      by (auto simp: request_lights split: if_splits)
    then show ?thesis using refreshed_trans [OF refreshed_serve refreshed_same] by blast
  next
    case (AFrame f)
    then show ?thesis using st refreshed_frame by (auto split: if_splits)
  next
    case (ASession ev)
    then show ?thesis using st
      by (intro refreshed_same)
        (auto simp: session_step_def MarkDTLSStreamUp_def MarkDTLSStreamDown_def Let_def split: if_splits option.splits ses_event.splits)
  next
    case (ATurn wr)
    then show ?thesis using st
      by (intro refreshed_same) (auto simp: streamer_turn_def split: run_phase.splits prod.splits)
  next
    case (ASendTick wr)
    then show ?thesis using st
      by (intro refreshed_same) (auto simp: streamer_tick_def split: run_phase.splits prod.splits)
  next
    case ASendRollup
    then show ?thesis using st
      by (intro refreshed_same) (auto simp: streamer_rollup_def split: run_phase.splits prod.splits)
  next
    case (AHook wr)
    then show ?thesis using st
      by (intro refreshed_same) (auto simp: start_stream_def stop_stream_def split: hook.splits prod.splits)
  next
    case (AShutdown wr)
    then show ?thesis using st
      by (intro refreshed_same) (auto simp: stop_stream_def split: if_splits prod.splits)
  next
    case (APublish r)
    then show ?thesis using st
      by (cases "cv_lights (aw_clip a)") (auto simp: refreshed_def cached_def publish_cached split: sum.splits)
  next
    case AInstall
    then show ?thesis using st
      by (auto simp: SetLightProvider_def refreshed_def cached_def NewLightProvider_def provider_Close_def)
  next
    case ATake
    then show ?thesis using st
      by (cases "cv_lights (aw_clip a)") (auto simp: drain_take_def refreshed_def cached_def split: if_splits)
  next
    case (ARollup rounded)
    then show ?thesis using st
      by (auto simp: activity_rollup_def flushActivity_def refreshed_def cached_def DrainStatsDelta_def Let_def
          split: prod.splits option.splits if_splits)
  next
    case AFence
    then show ?thesis using st
      by (auto simp: CloseLightWrites_def refreshed_def cached_def provider_Close_def Let_def split: option.splits prod.splits)
  qed (use st in \<open>auto intro!: refreshed_same simp: MarkActivity_def idle_round_def aw_lights_setup
      split: if_splits option.splits prod.splits\<close>)
qed

lemma typed_init:
  assumes "app_init a" shows "typed (aw_clip a)"
proof -
  obtain opts sc cfg fl ip now net p where a: "a = wire opts sc cfg fl ip now net p"
    using assms by (auto simp: app_init_def)
  have "cached (aw_clip a) = None" unfolding a
    by (cases "GetPro cfg") (simp_all add: wire_def serve_clip_def cached_def New_def SetLightProvider_def SetDTLSFallbackTimeout_def
        SetDTLSFallbackRecovery_def NewLightProvider_def Let_def)
  then show ?thesis by (simp add: typed_cached)
qed

interpretation listing: invariant_system app_init app_step "\<lambda>a. typed (aw_clip a)"
  by unfold_locales (auto intro: typed_init refreshed_typed refreshed_app_step)

section \<open>Groups\<close>

lemma group_member_named: "id_ok k \<Longrightarrow> group_member ent members k = Some n \<Longrightarrow> Itoa n = k"
  by (auto simp: group_member_def id_ok_def split: option.splits if_splits)

lemma v1_list_Nil: "v1_list_ok []"
  by (simp add: v1_list_ok_def)

lemma v1_list_ids: "v1_list_ok m \<Longrightarrow> k \<in> set (mkeys m) \<Longrightarrow> id_ok k"
  by (auto simp: v1_list_ok_def list_all_iff)

lemma group_ids:
  assumes "v1_list_ok m" shows "set (groupLightIDs m ent members) \<subseteq> set (mkeys m)"
proof
  fix j assume "j \<in> set (groupLightIDs m ent members)"
  then obtain n where n: "n \<in> set (List.map_filter (group_member ent members) (mkeys m))" "j = Itoa n"
    by (auto simp: groupLightIDs_def)
  from n(1) obtain k where "k \<in> set (mkeys m)" "group_member ent members k = Some n"
    unfolding ClipProps.set_map_filter by blast
  then show "j \<in> set (mkeys m)" using n(2) group_member_named [OF v1_list_ids [OF assms]] by metis
qed

lemma on_states:
  "foldl (\<lambda>(anyOn, allOn) i. let on = light_on m i in (anyOn \<or> on, allOn \<and> on)) (x, y) ids
     = (x \<or> (\<exists>i \<in> set ids. light_on m i), y \<and> (\<forall>i \<in> set ids. light_on m i))"
  by (induction ids arbitrary: x y) (auto simp: Let_def)

lemma group_all_any: "groupOnState m ids = (anyOn, allOn) \<Longrightarrow> allOn \<longrightarrow> anyOn"
  unfolding groupOnState_def on_states by (cases ids) auto

lemma bridgeGroup_ok:
  assumes "v1_list_ok m" "i = ''0'' \<or> i = ''1''"
  shows "v1_group_ok i (mkeys m) (GObj (bridgeGroup i m c))"
proof -
  let ?ids = "groupLightIDs m (i = ''1'') (cv_reqMembers c)"
  obtain anyOn allOn where on: "groupOnState m ?ids = (anyOn, allOn)" by fastforce
  obtain active owner where st: "(if confirmsEntertainment c \<and> i = ''1'' then stream_snapshot (cv_stream c) else (False, [])) = (active, owner)"
    by fastforce
  have "set ?ids \<subseteq> set (mkeys m)" by (rule group_ids [OF assms(1)])
  then show ?thesis using assms(2) group_all_any [OF on] groupLocations_keys [of ?ids]
    by (auto simp: bridgeGroup_def on st v1_group_ok_def on_state_ok_def stream_part_ok_def oget_def Let_def simp del: set_map)
qed

lemma groupsV1_ok:
  assumes "typed c" shows "v1_groups_ok (mkeys (cachedLightsV1 c)) (GObj (groupsV1 c))"
proof -
  have "v1_list_ok (cachedLightsV1 c)" using assms v1_list_Nil
    by (auto simp: typed_def cachedLightsV1_def CachedLightsV1_def split: option.splits)
  then show ?thesis using bridgeGroup_ok by (simp add: groupsV1_def v1_groups_ok_def)
qed

section \<open>Answers\<close>

lemma writeError_ok: "writeError n address d = RespJSON v \<Longrightarrow> error_ok n v"
  by (auto simp: writeError_def error_ok_def oget_def)

lemma server_lights_ok:
  assumes "typed c" "server_lightsV1 e c = (m, c')" shows "v1_list_ok m"
proof (cases "cv_lights c")
  case None
  then show ?thesis using assms(2) by (simp add: server_lightsV1_def v1_list_Nil)
next
  case (Some p)
  obtain r q where l: "provider_LightsV1 (en_pro e) (en_now e) p = (r, q)" by fastforce
  have "\<forall>m. pv_cached p = Some m \<longrightarrow> v1_list_ok m" using assms(1) Some by (simp add: typed_def split: option.splits)
  from provider_typed(2) [OF this l] have "v1_list_ok (case r of Inl _ \<Rightarrow> [] | Inr m \<Rightarrow> m)"
    by (cases r) (simp_all add: v1_list_Nil)
  then show ?thesis using assms(2) Some l by (simp add: server_lightsV1_def)
qed

lemma light_answer:
  assumes "typed c" "handleLight i e c = (RespJSON v, c')"
  shows "v1_light_ok v \<or> error_ok 3 v \<or> error_ok 901 v"
proof (cases "cv_lights c")
  case None
  then have "error_ok 3 v" using assms(2) by (auto simp: handleLight_def light_unavailable_def intro: writeError_ok)
  then show ?thesis by simp
next
  case (Some p)
  obtain r q where l: "provider_LightsV1 (en_pro e) (en_now e) p = (r, q)" by fastforce
  have p: "\<forall>m. pv_cached p = Some m \<longrightarrow> v1_list_ok m" using assms(1) Some by (simp add: typed_def split: option.splits)
  show ?thesis
  proof (cases r)
    case (Inl err)
    then have "error_ok 901 v" using assms(2) Some l by (auto simp: handleLight_def intro: writeError_ok)
    then show ?thesis by simp
  next
    case (Inr m)
    have m: "v1_list_ok m" by (rule provider_typed(2) [OF p l Inr])
    have "v1_light_ok x" if "mget m i = Some x" for x
      using m map_of_SomeD [OF that] by (auto simp: v1_list_ok_def list_all_iff)
    then show ?thesis using assms(2) Some l Inr
      by (auto simp: handleLight_def light_unavailable_def intro: writeError_ok split: option.splits)
  qed
qed

lemma datastore_answers:
  assumes "typed c" "handleDatastore e c = (resp, c')"
  shows "resp = RespPanic \<or> (\<exists>v. resp = RespJSON v \<and> datastore_answer (mkeys (cachedLightsV1 c')) v)"
proof -
  obtain m s1 where l: "server_lightsV1 e c = (m, s1)" by fastforce
  then have "typed s1" using assms(1) refreshed_lights refreshed_typed by blast
  then show ?thesis using assms(2) l server_lights_ok [OF assms(1) l] groupsV1_ok
    by (auto simp: handleDatastore_def datastore_answer_def lights_answer_def oget_def split: option.splits)
qed

lemma handle_answers:
  assumes "typed c" "reads_lights r" "handle r rq body e c = (resp, c')"
  shows "answer_ok r (\<exists>u. route_user r = Some u \<and> HasAPIUser (cv_cfg c) u) (mkeys (cachedLightsV1 c')) resp"
proof (cases "\<exists>u. route_user r = Some u \<and> HasAPIUser (cv_cfg c) u")
  case False
  then have "resp = unauthorized rq" using assms(2,3) by (cases r) (auto simp: reads_lights_def authorized_def)
  then show ?thesis using False writeError_ok by (auto simp: answer_ok_def unauthorized_def writeError_def)
next
  case True
  note ok = True
  show ?thesis
  proof (cases r)
    case (RLights u)
    then show ?thesis using ok assms server_lights_ok [OF assms(1)]
      by (auto simp: handleLights_def authorized_def answer_ok_def body_ok_def lights_answer_def split: prod.splits)
  next
    case (RLight u i)
    then have h: "handleLight i e c = (resp, c')" using ok assms(3) by (simp add: authorized_def)
    then obtain v where "resp = RespJSON v"
      by (auto simp: handleLight_def light_unavailable_def writeError_def split: option.splits prod.splits sum.splits)
    then show ?thesis using ok h light_answer [OF assms(1)] RLight by (auto simp: answer_ok_def body_ok_def)
  next
    case (RGroups u)
    then show ?thesis using ok assms(3) groupsV1_ok [OF assms(1)]
      by (auto simp: authorized_def answer_ok_def body_ok_def)
  next
    case (RDatastore u)
    then have "handleDatastore e c = (resp, c')" using ok assms(3) by (simp add: authorized_def)
    then show ?thesis using datastore_answers [OF assms(1)] ok RDatastore by (fastforce simp: answer_ok_def body_ok_def)
  next
    case (RGroup u i)
    have "v1_list_ok (cachedLightsV1 c)" using assms(1) v1_list_Nil
      by (auto simp: typed_def cachedLightsV1_def CachedLightsV1_def split: option.splits)
    then show ?thesis using ok assms(3) RGroup bridgeGroup_ok writeError_ok
      by (auto simp: authorized_def answer_ok_def body_ok_def handleGroup_def writeError_def error_ok_def oget_def split: if_splits)
  qed (use assms(2) in \<open>simp_all add: reads_lights_def\<close>)
qed

section \<open>Properties\<close>


definition demo_read :: request where
  "demo_read = tv_request ''GET'' ''/api/u1/lights'' GNil"

definition demo_fetch :: clip_env where
  "demo_fetch = demo_env\<lparr>en_now := 0, en_pro := Inr demo_lights\<rparr>"

definition demo_serving :: clip_server where
  "demo_serving = serve_clip (defaultOptions []) demo_sc demo_loaded (File (Some (enc_config demo_config))) ''10.0.0.2'' 0"

lemma demo_serving_app: "aw_clip demo_app = demo_serving"
  by (simp add: demo_app_def wire_def demo_serving_def)

lemma demo_read_eval:
  "route_of (rq_method demo_read) (rq_path demo_read) = RLights ''u1''" "HasAPIUser (cv_cfg demo_serving) ''u1''"
  by code_simp+

lemma demo_unfetched: "map_option pv_cached (cv_lights demo_serving) = Some None" "map_option pv_refresh (cv_lights demo_serving) = Some False"
  by code_simp+

lemma demo_read_answer: "fst (serve demo_read demo_fetch demo_serving) = RespJSON (GObj (lm_V1 (LightsV1 demo_lights)))"
proof -
  obtain p where p: "cv_lights demo_serving = Some p" "pv_cached p = None" "\<not> pv_refresh p"
    using demo_unfetched by auto
  have "provider_LightsV1 (Inr demo_lights) now p = (Inr (lm_V1 (LightsV1 demo_lights)), q)"
    if "q = snd (publish (Inr demo_lights) now (p\<lparr>pv_refresh := True\<rparr>))" for now q
    using p that by (simp add: provider_LightsV1_def lights_begin_def lights_end_def publish_cached Let_def)
  then show ?thesis using p demo_read_eval(2)
    by (simp add: serve_def demo_read_eval(1) authorized_def handleLights_def server_lightsV1_def demo_fetch_def)
qed


end
