(* ===== verification/Dashboard.thy ===== *)
theory Dashboard
  imports LightAnswers UiServer
begin

text \<open>
  The dashboard over the running program: \<open>runServe\<close> hands the web UI a source whose fields are the live
  components (\<open>cmd/relume-tv/main.go\<close>), so a snapshot can be built in every state a run of the wired
  program reaches.  The lemmas say what such a snapshot is worth.
\<close>

section \<open>The source of the running program\<close>

text \<open>The name and the start time are computed once, everything else is read when asked for.\<close>

definition uiSource_of :: "serveOptions \<Rightarrow> string \<Rightarrow> string \<Rightarrow> int \<Rightarrow> 'p app \<Rightarrow> ui_source" where
  "uiSource_of opts bridgeID version started a =
     \<lparr>us_clip = aw_clip a, us_live = aw_live a, us_frames = aw_frames a, us_proSend = aw_proSend a,
      us_restRecv = aw_restRecv a, us_proStats = aw_proStats a, us_jitter = aw_jitter a, us_setup = aw_setup a,
      us_advName = ''relume-tv-'' @ drop (length bridgeID - 6) bridgeID, us_version = version,
      us_started = Some started, us_smoothTauMs = max 0 (so_smoothTau opts) div millisecond,
      us_medianWindow = so_medianWindow opts, us_medianThreshold = so_medianThreshold opts\<rparr>"

text \<open>What a browser is shown in a state of the program, and the push when the wizard changes.\<close>

definition shown :: "serveOptions \<Rightarrow> string \<Rightarrow> string \<Rightarrow> int \<Rightarrow> clip_env \<Rightarrow> 'p app \<Rightarrow> snapshot" where
  "shown opts bridgeID version started e a = BuildSnapshot (source_of e (uiSource_of opts bridgeID version started a))"

definition setup_changed ::
  "serveOptions \<Rightarrow> string \<Rightarrow> string \<Rightarrow> int \<Rightarrow> clip_env \<Rightarrow> 'p app \<Rightarrow> 'f ui_sys \<Rightarrow> 'f ui_sys" where
  "setup_changed opts bridgeID version started e a s = hub_SetSnapshot (shown opts bridgeID version started e a) s"

section \<open>Lemmas\<close>

lemma shown_fields:
  "sh_DTLSStreamUp (shown opts b v t e a) = isUp (aw_stream a)"
  "sh_Fallback (shown opts b v t e a) = InFallback (aw_clip a)"
  "sh_Mode (shown opts b v t e a) = (if cv_EntertainmentMode (aw_clip a) \<and> \<not> InFallback (aw_clip a) then ''entertainment'' else ''rest'')"
  "sh_ProPaired (shown opts b v t e a) = (GetPro (aw_cfg a) \<noteq> None)"
  "sh_TVClients (shown opts b v t e a) = PairedDeviceTypes (aw_cfg a)"
  "sh_SetupComplete (shown opts b v t e a) = SetupComplete (aw_cfg a)"
  "sh_CurrentStep (shown opts b v t e a) = CurrentStep (aw_setup a)"
  by (auto simp: shown_def BuildSnapshot_def source_of_def uiSource_of_def Let_def UIStatus_def InFallback_def ProInfo_def
      Reduction_def SetupInfo_def Precond_def split: option.split)

lemma shown_health:
  "sh_Health (shown opts b v t e a) = health (GetPro (aw_cfg a) \<noteq> None) (PairedDeviceTypes (aw_cfg a))
     (fst (DrivenV1IDs (en_now e) (aw_live a)) \<noteq> []) (UIStatus (aw_clip a))"
  by (auto simp: shown_def BuildSnapshot_def source_of_def uiSource_of_def Let_def ui_Active_def UIStatus_def ProInfo_def
      Reduction_def SetupInfo_def Precond_def split: option.split)

lemma shown_lights:
  "sh_Lights (shown opts b v t e a) = (case fst (LightsV1Snapshot e (aw_clip a)) of None \<Rightarrow> []
     | Some lv1 \<Rightarrow> sort_key numeric_id (map (light_view (fst (DrivenV1IDs (en_now e) (aw_live a))) (LiveSnapshot (aw_live a))) lv1))"
  by (auto simp: shown_def BuildSnapshot_def source_of_def uiSource_of_def Let_def ProInfo_def
      Reduction_def SetupInfo_def Precond_def UIStatus_def split: option.split)

lemma streaming_health:
  assumes "health paired tv active mi = ''streaming-pro''"
  shows "paired \<and> tv \<noteq> [] \<and> active \<and> fst (snd mi)"
  using assms by (auto simp: health_def split: prod.splits if_splits)

text \<open>A typed light has a name and an on state the view takes over, and no brightness or colour it can read.\<close>

lemma typed_view:
  assumes "v1_light_ok raw"
  shows "lw_Bri (pro_view i raw) = 0 \<and> lw_X (pro_view i raw) = 0 \<and> lw_Y (pro_view i raw) = 0"
proof -
  obtain m st where m: "raw = GObj m" "oget m ''state'' = GObj st" "v1_state_ok st"
    using assms by (auto simp: v1_light_ok_def split: gval.splits)
  have "\<forall>x. oget st ''bri'' \<noteq> GFloat x" using m(3)
    by (auto simp: v1_state_ok_def v1_bri_ok_def oget_def split: option.splits gval.splits)
  moreover have "\<forall>x. oget st ''xy'' \<noteq> GArr x" using m(3)
    by (auto simp: v1_state_ok_def v1_xy_ok_def oget_def split: option.splits gval.splits)
  ultimately show ?thesis by (simp add: pro_view_def Let_def m obj_or_empty_def obj_of_def with_untyped)
qed

lemma snapshot_typed: "typed c \<Longrightarrow> fst (LightsV1Snapshot e c) = Some m \<Longrightarrow> v1_list_ok m"
  using server_lights_ok [of c e]
  by (auto simp: LightsV1Snapshot_def server_lightsV1_def split: option.splits prod.splits sum.splits)

text \<open>
  The card of a light the stream has not touched shows no brightness and no colour, whatever the Pro
  reports: the snapshot looks for the types decoded JSON would have.
\<close>

theorem pro_colours_lost:
  assumes "app_init a0" "run app_step a0 es a" "lv \<in> set (sh_Lights (shown opts b v t e a))"
    "mget (LiveSnapshot (aw_live a)) (lw_ID lv) = None"
  shows "lw_Bri lv = 0 \<and> lw_X lv = 0 \<and> lw_Y lv = 0"
proof -
  obtain m where m: "fst (LightsV1Snapshot e (aw_clip a)) = Some m"
    and "lv \<in> set (map (light_view (fst (DrivenV1IDs (en_now e) (aw_live a))) (LiveSnapshot (aw_live a))) m)"
    using assms(3) by (cases "fst (LightsV1Snapshot e (aw_clip a))") (simp_all add: shown_lights)
  then obtain i raw where l: "(i, raw) \<in> set m" "lv = light_view (fst (DrivenV1IDs (en_now e) (aw_live a))) (LiveSnapshot (aw_live a)) (i, raw)"
    by auto
  have "v1_light_ok raw" using snapshot_typed [OF listing.reachable_inv [OF assms(1,2)] m] l(1)
    by (auto simp: v1_list_ok_def list_all_iff)
  moreover have "lw_ID lv = i" by (simp add: l(2) light_view_def)
  ultimately show ?thesis using typed_view [of raw i] assms(4) by (simp add: l(2) light_view_def live_over_def)
qed

section \<open>Properties\<close>


definition demo_shown :: snapshot where
  "demo_shown = shown (defaultOptions []) ''2c4d54fffeea2832'' ''1'' 0 demo_fetch demo_tv_up"


end
