(* ===== verification/Listen.thy ===== *)
theory Listen
  imports WiringProps
begin

text \<open>
  The DTLS listener of the receiver (\<open>Receiver.Run\<close>) over the running program: the pre-shared key
  callback, the accept loop with its shutdown, the handshake at the front of \<open>Receiver.handle\<close>, and the
  frames of a session, which reach the program only while that session streams.  The DTLS library is a
  parameter: \<open>shake psk c\<close> is the identity a handshake on connection \<open>c\<close> ends with, if it succeeds.
\<close>

section \<open>Who changes the paired clients\<close>

lemma users_saves:
  "SaveEntConfigID wr j c f = (err, c', f') \<Longrightarrow> cf_APIUsers c' = cf_APIUsers c"
  "SetPro wr p c f = (err, c', f') \<Longrightarrow> cf_APIUsers c' = cf_APIUsers c"
  "Commit wr c f = (err, c', f') \<Longrightarrow> cf_APIUsers c' = cf_APIUsers c"
  by (auto simp: SaveEntConfigID_def SetPro_def Commit_def save_def Let_def split: if_splits prod.splits dest!: saving_persist)

definition users_are :: "(string, APIUser) gomap \<Rightarrow> 'p main_world \<Rightarrow> bool" where
  "users_are us w \<longleftrightarrow> (case w of (p, c, f, wr) \<Rightarrow> cf_APIUsers c = us)"

interpretation wired_users: world_keeps "wired_net n" "users_are us" for n :: "'p net" and us
proof unfold_locales
  fix g j and w :: "'p main_world"
  assume g: "nt_saveCfgID (wired_net n) = Some g" and k: "users_are us w"
  obtain p c f' wr where w: "w = (p, c, f', wr)" using prod_cases4 by blast
  obtain err c' f'' where s: "SaveEntConfigID wr j c f' = (err, c', f'')" using prod_cases3 by blast
  then show "users_are us (g j w)" using g k users_saves(1) [OF s]
    by (auto simp: wired_net_def main_save_def users_are_def w)
qed (auto simp: wired_net_def on_pro_def users_are_def split: prod.splits)

lemma users_world [simp]: "users_are (cf_APIUsers (aw_cfg a)) (world wr a)"
  by (simp add: users_are_def world_def)

lemma users_put_world: "users_are us w \<Longrightarrow> cf_APIUsers (aw_cfg (put_world w a)) = us"
  by (auto simp: users_are_def put_world_def split: prod.splits)

lemma users_run_setup: "cf_APIUsers (aw_cfg (run_setup wr ev a)) = cf_APIUsers (aw_cfg a)"
proof -
  have "cf_APIUsers c = cf_APIUsers (aw_cfg a)" if "Commit wr (aw_cfg a) f = (err, c, g)" for f err c g
    by (rule users_saves(3) [OF that])
  then show ?thesis by (auto simp: run_setup_def Let_def split: prod.split)
qed

lemma users_request: "cf_APIUsers (aw_cfg (tv_request_step rq e a)) = cf_APIUsers (cv_cfg (snd (serve rq e (aw_clip a))))"
  by (simp add: tv_request_step_def Let_def users_run_setup)

lemma users_turn:
  assumes "streamer_turn wr a = Some a'" shows "cf_APIUsers (aw_cfg a') = cf_APIUsers (aw_cfg a)"
proof -
  obtain b where b: "aw_phase a = Trying b" using assms by (auto simp: streamer_turn_def split: run_phase.splits)
  obtain t b' s w where r: "run_turn_of (wired_net (aw_net a)) (pro_resolver (aw_cfg a)) b (aw_str a) (world wr a) = (t, b', s, w)"
    using prod_cases4 by blast
  have "users_are (cf_APIUsers (aw_cfg a)) w" by (rule wired_users.run_turn_keeps [OF r users_world])
  then show ?thesis using assms b r by (auto simp: streamer_turn_def users_put_world)
qed

lemma users_tick:
  assumes "streamer_tick wr a = Some a'" shows "cf_APIUsers (aw_cfg a') = cf_APIUsers (aw_cfg a)"
proof -
  obtain l where l: "aw_phase a = InLoop l" using assms by (auto simp: streamer_tick_def split: run_phase.splits)
  obtain l' s w where r: "send_tick (wired_net (aw_net a)) l (aw_str a) (world wr a) = (l', s, w)" using prod_cases3 by blast
  have "users_are (cf_APIUsers (aw_cfg a)) w" by (rule wired_users.send_tick_keeps [OF r users_world])
  then show ?thesis using assms l r by (auto simp: streamer_tick_def users_put_world)
qed

lemma users_stop: "cf_APIUsers (aw_cfg (stop_stream wr a)) = cf_APIUsers (aw_cfg a)"
proof -
  obtain s w where st: "Stop (wired_net (aw_net a)) (aw_str a) (world wr a) = (s, w)"
    by (cases "Stop (wired_net (aw_net a)) (aw_str a) (world wr a)")
  have "users_are (cf_APIUsers (aw_cfg a)) w" by (rule wired_users.Stop_keeps [OF st users_world])
  then show ?thesis by (simp add: stop_stream_def st users_put_world)
qed

lemma forward_calls_cfg: "cv_cfg (forward_calls cs c) = cv_cfg c"
proof (induction cs rule: rev_induct)
  case (snoc x cs)
  have "cv_cfg (ForwardLight i st d) = cv_cfg d" for i st d by (simp add: ForwardLight_def split: option.split)
  then show ?case using snoc by (simp add: forward_calls_def split: prod.split)
qed (simp add: forward_calls_def)

text \<open>Nothing but a request changes the paired clients.\<close>

lemma users_step:
  assumes "app_step a e a'" "\<And>rq env. e \<noteq> ARequest rq env" shows "cf_APIUsers (aw_cfg a') = cf_APIUsers (aw_cfg a)"
proof -
  have st: "app_next a e = Some a'" using assms(1) by (simp add: app_step_def)
  show ?thesis
  proof (cases e)
    case (AFrame f)
    then show ?thesis using st by (auto simp: receive_frame_def forward_calls_cfg split: if_splits prod.splits push_out.splits)
  next
    case (ASession ev)
    then show ?thesis using st
      by (auto simp: session_step_def MarkDTLSStreamUp_def MarkDTLSStreamDown_def Let_def split: if_splits option.splits ses_event.splits)
  next
    case (AHook wr)
    then show ?thesis using st users_stop [of wr a] by (auto simp: start_stream_def split: hook.splits prod.splits)
  next
    case (ASetPro wr p)
    then show ?thesis using st by (auto split: prod.splits dest: users_saves(2))
  next
    case (APublish r)
    then show ?thesis using st by (cases "cv_lights (aw_clip a)") auto
  next
    case ATake
    then show ?thesis using st by (cases "cv_lights (aw_clip a)") (auto split: prod.splits)
  next
    case (ARollup rounded)
    then show ?thesis using st
      by (auto simp: activity_rollup_def flushActivity_def DrainStatsDelta_def Let_def split: prod.splits option.splits if_splits)
  qed (use st assms(2) in \<open>auto simp: users_run_setup users_stop users_turn users_tick MarkActivity_def idle_round_def
      streamer_rollup_def SetLightProvider_def CloseLightWrites_def Let_def
      split: if_splits option.splits prod.splits run_phase.splits\<close>)
qed

text \<open>A request may add one; with a fresh random name the others keep their credentials.\<close>

lemma users_grow:
  assumes "app_step a e a'" "mget (cf_APIUsers (aw_cfg a)) u \<noteq> None" shows "mget (cf_APIUsers (aw_cfg a')) u \<noteq> None"
proof (cases "\<exists>rq env. e = ARequest rq env")
  case True
  then obtain rq env where "a' = tv_request_step rq env a" using assms(1) by (auto simp: app_step_def split: if_splits)
  then show ?thesis using assms(2) users_request [of rq env a]
    by (auto intro: serve_pairing_cfg [OF surjective_pairing, of rq env "aw_clip a"])
next
  case False
  then show ?thesis using users_step [OF assms(1)] assms(2) by simp
qed

section \<open>The listener\<close>

text \<open>\<open>psk\<close>: the key for the identity the client presents, or the error for an unknown one.\<close>

definition psk :: "(string \<Rightarrow> nat list option) \<Rightarrow> string \<Rightarrow> string + nat list" where
  "psk lookup hint = (case lookup hint of None \<Rightarrow> Inl hint | Some key \<Rightarrow> Inr key)"

text \<open>
  \<open>ls_conns\<close> are the accepted connections; connection \<open>i\<close> is handled by session \<open>i\<close> of the program.
  \<open>ls_auth\<close> holds the identities of the finished handshakes, \<open>ls_gone\<close> the handlers that returned because
  their handshake failed, \<open>ls_frames\<close> the sessions whose frames were handed on, which is ghost state.
\<close>

record ('p, 'c) listening =
  ls_app :: "'p app"
  ls_open :: bool
  ls_cancelled :: bool
  ls_returned :: bool
  ls_conns :: "'c list"
  ls_auth :: "(nat, string) gomap"
  ls_gone :: "nat list"
  ls_frames :: "nat list"

text \<open>
  The events: the accept loop gets a connection or an error, the context is cancelled and the goroutine
  waiting for that closes the listener, a handler shakes hands, registers its session, or reads a datagram, and
  everything else in the program.  A frame is a datagram that parses.
\<close>

datatype 'c listen_event =
    LAccept 'c
  | LAcceptErr
  | LCancel
  | LCloser
  | LHandshake nat
  | LRegister nat
  | LDatagram nat
  | LFrame nat Frame
  | LApp app_event

text \<open>The events of the program that only a session causes.\<close>

definition session_only :: "app_event \<Rightarrow> bool" where
  "session_only e = (case e of ASession ev \<Rightarrow> (case ev of Register i \<Rightarrow> True | _ \<Rightarrow> False)
     | AFrame f \<Rightarrow> True | ADatagram \<Rightarrow> True | _ \<Rightarrow> False)"

text \<open>The reader of a session runs from the return of \<open>OnStreamStart\<close> to the call of \<open>OnStreamStop\<close>.\<close>

definition reading :: "nat \<Rightarrow> 'p app \<Rightarrow> bool" where
  "reading i a \<longleftrightarrow> ses_phase (aw_ses a) i = Streaming \<and> aw_hook a = NoHook"

definition in_app :: "app_event \<Rightarrow> ('p, 'c) listening \<Rightarrow> ('p, 'c) listening option" where
  "in_app e s = map_option (\<lambda>a. s\<lparr>ls_app := a\<rparr>) (app_next (ls_app s) e)"

fun listen_next ::
  "((string \<Rightarrow> string + nat list) \<Rightarrow> 'c \<Rightarrow> string option) \<Rightarrow> ('p, 'c) listening \<Rightarrow> 'c listen_event \<Rightarrow> ('p, 'c) listening option" where
  "listen_next shake s (LAccept c) = (if \<not> ls_returned s \<and> ls_open s then Some (s\<lparr>ls_conns := ls_conns s @ [c]\<rparr>) else None)"
| "listen_next shake s LAcceptErr =
     (if ls_returned s then None
      else Some (if ls_cancelled s then s\<lparr>ls_returned := True, ls_open := False\<rparr> else s))"
| "listen_next shake s LCancel = Some (s\<lparr>ls_cancelled := True\<rparr>)"
| "listen_next shake s LCloser = (if ls_cancelled s then Some (s\<lparr>ls_open := False\<rparr>) else None)"
| "listen_next shake s (LHandshake i) =
     (if i < length (ls_conns s) \<and> mget (ls_auth s) i = None \<and> i \<notin> set (ls_gone s)
      then (case shake (psk (PSKForUser (aw_cfg (ls_app s)))) (ls_conns s ! i) of
              None \<Rightarrow> Some (s\<lparr>ls_gone := i # ls_gone s\<rparr>)
            | Some u \<Rightarrow> Some (s\<lparr>ls_auth := mput i u (ls_auth s)\<rparr>))
      else None)"
| "listen_next shake s (LRegister i) = (if mget (ls_auth s) i = None then None else in_app (ASession (Register i)) s)"
| "listen_next shake s (LDatagram i) = (if reading i (ls_app s) then in_app ADatagram s else None)"
| "listen_next shake s (LFrame i f) =
     (if reading i (ls_app s) then in_app (AFrame f) (s\<lparr>ls_frames := i # ls_frames s\<rparr>) else None)"
| "listen_next shake s (LApp e) = (if session_only e then None else in_app e s)"

definition listen_step ::
  "((string \<Rightarrow> string + nat list) \<Rightarrow> 'c \<Rightarrow> string option) \<Rightarrow> ('p, 'c) listening \<Rightarrow> 'c listen_event \<Rightarrow> ('p, 'c) listening \<Rightarrow> bool" where
  "listen_step shake s e s' \<longleftrightarrow> listen_next shake s e = Some s'"

definition listen_start :: "'p app \<Rightarrow> ('p, 'c) listening" where
  "listen_start a = \<lparr>ls_app = a, ls_open = True, ls_cancelled = False, ls_returned = False, ls_conns = [],
     ls_auth = [], ls_gone = [], ls_frames = []\<rparr>"

definition listen_init :: "('p, 'c) listening \<Rightarrow> bool" where
  "listen_init s \<longleftrightarrow> (\<exists>a. app_init a \<and> s = listen_start a)"

text \<open>What is relied on of the DTLS library: a handshake succeeds only as an identity the callback has a key for.\<close>

definition psk_contract :: "((string \<Rightarrow> string + nat list) \<Rightarrow> 'c \<Rightarrow> string option) \<Rightarrow> bool" where
  "psk_contract shake \<longleftrightarrow> (\<forall>p c u. shake p c = Some u \<longrightarrow> (\<exists>key. p u = Inr key))"

section \<open>Invariant\<close>

definition authenticated :: "('p, 'c) listening \<Rightarrow> nat \<Rightarrow> bool" where
  "authenticated s i \<longleftrightarrow> (case mget (ls_auth s) i of None \<Rightarrow> False | Some u \<Rightarrow> HasAPIUser (aw_cfg (ls_app s)) u)"

definition listen_inv :: "('p, 'c) listening \<Rightarrow> bool" where
  "listen_inv s \<longleftrightarrow> (\<forall>i. mget (ls_auth s) i \<noteq> None \<longrightarrow> authenticated s i)
     \<and> (\<forall>i. ses_phase (aw_ses (ls_app s)) i \<noteq> Accepted \<longrightarrow> authenticated s i)
     \<and> (\<forall>i \<in> set (ls_frames s). authenticated s i)
     \<and> (\<not> ls_open s \<longrightarrow> ls_cancelled s) \<and> (ls_returned s \<longrightarrow> \<not> ls_open s)"

lemma authenticated_same [simp]:
  "authenticated (s\<lparr>ls_gone := g\<rparr>) i = authenticated s i" "authenticated (s\<lparr>ls_open := b\<rparr>) i = authenticated s i"
  "authenticated (s\<lparr>ls_cancelled := b\<rparr>) i = authenticated s i" "authenticated (s\<lparr>ls_conns := cs\<rparr>) i = authenticated s i"
  "authenticated (s\<lparr>ls_frames := js\<rparr>) i = authenticated s i" "authenticated (s\<lparr>ls_returned := b\<rparr>) i = authenticated s i"
  by (simp_all add: authenticated_def split: option.split)

lemma authenticated_put:
  "HasAPIUser (aw_cfg (ls_app s)) u \<Longrightarrow> authenticated (s\<lparr>ls_auth := mput k u (ls_auth s)\<rparr>) i \<longleftrightarrow> i = k \<or> authenticated s i"
  by (simp add: authenticated_def split: option.split)

lemma sessions_kept:
  assumes "app_step a e a'" "\<And>ev. e \<noteq> ASession ev" shows "aw_ses a' = aw_ses a"
proof -
  have st: "app_next a e = Some a'" using assms(1) by (simp add: app_step_def)
  have setup': "aw_ses (run_setup wr ev b) = aw_ses b" for wr ev and b :: "'a app"
    by (auto simp: run_setup_def Let_def split: prod.split)
  show ?thesis
  proof (cases e)
    case (ARequest rq env)
    then show ?thesis using st by (auto simp: tv_request_step_def Let_def setup' split: if_splits)
  next
    case (AFrame f)
    then show ?thesis using st by (auto simp: receive_frame_def split: if_splits prod.splits push_out.splits)
  next
    case (AHook wr)
    then show ?thesis using st by (auto simp: start_stream_def stop_stream_def split: hook.splits prod.splits)
  next
    case (AShutdown wr)
    then show ?thesis using st by (auto simp: stop_stream_def split: if_splits prod.splits)
  qed (use st assms(2) in \<open>auto simp: setup' streamer_turn_def streamer_tick_def streamer_rollup_def activity_rollup_def idle_round_def
      Let_def split: if_splits option.splits prod.splits run_phase.splits\<close>)
qed

lemma ses_next_accepted:
  "ses_next y ev = Some z \<Longrightarrow> ses_phase z i \<noteq> Accepted \<Longrightarrow> ses_phase y i \<noteq> Accepted \<or> ev = Register i"
  by (cases ev) (auto split: if_splits ses_phase.splits option.splits)

lemma session_accepted:
  assumes "app_step a (ASession ev) a'" "ses_phase (aw_ses a') i \<noteq> Accepted"
  shows "ses_phase (aw_ses a) i \<noteq> Accepted \<or> ev = Register i"
proof -
  have "ses_next (aw_ses a) ev = Some (aw_ses a')"
    using assms(1) by (auto simp: app_step_def session_step_def Let_def split: if_splits option.splits ses_event.splits)
  then show ?thesis using assms(2) by (rule ses_next_accepted)
qed

text \<open>A step of the program other than a registration keeps the invariant, whatever the listener did.\<close>

lemma authenticated_step:
  "app_step (ls_app s) e a \<Longrightarrow> authenticated s i \<Longrightarrow> authenticated (s\<lparr>ls_app := a\<rparr>) i"
  using users_grow [of "ls_app s" e a] by (auto simp: authenticated_def HasAPIUser_def split: option.splits)

lemma listen_inv_app:
  assumes "listen_inv s" "in_app e s = Some s'"
    and "\<And>i. e = ASession (Register i) \<Longrightarrow> mget (ls_auth s) i \<noteq> None"
  shows "listen_inv s'"
proof -
  obtain a where a: "app_step (ls_app s) e a" "s' = s\<lparr>ls_app := a\<rparr>"
    using assms(2) by (auto simp: in_app_def app_step_def)
  note keep = authenticated_step [OF a(1)]
  have "authenticated s' i" if "ses_phase (aw_ses a) i \<noteq> Accepted" for i
  proof -
    have "ses_phase (aw_ses (ls_app s)) i \<noteq> Accepted \<or> e = ASession (Register i)"
      using session_accepted [of "ls_app s" _ a i] sessions_kept [OF a(1)] that a(1) by (cases e) auto
    then have "authenticated s i" using assms(1,3) by (auto simp: listen_inv_def)
    then show ?thesis using keep a(2) by simp
  qed
  moreover have "authenticated s' i" if "mget (ls_auth s) i \<noteq> None \<or> i \<in> set (ls_frames s)" for i
    using that assms(1) keep a(2) by (auto simp: listen_inv_def)
  ultimately show ?thesis using assms(1) a(2) by (auto simp: listen_inv_def)
qed

lemma listen_inv_step:
  assumes "psk_contract shake"
    and "listen_step shake s e s'" "listen_inv s"
  shows "listen_inv s'"
proof -
  have st: "listen_next shake s e = Some s'" using assms(2) by (simp add: listen_step_def)
  show ?thesis
  proof (cases e)
    case (LHandshake i)
    show ?thesis
    proof (cases "shake (psk (PSKForUser (aw_cfg (ls_app s)))) (ls_conns s ! i)")
      case None
      then show ?thesis using st assms(3) LHandshake by (auto simp: listen_inv_def split: if_splits)
    next
      case (Some u)
      then obtain key where "psk (PSKForUser (aw_cfg (ls_app s))) u = Inr key" using assms(1) by (metis psk_contract_def)
      then have "HasAPIUser (aw_cfg (ls_app s)) u"
        by (auto simp: psk_def PSKForUser_def HasAPIUser_def split: option.splits)
      from authenticated_put [OF this] show ?thesis using st assms(3) LHandshake Some
        by (auto simp: listen_inv_def split: if_splits)
    qed
  next
    case (LRegister i)
    then show ?thesis using st listen_inv_app [OF assms(3)] by (auto split: if_splits)
  next
    case (LDatagram i)
    then show ?thesis using st listen_inv_app [OF assms(3)] by (auto split: if_splits)
  next
    case (LFrame i f)
    then have "listen_inv (s\<lparr>ls_frames := i # ls_frames s\<rparr>)" using st assms(3)
      by (auto simp: listen_inv_def reading_def split: if_splits)
    then show ?thesis using st LFrame listen_inv_app by (auto split: if_splits)
  next
    case (LApp ev)
    then have "in_app ev s = Some s'" "\<not> session_only ev" using st by (auto split: if_splits)
    then show ?thesis by (intro listen_inv_app [OF assms(3)]) (auto simp: session_only_def)
  qed (use st assms(3) in \<open>auto simp: listen_inv_def split: if_splits\<close>)
qed

lemma listen_inv_init: "listen_init s \<Longrightarrow> listen_inv s"
  by (auto simp: listen_init_def listen_start_def listen_inv_def app_init_def wire_def ses_start_def authenticated_def)

lemma listen_inv_run:
  assumes "psk_contract shake" "listen_init s0" "run (listen_step shake) s0 es s"
  shows "listen_inv s"
  using assms(3,2)
proof (induction rule: run.induct)
  case (run_snoc s es s' e s'')
  then show ?case using listen_inv_step [OF assms(1)] by blast
qed (simp add: listen_inv_init)

text \<open>What the program does under its listener is a run of the program: its theorems carry over.\<close>

lemma in_app_run: "in_app e s = Some s' \<Longrightarrow> run app_step a0 es (ls_app s) \<Longrightarrow> \<exists>fs. run app_step a0 fs (ls_app s')"
  by (auto simp: in_app_def app_step_def intro!: exI [of _ "es @ [e]"] run_snoc)

lemma listen_app_run:
  assumes "run (listen_step shake) s0 es s" shows "\<exists>fs. run app_step (ls_app s0) fs (ls_app s)"
  using assms
proof (induction rule: run.induct)
  case (run_snoc s es s' e s'')
  then obtain fs where fs: "run app_step (ls_app s) fs (ls_app s')" by blast
  have "ls_app s'' = ls_app s' \<or> (\<exists>ev t. in_app ev t = Some s'' \<and> ls_app t = ls_app s')"
    using run_snoc(2) unfolding listen_step_def by (cases e) (auto split: if_splits option.splits, force+)
  then show ?case using fs in_app_run [of _ _ s'' "ls_app s" fs] by metis
qed blast

text \<open>The listener stops: once the context is cancelled, closing it makes the pending accept return, for good.\<close>

lemma listener_stops:
  "ls_returned s \<Longrightarrow> listen_inv s \<Longrightarrow> ls_cancelled s \<and> listen_next shake s (LAccept c) = None \<and> listen_next shake s LAcceptErr = None"
  "ls_cancelled s \<Longrightarrow> \<not> ls_returned s \<Longrightarrow>
     (\<exists>s1 s2. listen_next shake s LCloser = Some s1 \<and> \<not> ls_open s1 \<and> listen_next shake s1 LAcceptErr = Some s2 \<and> ls_returned s2)"
  by (auto simp: listen_inv_def)

section \<open>From the pairing to the key\<close>

text \<open>An event that does not mint the given user name for another client.\<close>

definition mints_other :: "string \<Rightarrow> app_event \<Rightarrow> bool" where
  "mints_other name e = (case e of ARequest rq env \<Rightarrow> randomHex (en_user env) \<noteq> name | _ \<Rightarrow> True)"

lemma user_step:
  assumes "app_step a e a'" "mints_other name e"
  shows "mget (cf_APIUsers (aw_cfg a')) name = mget (cf_APIUsers (aw_cfg a)) name"
proof (cases "\<exists>rq env. e = ARequest rq env")
  case True
  then obtain rq env where e: "e = ARequest rq env" "a' = tv_request_step rq env a"
    using assms(1) by (auto simp: app_step_def split: if_splits)
  show ?thesis
    by (rule serve_pairing_cfg [OF surjective_pairing, of rq env "aw_clip a"])
      (use assms(2) e users_request [of rq env a] in \<open>auto simp: mints_other_def\<close>)
next
  case False
  then show ?thesis using users_step [OF assms(1)] by simp
qed

lemma user_run:
  "run app_step a es a' \<Longrightarrow> list_all (mints_other name) es \<Longrightarrow>
   mget (cf_APIUsers (aw_cfg a')) name = mget (cf_APIUsers (aw_cfg a)) name"
proof (induction rule: run.induct)
  case (run_snoc s es s' e s'')
  then show ?case using user_step [of s' e s'' name] by simp
qed simp

lemma pairing_mints:
  assumes "pairing_request body = Some (dt, True)" "server_isTV rq c" "APIUserByDeviceType (cv_cfg c) dt = None"
    and u: "u = \<lparr>au_Username = randomHex (en_user e), au_DeviceType = dt, au_ClientKey = ToUpper (randomHex (en_key e))\<rparr>"
    and "handlePairing rq body e c = (resp, c')"
  shows "mget (cf_APIUsers (cv_cfg c')) (au_Username u) = Some u
    \<and> resp \<in> {success [(''username'', GStr (au_Username u)), (''clientkey'', GStr (au_ClientKey u))], writeError 901 ''/'' ''internal error''}"
proof -
  obtain err d f where a: "AddAPIUser (en_write e) u (cv_cfg c) (cv_file c) = (err, d, f)" using prod_cases3 by blast
  then show ?thesis using assms AddAPIUser_cfg [OF a] by (auto simp: handlePairing_def Let_def split: if_splits)
qed

section \<open>Properties\<close>


text \<open>A library whose handshake succeeds for every identity that has a key: the client says who it is.\<close>

definition demo_shake :: "(string \<Rightarrow> string + nat list) \<Rightarrow> string \<Rightarrow> string option" where
  "demo_shake p c = (case p c of Inl e \<Rightarrow> None | Inr key \<Rightarrow> Some c)"

definition demo_listening :: "(unit, string) listening" where
  "demo_listening = the (exec (listen_next demo_shake) (listen_start demo_app)
     [LAccept ''mallory'', LAccept ''u1'', LHandshake 0, LHandshake 1, LRegister 1])"

lemma demo_keys: "PSKForUser demo_loaded ''u1'' = Some [171]" "PSKForUser demo_loaded ''mallory'' = None"
  by code_simp+

lemma demo_listening_eval:
  "exec (listen_next demo_shake) (listen_start demo_app)
     [LAccept ''mallory'', LAccept ''u1'', LHandshake 0, LHandshake 1, LRegister 1] = Some demo_listening
   \<and> ses_phase (aw_ses (ls_app demo_listening)) 1 \<noteq> Accepted"
proof -
  have c: "aw_cfg demo_app = demo_loaded" "aw_ses demo_app = ses_start" "sv_entertainmentMode (aw_sc demo_app)"
    by (simp_all add: demo_app_def wire_def serve_clip_fields demo_sc_def)
  then show ?thesis
    by (simp add: demo_listening_def listen_start_def demo_shake_def psk_def demo_keys in_app_def session_step_def ses_start_def)
qed



text \<open>A first start, with a client key asked for.\<close>

definition demo_key_pairing :: request where
  "demo_key_pairing = tv_request ''POST'' ''/api'' (GObj [(''devicetype'', GStr ''tv''), (''generateclientkey'', GBool True)])"

lemma demo_key_eval:
  "route_of (rq_method demo_key_pairing) (rq_path demo_key_pairing) = RPairing"
  "pairing_request (rq_body demo_key_pairing) = Some (''tv'', True)"
  "isTVRequest [] (rq_remote demo_key_pairing) (rq_ua demo_key_pairing)"
  "APIUserByDeviceType demo_fresh ''tv'' = None"
  by code_simp+


end
