(* ===== verification/Discovery.thy ===== *)
theory Discovery
  imports Mdns Ssdp ClipServer
begin

text \<open>
  The discovery services as \<open>runServe\<close> starts them: the mDNS announcer (\<open>Announcer.Run\<close>), the mDNS
  observer of the debug mode (\<open>MDNSObserver.Run\<close>) and the SSDP responder (\<open>Responder.Run\<close> from the choice
  of the interface on, and \<open>logDatagram\<close>).  The mDNS responder, the sockets and the interface list are
  parameters; the sockets' deadlines are the timeouts of the reads.
\<close>

section \<open>The announcer\<close>

text \<open>The library: building the zone of a service, and serving a zone on an interface or on all.\<close>

record ('z, 'm) mdns_lib =
  ml_service :: "string \<times> string \<times> string \<times> string \<times> int \<times> string list \<Rightarrow> u8 list \<Rightarrow> 'z option"
  ml_server :: "'z \<Rightarrow> Interface option \<Rightarrow> 'm option"

datatype 'm announce = InvalidIP string | ServiceFailed | RegisterFailed | Announcing 'm

text \<open>
  \<open>Run\<close> up to its wait for the context, whose error it then returns; \<open>None\<close> is the panic on a serial too
  short for a bridge id.  A missing interface is only logged.
\<close>

definition Announcer_Run :: "('z, 'm) mdns_lib \<Rightarrow> Interface list option \<Rightarrow> Identity \<Rightarrow> string \<Rightarrow> int \<Rightarrow> 'm announce option" where
  "Announcer_Run lib ifaces i advIP port =
     (case serviceSpec_of i of None \<Rightarrow> None
      | Some spec \<Rightarrow> Some
         (case ParseIPv4 advIP of None \<Rightarrow> InvalidIP advIP
          | Some ip \<Rightarrow>
              (case ml_service lib (newService spec port) ip of None \<Rightarrow> ServiceFailed
               | Some zone \<Rightarrow>
                   (case ml_server lib zone (InterfaceForIP ifaces advIP) of None \<Rightarrow> RegisterFailed
                    | Some server \<Rightarrow> Announcing server))))"

section \<open>The observer\<close>

datatype obs_read = ObsTimeout | ObsError | ObsPacket "u8 list" "nat list"

text \<open>The lines logged for one read: who asked for which name.\<close>

definition obs_lines :: "string \<Rightarrow> obs_read \<Rightarrow> (string \<times> string) list" where
  "obs_lines tvIP r =
     (case r of
        ObsPacket src msg \<Rightarrow> map (\<lambda>name. (IPv4_String src, name)) (inspect tvIP (ParseIPv4 tvIP = Some src) (take 65536 msg))
      | _ \<Rightarrow> [])"

text \<open>\<open>Run\<close>: the error when the group cannot be joined, else what is logged until the context ends.\<close>

definition Observer_Run :: "bool \<Rightarrow> string \<Rightarrow> obs_read list \<Rightarrow> unit + (string \<times> string) list" where
  "Observer_Run joined tvIP rs = (if \<not> joined then Inl () else Inr (concat (map (obs_lines tvIP) rs)))"

section \<open>The responder\<close>

definition first_line :: "string \<Rightarrow> string" where
  "first_line msg = (case str_IndexByte msg (CHR 0x0D) of None \<Rightarrow> msg | Some i \<Rightarrow> take i msg)"

definition logDatagram :: "string \<Rightarrow> string \<Rightarrow> (string \<times> string) list" where
  "logDatagram src msg =
     (let h = parseHeaders msg in
      [(''from'', src), (''line'', first_line msg), (''st'', hget h ''ST''), (''man'', hget h ''MAN''), (''nt'', hget h ''NT''),
       (''nts'', hget h ''NTS''), (''server'', hget h ''SERVER''), (''user-agent'', hget h ''USER-AGENT''),
       (''location'', hget h ''LOCATION'')])"

text \<open>\<open>Run\<close>: the error when the group cannot be joined on the interface, else the responder at work.\<close>

definition Responder_Run ::
  "(Interface option \<Rightarrow> 'n socket option) \<Rightarrow> Interface list option \<Rightarrow> Responder \<Rightarrow> 'n \<Rightarrow> wakeup list \<Rightarrow> (unit + 'n) option" where
  "Responder_Run join ifaces r n ws =
     (case join (InterfaceForIP ifaces (rs_advIP r)) of None \<Rightarrow> Some (Inl ())
      | Some sock \<Rightarrow> map_option Inr (Run sock r n ws))"

section \<open>Lemmas\<close>

text \<open>The announcer registers what the specification says, or reports why not; it needs nothing but the address.\<close>

lemma announcer_registers:
  assumes "BridgeID i = Some b" "ParseIPv4 advIP = Some ip"
    and "\<And>s a. ml_service lib s a = Some (s, a)" "\<And>z f. ml_server lib z f = Some (z, f)"
  shows "\<exists>spec. serviceSpec_of i = Some spec \<and> Announcer_Run lib ifaces i advIP port
    = Some (Announcing ((newService spec port, ip), InterfaceForIP ifaces advIP))"
  using assms by (simp add: Announcer_Run_def serviceSpec_of_def)

lemma announcer_refuses:
  "BridgeID i \<noteq> None \<Longrightarrow> ParseIPv4 advIP = None \<Longrightarrow> Announcer_Run lib ifaces i advIP port = Some (InvalidIP advIP)"
  by (auto simp: Announcer_Run_def serviceSpec_of_def)

text \<open>Without a TV address the observer logs a packet only when one of its questions mentions Hue.\<close>

lemma observer_quiet:
  assumes "Observer_Run True [] rs = Inr ls" "(from, name) \<in> set ls"
  shows "\<exists>src msg. ObsPacket src msg \<in> set rs \<and> from = IPv4_String src \<and> name \<in> set (dnsQuestionNames (take 65536 msg))
    \<and> (\<exists>n \<in> set (dnsQuestionNames (take 65536 msg)). Contains (ToLower n) ''hue'')"
  using assms
  by (fastforce simp: Observer_Run_def obs_lines_def inspect_def shouldLogMDNS_def Let_def split: obs_read.splits if_splits)

text \<open>However the network behaves, the responder with a usable identity does not fail once it has joined.\<close>

lemma responder_stays:
  assumes "BridgeID (rs_id r) = Some b" "join (InterfaceForIP ifaces (rs_advIP r)) = Some sock"
  shows "\<exists>n'. Responder_Run join ifaces r n ws = Some (Inr n')"
  using Run_total [OF assms(1)] assms(2) by (fastforce simp: Responder_Run_def)

text \<open>
  One bridge everywhere: the announced service, every answer to a search, the configuration and the
  descriptor name the same bridge id, and the search points at the address the descriptor gives.
\<close>

lemma one_bridge:
  assumes "BridgeID (cf_Identity (cv_cfg s)) = Some b" "header_value (cv_advIP s)"
    and "header_value (id_Serial (cf_Identity (cv_cfg s)))"
    and "r = NewResponder (cf_Identity (cv_cfg s)) (cv_advIP s) (cv_httpPort s)"
  shows "(\<exists>spec. serviceSpec_of (cf_Identity (cv_cfg s)) = Some spec \<and> ''bridgeid='' @ b \<in> set (sp_txt spec))
    \<and> (\<exists>c. shortConfig s = Some c \<and> oget c ''bridgeid'' = GStr b)
    \<and> (\<forall>v \<in> set (ssdpVariants r). mget (parseHeaders (message (search_lines r b v))) ''HUE-BRIDGEID'' = Some b
         \<and> mget (parseHeaders (message (search_lines r b v))) ''LOCATION'' =
             Some (''http://'' @ cv_advIP s @ '':'' @ Itoa (cv_httpPort s) @ ''/description.xml''))
    \<and> (\<exists>xml. handleDescription rq s = (RespXML xml, snd (handleDescription rq s))
         \<and> (\<exists>pre post. xml = pre @ ''<URLBase>http://'' @ cv_advIP s @ '':'' @ Itoa (cv_httpPort s) @ ''/</URLBase>'' @ post))"
proof (intro conjI)
  show "\<exists>spec. serviceSpec_of (cf_Identity (cv_cfg s)) = Some spec \<and> ''bridgeid='' @ b \<in> set (sp_txt spec)"
    by (simp add: serviceSpec_of_def assms(1))
  show "\<exists>c. shortConfig s = Some c \<and> oget c ''bridgeid'' = GStr b"
    by (simp add: shortConfig_def assms(1) oget_def Let_def)
  have r: "rs_id r = cf_Identity (cv_cfg s)" "rs_advIP r = cv_advIP s" by (simp_all add: assms(4) NewResponder_def)
  show "\<forall>v \<in> set (ssdpVariants r). mget (parseHeaders (message (search_lines r b v))) ''HUE-BRIDGEID'' = Some b
         \<and> mget (parseHeaders (message (search_lines r b v))) ''LOCATION'' =
             Some (''http://'' @ cv_advIP s @ '':'' @ Itoa (cv_httpPort s) @ ''/description.xml'')"
  proof
    fix v assume "v \<in> set (ssdpVariants r)"
    then have p: "parseHeaders (message (search_lines r b v)) =
      mput ''USN'' (va_usn v) (mput ''ST'' (va_st v) (mput ''HUE-BRIDGEID'' b (mput ''SERVER'' (serverHeader r)
      (mput ''LOCATION'' (location r v) (mput ''CACHE-CONTROL'' ''max-age=100'' (mput ''EXT'' []
      (mput ''HOST'' ''239.255.255.250:1900'' [])))))))" using parse_search [of r b v] assms(1-3) r by simp
    show "mget (parseHeaders (message (search_lines r b v))) ''HUE-BRIDGEID'' = Some b
       \<and> mget (parseHeaders (message (search_lines r b v))) ''LOCATION'' =
           Some (''http://'' @ cv_advIP s @ '':'' @ Itoa (cv_httpPort s) @ ''/description.xml'')"
      unfolding p by (simp only: mget_put) (simp add: location_def assms(4) NewResponder_def)
  qed
  let ?i = "cf_Identity (cv_cfg s)"
  obtain pre post where "description_lines (cv_advIP s) (cv_httpPort s) (id_Serial ?i) (UUID ?i) (suffix6 b)
      = pre @ (''<URLBase>http://'' @ cv_advIP s @ '':'' @ Itoa (cv_httpPort s) @ ''/</URLBase>'') # post"
    using that [of "take 6 (description_lines (cv_advIP s) (cv_httpPort s) (id_Serial ?i) (UUID ?i) (suffix6 b))"]
    by (simp add: description_lines_def)
  then show "\<exists>xml. handleDescription rq s = (RespXML xml, snd (handleDescription rq s))
         \<and> (\<exists>pre post. xml = pre @ ''<URLBase>http://'' @ cv_advIP s @ '':'' @ Itoa (cv_httpPort s) @ ''/</URLBase>'' @ post)"
    by (simp add: handleDescription_def Render_def assms(1) Let_def) metis
qed

end
