(* ===== verification/ProSession.thy ===== *)
theory ProSession
  imports StreamerWorld
begin

text \<open>
  The protocol towards the Hue Bridge Pro that \<open>internal/entertainment/streamer.go\<close> has to keep, as
  an abstract machine over what goes out: at most one entertainment area is started, the DTLS
  connection is opened only on a started area and closed before the area is stopped, on the bridge it
  was started on, and frames go to the open connection only and carry the id of that area.  The
  streamer implements it: \<open>pro_log\<close> is the interface to a network whose operations are recorded, and
  the record of every run of the streamer is a run of the machine.
\<close>

section \<open>The abstract protocol\<close>

text \<open>What goes out to the Pro: HTTP requests with their answers, and the life of a connection.\<close>

datatype pro_op =
    OpRequest http_request "http_response option"
  | OpDialed nat
  | OpWritten nat "u8 list"
  | OpClosed nat

text \<open>The answer the client takes as success.\<close>

definition accepted :: "http_response option \<Rightarrow> bool" where
  "accepted r = (case r of None \<Rightarrow> False
     | Some resp \<Rightarrow> hr_status resp \<noteq> 503 \<and> hr_status resp < 400 \<and> decodeCLIPErrors (hr_body resp) = None)"

definition area_request :: "string \<Rightarrow> string \<Rightarrow> string \<Rightarrow> http_request \<Rightarrow> bool" where
  "area_request act h i q \<longleftrightarrow> hq_method q = PUT \<and> hq_host q = h
     \<and> hq_path q = ''/clip/v2/resource/entertainment_configuration/'' @ i \<and> hq_body q = GObj [(''action'', GStr act)]"

text \<open>Nothing held; the area \<open>i\<close> of the bridge at \<open>h\<close> started; its connection open.\<close>

datatype pro_session = Resting | Armed string string | Live nat string string

inductive pro_step :: "pro_session \<Rightarrow> pro_op \<Rightarrow> pro_session \<Rightarrow> bool" where
  pro_other: "\<not> (start_request q \<and> accepted r) \<Longrightarrow> pro_step Resting (OpRequest q r) Resting"
| pro_start: "area_request ''start'' h i q \<Longrightarrow> accepted r \<Longrightarrow> i \<noteq> [] \<Longrightarrow> pro_step Resting (OpRequest q r) (Armed h i)"
| pro_dial: "pro_step (Armed h i) (OpDialed c) (Live c h i)"
| pro_send: "fr_ConfigID f = i \<Longrightarrow> fr_Major f = 2 \<Longrightarrow> pro_step (Live c h i) (OpWritten c (Encode f)) (Live c h i)"
| pro_close: "pro_step (Live c h i) (OpClosed c) (Armed h i)"
| pro_stop: "area_request ''stop'' h i q \<Longrightarrow> pro_step (Armed h i) (OpRequest q r) Resting"

inductive_cases pro_step_Live: "pro_step x e (Live c h i)"
inductive_cases pro_step_Armed: "pro_step x e (Armed h i)"

text \<open>A started area has an id.\<close>

lemma pro_run_id:
  "run pro_step x es y \<Longrightarrow> x = Resting \<Longrightarrow> (\<forall>h i. y = Armed h i \<longrightarrow> i \<noteq> []) \<and> (\<forall>c h i. y = Live c h i \<longrightarrow> i \<noteq> [])"
  by (induction rule: run.induct) (auto elim: pro_step_Live pro_step_Armed)

text \<open>What the streamer holds, read from its state.\<close>

definition held :: "ProStreamer \<Rightarrow> pro_session" where
  "held s = (case st_conn s of None \<Rightarrow> Resting | Some c \<Rightarrow> Live c (cl_host (the (st_pro s))) (st_configID s))"

lemma held_None [simp]: "st_conn s = None \<Longrightarrow> held s = Resting"
  by (simp add: held_def)

lemma held_update [simp]:
  "held (s\<lparr>ps_running := b\<rparr>) = held s" "held (s\<lparr>st_path := p\<rparr>) = held s"
  "held (s\<lparr>st_spikesSuppressed := n\<rparr>) = held s" "held (SetRequestedMembers ids s) = held s"
  by (simp_all add: held_def SetRequestedMembers_def cong: option.case_cong)

lemma held_push [simp]: "held (snd (Push f s)) = held s"
  using push_channels_keeps [of "fr_Channels f" "s\<lparr>st_colorSpace := fr_ColorSpace f\<rparr>"]
  by (simp add: Push_def held_def cong: option.case_cong)

lemma str_step_net: "str_step y e y' \<Longrightarrow> sr_net y' = sr_net y"
  by (induction rule: str_step.induct) simp_all

section \<open>A recorded network\<close>

text \<open>The documented behaviour the protocol relies on: the Pro answers a creation with a non-empty id.\<close>

definition names_created :: "'s net \<Rightarrow> bool" where
  "names_created n \<longleftrightarrow>
     (\<forall>pro nm ms w i w'. CreateEntertainmentConfig (nt_transport n) pro nm ms w = (Inr i, w') \<longrightarrow> i \<noteq> [])"

lemma names_createdD:
  "names_created n \<Longrightarrow> CreateEntertainmentConfig (nt_transport n) pro nm ms w = (Inr i, w') \<Longrightarrow> i \<noteq> []"
  unfolding names_created_def by blast

text \<open>The id that \<open>ensureConfig\<close> resolves is never empty.\<close>

lemma create_config_id:
  "names_created net \<Longrightarrow> create_config net pro ms m s w = (Inr (i, remap, reused, n), s', w') \<Longrightarrow> i \<noteq> []"
  by (auto simp: create_config_def Let_def split: prod.splits sum.splits if_splits dest: names_createdD)

lemma ensure_listed_id:
  "names_created net \<Longrightarrow> ensure_listed net pro ms m desired s w = (Inr (i, remap, reused, n), s', w') \<Longrightarrow> i \<noteq> []"
  by (auto simp: ensure_listed_def Let_def split: prod.splits sum.splits if_splits dest: create_config_id)

lemma ensureConfig_id:
  "names_created net \<Longrightarrow> ensureConfig net pro s w = (Inr (i, remap, reused, n), s', w') \<Longrightarrow> i \<noteq> []"
  by (auto simp: ensureConfig_def Let_def split: prod.splits sum.splits if_splits dest: ensure_listed_id)

text \<open>
  The interface: every operation of the network is recorded, and storing the configuration is not one
  of them.
\<close>

locale pro_log =
  fixes net :: "'s net"
    and log :: "'s \<Rightarrow> pro_op list"
  assumes log_request: "log (snd (nt_transport net q w)) = log w @ [OpRequest q (fst (nt_transport net q w))]"
    and log_dial: "log (snd (nt_dial net h po i k w))
      = log w @ (case fst (nt_dial net h po i k w) of None \<Rightarrow> [] | Some c \<Rightarrow> [OpDialed c])"
    and log_write: "log (snd (nt_write net c b w)) = log w @ [OpWritten c b]"
    and log_close: "log (nt_close net c w) = log w @ [OpClosed c]"
    and log_save: "nt_saveCfgID net = Some f \<Longrightarrow> log (f j w) = log w"
begin

definition session :: "'s \<Rightarrow> pro_session \<Rightarrow> bool" where
  "session w x \<longleftrightarrow> run pro_step Resting (log w) x"

lemma session_step: "session w x \<Longrightarrow> log w' = log w @ [e] \<Longrightarrow> pro_step x e y \<Longrightarrow> session w' y"
  by (simp add: session_def run_snoc)

lemma session_id: "session w (Live c h i) \<Longrightarrow> i \<noteq> []" "session w (Armed h i) \<Longrightarrow> i \<noteq> []"
  using pro_run_id by (auto simp: session_def)

lemma put_log:
  assumes "client_put (nt_transport net) c path payload w = (r, w')"
  shows "\<exists>x. log w' = log w @ [OpRequest (client_request c PUT path payload) x] \<and> (r = Inr () \<longleftrightarrow> accepted x)"
proof -
  obtain x w1 where t: "nt_transport net (client_request c PUT path payload) w = (x, w1)" by fastforce
  have "w1 = w'" "r = Inr () \<longleftrightarrow> accepted x"
    using assms t by (auto simp: client_put_def accepted_def split: option.splits if_splits)
  with log_request [of "client_request c PUT path payload" w] t show ?thesis by auto
qed

lemma start_session:
  assumes "StartStream (nt_transport net) c i w = (r, w')" "session w Resting" "i \<noteq> []"
  shows "session w' (if r = Inr () then Armed (cl_host c) i else Resting)"
proof -
  let ?q = "client_request c PUT (''/clip/v2/resource/entertainment_configuration/'' @ i) (GObj [(''action'', GStr ''start'')])"
  obtain x where x: "log w' = log w @ [OpRequest ?q x]" "r = Inr () \<longleftrightarrow> accepted x"
    using put_log assms(1) by (metis StartStream_def)
  have q: "area_request ''start'' (cl_host c) i ?q" by (simp add: area_request_def client_request_def)
  show ?thesis
    using session_step [OF assms(2) x(1)] pro_start [OF q _ assms(3), of x] pro_other [of ?q x] x(2) by auto
qed

lemma stop_session:
  assumes "session w (Armed (cl_host c) i)" shows "session (snd (StopStream (nt_transport net) c i w)) Resting"
proof -
  let ?q = "client_request c PUT (''/clip/v2/resource/entertainment_configuration/'' @ i) (GObj [(''action'', GStr ''stop'')])"
  obtain r w' where r: "StopStream (nt_transport net) c i w = (r, w')" by fastforce
  then obtain x where x: "log w' = log w @ [OpRequest ?q x]" using put_log by (metis StopStream_def)
  have "area_request ''stop'' (cl_host c) i ?q" by (simp add: area_request_def client_request_def)
  from session_step [OF assms x pro_stop [OF this]] r show ?thesis by simp
qed

end

text \<open>While nothing is held, everything but an accepted start leaves it so.\<close>

sublocale pro_log \<subseteq> rest: setup_keeps net "\<lambda>w. session w Resting"
proof
  fix q w assume "\<not> start_request q" "session w Resting"
  then show "session (snd (nt_transport net q w)) Resting"
    using session_step [OF _ log_request pro_other] by blast
qed (simp add: session_def log_save)

context pro_log begin

lemma retry_session:
  assumes "start_with_retry net c i w = (r, w')" "session w Resting" "i \<noteq> []"
  shows "session w' (if r = Inr () then Armed (cl_host c) i else Resting)"
proof -
  obtain r1 w1 where st: "StartStream (nt_transport net) c i w = (r1, w1)" by fastforce
  note s1 = start_session [OF st assms(2,3)]
  show ?thesis
  proof (cases r1)
    case (Inl e)
    with s1 have "session (snd (StopStream (nt_transport net) c i w1)) Resting" by (simp add: rest.stop_keeps)
    from start_session [OF _ this assms(3)] show ?thesis using assms(1) st Inl by (simp add: start_with_retry_def)
  qed (use assms(1) st s1 in \<open>auto simp: start_with_retry_def\<close>)
qed

lemma establish_session:
  assumes "establish net t s w = (r, s', w')" "session w Resting" "names_created net"
  shows "session w' (if r = None then held s' else Resting)"
proof (cases t)
  case None
  then show ?thesis using assms by (auto simp: establish_def)
next
  case (Some g)
  obtain r1 s1 w1 where e: "ensureConfig net (pt_client g) s w = (r1, s1, w1)" using prod_cases3 by blast
  have p1: "session w1 Resting" by (rule rest.ensureConfig_keeps [OF e assms(2)])
  show ?thesis
  proof (cases r1)
    case (Inl x)
    then show ?thesis using assms(1) Some e p1 by (auto simp: establish_def)
  next
    case (Inr y)
    obtain i remap re n where y: "y = (i, remap, re, n)" using prod_cases4 by blast
    obtain r2 w2 where st: "start_with_retry net (pt_client g) i w1 = (r2, w2)" by fastforce
    have p2: "session w2 (if r2 = Inr () then Armed (cl_host (pt_client g)) i else Resting)"
      by (rule retry_session [OF st p1]) (use ensureConfig_id [OF assms(3)] e Inr y in blast)
    obtain r3 w3 where d: "nt_dial net (pt_host g) (if ps_port s1 = 0 then 2100 else ps_port s1) (pt_appKey g) (pt_clientKey g) w2 = (r3, w3)"
      by fastforce
    show ?thesis
    proof (cases r2)
      case (Inl x)
      then show ?thesis using assms(1) Some e Inr y st p2 by (auto simp: establish_def)
    next
      case r2: (Inr u)
      have l: "log w3 = log w2 @ (case r3 of None \<Rightarrow> [] | Some c \<Rightarrow> [OpDialed c])" using log_dial d by (metis fst_conv snd_conv)
      show ?thesis
      proof (cases r3)
        case None
        then have "session w3 (Armed (cl_host (pt_client g)) i)" using p2 r2 l by (simp add: session_def)
        from stop_session [OF this] show ?thesis
          using assms(1) Some e Inr y st r2 d None by (auto simp: establish_def Let_def)
      next
        case c: (Some c)
        have "session w3 (Live c (cl_host (pt_client g)) i)"
          using session_step [OF _ _ pro_dial, of w2] p2 r2 l c by simp
        then show ?thesis
          using assms(1) Some e Inr y st r2 d c by (auto simp: establish_def Let_def held_def)
      qed
    qed
  qed
qed

lemma teardown_session:
  assumes "teardown net s w = (s', w')" "session w (held s)" "conn_ok s"
  shows "session w' Resting"
proof (cases "st_conn s")
  case None
  then have "session w Resting" using assms(2) by simp
  then show ?thesis using assms(1) None
    by (auto simp: teardown_def Let_def intro: rest.stop_keeps split: if_splits option.splits)
next
  case (Some c)
  then obtain p where p: "st_pro s = Some p" using assms(3) by (auto simp: conn_ok_def)
  have live: "session w (Live c (cl_host p) (st_configID s))" using assms(2) Some p by (simp add: held_def)
  have "session (nt_close net c w) (Armed (cl_host p) (st_configID s))" by (rule session_step [OF live log_close pro_close])
  from stop_session [OF this] show ?thesis
    using assms(1) Some p session_id(1) [OF live] by (auto simp: teardown_def Let_def)
qed

lemma send_tick_session:
  assumes "send_tick net l s w = (l', s', w')" "session w (held s)" "conn_ok s"
  shows "session w' (held s')"
proof (cases "st_conn s")
  case None
  then show ?thesis using assms by (auto simp: send_tick_def)
next
  case (Some c)
  obtain g s1 where b: "buildFrame s = (g, s1)" by fastforce
  note k = buildFrame_keeps [OF b]
  have cfg: "st_configID s1 = st_configID s" using b by (auto simp: buildFrame_def Let_def split: if_splits prod.splits)
  have h: "held s1 = held s" "conn_ok s1" using k cfg assms(3) by (auto simp: held_def conn_ok_def)
  show ?thesis
  proof (cases g)
    case None
    then show ?thesis using assms(1,2) Some b h by (auto simp: send_tick_def)
  next
    case f: (Some f)
    obtain ok w1 where w: "nt_write net c (Encode f) w = (ok, w1)" by fastforce
    have "fr_ConfigID f = st_configID s" "fr_Major f = 2"
      using buildFrame_channels(3,4) [of s f s1] b f assms(3) by (simp_all add: conn_ok_def)
    then have "pro_step (held s) (OpWritten c (Encode f)) (held s)" using Some by (simp add: held_def pro_send)
    from session_step [OF assms(2) _ this, of w1] have "session w1 (held s1)"
      using log_write [of c "Encode f" w] w h(1) by simp
    then show ?thesis using assms(1) Some b f w teardown_session [OF _ _ h(2), of w1]
      by (cases ok) (auto simp: send_tick_def Let_def split: prod.splits dest: teardown_keeps)
  qed
qed

text \<open>Every step of the streamer is a run of the protocol, from what is held before to what is held after.\<close>

lemma str_step_session:
  "str_step y e y' \<Longrightarrow> sr_net y = net \<Longrightarrow> str_inv y \<Longrightarrow> session (sr_w y) (held (sr_s y)) \<Longrightarrow>
   names_created net \<Longrightarrow>
   session (sr_w y') (held (sr_s y'))"
proof (induction rule: str_step.induct)
  case (str_Start t y launched s')
  then show ?case by (auto simp: Start_def setPath_def split: if_splits)
next
  case (str_Backoff y b t e d b' s' w')
  have r: "st_conn (sr_s y) = None" using str_Backoff(1,4) by (simp add: str_inv_def)
  obtain s1 where e: "establish net t (sr_s y) (sr_w y) = (Some e, s1, w')" "s' = setPath ''rest'' s1"
    using str_Backoff(2,3) by (auto simp: run_turn_of_def split: prod.splits option.splits)
  have "st_conn s1 = None" using same_but_cache_fields(1) [OF establish_Some [OF e(1)]] r by simp
  with establish_session [OF e(1)] str_Backoff(5,6) r e(2) show ?case by (simp add: setPath_def)
next
  case (str_Enter y b t b' s' w')
  have "st_conn (sr_s y) = None" using str_Enter(1,4) by (simp add: str_inv_def)
  moreover have "establish net t (sr_s y) (sr_w y) = (None, s', w')"
    using str_Enter(2,3) by (auto simp: run_turn_of_def split: prod.splits option.splits)
  ultimately show ?case using establish_session str_Enter(5,6) by fastforce
next
  case (str_Tick y l l' s' w')
  then show ?case using send_tick_session by (simp add: str_inv_def)
next
  case (str_Rollup y l stats l' s')
  then show ?case by (auto simp: send_rollup_def)
next
  case (str_Push y f)
  then show ?case by simp
next
  case (str_Request y ids)
  then show ?case by simp
next
  case (str_Stop y s' w')
  have t: "teardown net ((sr_s y)\<lparr>ps_running := False\<rparr>) (sr_w y) = (s', w')" using str_Stop(1,2) by (simp add: Stop_def)
  have "session (sr_w y) (held ((sr_s y)\<lparr>ps_running := False\<rparr>))" using str_Stop(4) by simp
  moreover have "conn_ok ((sr_s y)\<lparr>ps_running := False\<rparr>)" using str_Stop(3) by (simp add: str_inv_def conn_ok_def)
  ultimately show ?case using teardown_session [OF t] teardown_keeps [OF t] by simp
qed

lemma str_run_session:
  assumes "run str_step y es y'" "sr_net y = net" "str_inv y" "session (sr_w y) (held (sr_s y))" "names_created net"
  shows "sr_net y' = net \<and> str_inv y' \<and> session (sr_w y') (held (sr_s y'))"
  using assms
proof (induction rule: run.induct)
  case (run_snoc y es z e z')
  then have "sr_net z = net \<and> str_inv z \<and> session (sr_w z) (held (sr_s z))" by blast
  with run_snoc show ?case using str_step_session str_inv_step str_step_net by metis
qed simp

end

section \<open>Recording a network\<close>

definition recording :: "'s net \<Rightarrow> ('s \<times> pro_op list) net" where
  "recording n = \<lparr>
     nt_transport = (\<lambda>q (w, l). case nt_transport n q w of (r, w') \<Rightarrow> (r, (w', l @ [OpRequest q r]))),
     nt_dial = (\<lambda>h po i k (w, l). case nt_dial n h po i k w of
        (None, w') \<Rightarrow> (None, (w', l)) | (Some c, w') \<Rightarrow> (Some c, (w', l @ [OpDialed c]))),
     nt_write = (\<lambda>c b (w, l). case nt_write n c b w of (ok, w') \<Rightarrow> (ok, (w', l @ [OpWritten c b]))),
     nt_close = (\<lambda>c (w, l). (nt_close n c w, l @ [OpClosed c])),
     nt_loadCfgID = map_option (\<lambda>f (w, l). f w) (nt_loadCfgID n),
     nt_saveCfgID = map_option (\<lambda>f i (w, l). (f i w, l)) (nt_saveCfgID n)\<rparr>"

lemma client_post_answer:
  "fst (tr (client_request c POST path payload) w) = fst (tr' (client_request c POST path payload) w') \<Longrightarrow>
   fst (client_post tr c path payload w) = fst (client_post tr' c path payload w')"
  by (auto simp: client_post_def split: prod.split option.split)

lemma created_by:
  assumes "names_created n" "\<And>q w. fst (nt_transport net q w) = fst (nt_transport n q (g w))" shows "names_created net"
  unfolding names_created_def
proof (intro allI impI)
  fix pro nm ms w i w'
  assume c: "CreateEntertainmentConfig (nt_transport net) pro nm ms w = (Inr i, w')"
  let ?p = "''/clip/v2/resource/entertainment_configuration''" and ?b = "config_payload nm ms"
  have "fst (client_post (nt_transport net) pro ?p ?b w) = fst (client_post (nt_transport n) pro ?p ?b (g w))"
    by (rule client_post_answer [of "nt_transport net" pro ?p ?b w "nt_transport n" "g w"]) (rule assms(2))
  with c have "fst (CreateEntertainmentConfig (nt_transport n) pro nm ms (g w)) = Inr i"
    unfolding CreateEntertainmentConfig_def by simp
  then show "i \<noteq> []" using assms(1) unfolding names_created_def by (metis prod.collapse)
qed

lemma recording_created: "names_created n \<Longrightarrow> names_created (recording n)"
  by (erule created_by [where g = fst]) (simp add: recording_def split: prod.split)

interpretation recorded: pro_log "recording n" snd for n :: "'s net"
  by unfold_locales (auto simp: recording_def split: prod.splits option.splits)

text \<open>A Pro that answers (\<open>demo_bridge\<close>), its pairing, and a streamer that was just started.\<close>

definition demo_pro :: "unit net" where
  "demo_pro = \<lparr>nt_transport = demo_bridge, nt_dial = (\<lambda>h po i k w. (Some 7, w)), nt_write = (\<lambda>c b w. (True, w)),
     nt_close = (\<lambda>c w. w), nt_loadCfgID = None, nt_saveCfgID = None\<rparr>"

lemma demo_pro_created: "names_created demo_pro"
proof -
  have "fst (client_post demo_bridge pro ''/clip/v2/resource/entertainment_configuration'' b w) = Inr ''cfg-9''"
    for pro :: Client and b and w :: unit by code_simp
  then show ?thesis by (auto simp: names_created_def CreateEntertainmentConfig_def demo_pro_def) (metis fst_conv sum.inject(2) list.distinct(1))
qed

definition demo_target2 :: ProTarget where
  "demo_target2 = \<lparr>pt_client = \<lparr>cl_host = ''10.0.0.5'', cl_appKey = ''k''\<rparr>, pt_host = ''10.0.0.5'', pt_appKey = ''k'', pt_clientKey = [171]\<rparr>"

definition demo_started :: "real \<Rightarrow> int \<Rightarrow> u16 \<Rightarrow> ProStreamer" where
  "demo_started x n th = demo_idle\<lparr>ps_smoothAlpha := x, ps_medianWindow := n, ps_medianThreshold := th,
     ps_running := True, st_requested := None\<rparr>"

end
