(* ===== verification/SessionProps.thy ===== *)
theory SessionProps
  imports WiringProps ProSession
begin

text \<open>
  The streamer inside the whole program: every event of \<open>Wiring\<close> acts on it by steps of its own
  system (\<open>Streamer\<close>), so what holds of those steps holds of the program.  With a recorded network
  this gives the protocol of \<open>ProSession\<close> for every run of the program.
\<close>

section \<open>The streamer's steps in the program\<close>

text \<open>The part of the program's state the streamer and its network own, after some of its steps.\<close>

definition streamer_runs :: "'p app \<Rightarrow> 'p app \<Rightarrow> bool" where
  "streamer_runs a a' \<longleftrightarrow> aw_net a' = aw_net a \<and> (\<exists>wr es y. run str_step (str_of wr a) es y
     \<and> sr_s y = aw_str a' \<and> sr_phase y = aw_phase a' \<and> fst (sr_w y) = aw_p a' \<and> sr_net y = wired_net (aw_net a))"

lemma streamer_rests:
  "aw_net a' = aw_net a \<Longrightarrow> aw_str a' = aw_str a \<Longrightarrow> aw_phase a' = aw_phase a \<Longrightarrow> aw_p a' = aw_p a \<Longrightarrow> streamer_runs a a'"
  by (auto simp: streamer_runs_def str_of_def world_def intro!: exI [of _ "[]"])

lemma streamer_steps:
  assumes "str_step (str_of wr a) e y" "aw_net a' = aw_net a"
    and "sr_s y = aw_str a'" "sr_phase y = aw_phase a'" "fst (sr_w y) = aw_p a'"
  shows "streamer_runs a a'"
  using assms run_single [of str_step, OF assms(1)] str_step_net [OF assms(1)]
  by (auto simp: streamer_runs_def str_of_def)

lemma put_world_str [simp]:
  "aw_str (put_world w a) = aw_str a" "aw_phase (put_world w a) = aw_phase a" "aw_p (put_world w a) = fst w"
  "aw_net (put_world w a) = aw_net a"
  by (simp_all add: put_world_def split: prod.split)

lemma streamer_turn_runs: "streamer_turn wr a = Some a' \<Longrightarrow> streamer_runs a a'"
proof -
  assume t: "streamer_turn wr a = Some a'"
  then obtain b where b: "aw_phase a = Trying b" by (auto simp: streamer_turn_def split: run_phase.splits)
  obtain r b' s w where r: "run_turn_of (wired_net (aw_net a)) (pro_resolver (aw_cfg a)) b (aw_str a) (world wr a) = (r, b', s, w)"
    using prod_cases4 by blast
  show ?thesis
  proof (cases r)
    case (Backoff e d)
    have "str_step (str_of wr a) (EvTurn (pro_resolver (aw_cfg a))) ((str_of wr a)\<lparr>sr_s := s, sr_w := w, sr_phase := Trying b'\<rparr>)"
      by (rule str_step.str_Backoff [where b = b and e = e and d = d]) (use r b Backoff in \<open>simp_all add: str_of_def\<close>)
    then show ?thesis by (rule streamer_steps) (use t b r Backoff in \<open>auto simp: streamer_turn_def\<close>)
  next
    case EnterSendLoop
    have "str_step (str_of wr a) (EvTurn (pro_resolver (aw_cfg a))) ((str_of wr a)\<lparr>sr_s := s, sr_w := w, sr_phase := InLoop send_start\<rparr>)"
      by (rule str_step.str_Enter [where b = b and b' = b']) (use r b EnterSendLoop in \<open>simp_all add: str_of_def\<close>)
    then show ?thesis by (rule streamer_steps) (use t b r EnterSendLoop in \<open>auto simp: streamer_turn_def\<close>)
  qed
qed

lemma streamer_tick_runs: "streamer_tick wr a = Some a' \<Longrightarrow> streamer_runs a a'"
proof -
  assume t: "streamer_tick wr a = Some a'"
  then obtain l where l: "aw_phase a = InLoop l" by (auto simp: streamer_tick_def split: run_phase.splits)
  obtain l' s w where r: "send_tick (wired_net (aw_net a)) l (aw_str a) (world wr a) = (l', s, w)" using prod_cases3 by blast
  have "str_step (str_of wr a) EvTick ((str_of wr a)\<lparr>sr_s := s, sr_w := w,
      sr_phase := (case l' of None \<Rightarrow> Trying initialBackoff | Some l'' \<Rightarrow> InLoop l'')\<rparr>)"
    by (rule str_step.str_Tick [where l = l]) (simp_all add: l r str_of_def)
  then show ?thesis by (rule streamer_steps) (use t l r in \<open>auto simp: streamer_tick_def\<close>)
qed

lemma streamer_rollup_runs: "streamer_rollup a = Some a' \<Longrightarrow> streamer_runs a a'"
proof -
  assume t: "streamer_rollup a = Some a'"
  then obtain l where l: "aw_phase a = InLoop l" by (auto simp: streamer_rollup_def split: run_phase.splits)
  obtain st l' s where r: "send_rollup l (aw_str a) = (st, l', s)" using prod_cases3 by blast
  have "str_step (str_of sure_write a) EvSendRollup ((str_of sure_write a)\<lparr>sr_s := s, sr_phase := InLoop l'\<rparr>)"
    by (rule str_step.str_Rollup [where l = l and stats = st]) (simp_all add: l r str_of_def)
  then show ?thesis
    by (rule streamer_steps) (use t l r in \<open>auto simp: streamer_rollup_def str_of_def world_def split: prod.splits\<close>)
qed

lemma start_stream_runs: "streamer_runs a ((start_stream a)\<lparr>aw_hook := h\<rparr>)"
proof -
  obtain b s where st: "Start (pro_resolver (aw_cfg a)) (aw_str a) = (b, s)" by fastforce
  have "str_step (str_of sure_write a) (EvStart (pro_resolver (aw_cfg a)))
      ((str_of sure_write a)\<lparr>sr_s := s, sr_phase := (if b then Trying initialBackoff else sr_phase (str_of sure_write a))\<rparr>)"
    by (rule str_step.str_Start) (simp add: st str_of_def)
  then show ?thesis by (rule streamer_steps) (simp_all add: start_stream_def st str_of_def world_def)
qed

lemma stop_stream_runs: "streamer_runs a (stop_stream wr a)" "streamer_runs a ((stop_stream wr a)\<lparr>aw_hook := h\<rparr>)"
proof -
  obtain s w where st: "Stop (wired_net (aw_net a)) (aw_str a) (world wr a) = (s, w)"
    by (cases "Stop (wired_net (aw_net a)) (aw_str a) (world wr a)")
  have step: "str_step (str_of wr a) EvStop ((str_of wr a)\<lparr>sr_s := s, sr_w := w, sr_phase := NoRun\<rparr>)"
    by (rule str_step.str_Stop) (simp add: st str_of_def)
  show "streamer_runs a (stop_stream wr a)" by (rule streamer_steps [OF step]) (simp_all add: stop_stream_def st)
  show "streamer_runs a ((stop_stream wr a)\<lparr>aw_hook := h\<rparr>)" by (rule streamer_steps [OF step]) (simp_all add: stop_stream_def st)
qed

lemma receive_frame_runs: "streamer_runs a (receive_frame f a)"
proof -
  have "str_step (str_of sure_write a) (EvPush f) ((str_of sure_write a)\<lparr>sr_s := snd (Push f (aw_str a))\<rparr>)"
    using str_step.str_Push [of "str_of sure_write a" f] by (simp add: str_of_def)
  then show ?thesis
    by (rule streamer_steps) (auto simp: receive_frame_def str_of_def world_def split: prod.split push_out.split)
qed

text \<open>A request reaches the streamer with the zones it declares, one after the other.\<close>

lemma requested_run:
  "run str_step y (map EvRequest idss) (y\<lparr>sr_s := foldl (\<lambda>s ids. SetRequestedMembers ids s) (sr_s y) idss\<rparr>)"
proof (induction idss rule: rev_induct)
  case (snoc ids idss)
  from run_snoc [OF snoc str_step.str_Request [of _ ids]] show ?case by simp
qed simp

lemma run_setup_str [simp]:
  "aw_str (run_setup wr ev a) = aw_str a" "aw_phase (run_setup wr ev a) = aw_phase a"
  "aw_p (run_setup wr ev a) = aw_p a" "aw_net (run_setup wr ev a) = aw_net a"
  by (auto simp: run_setup_def Let_def split: prod.split)

lemma tv_request_runs: "streamer_runs a (tv_request_step rq e a)"
proof -
  define new where "new = drop (length (cv_pushed (aw_clip a))) (cv_pushed (snd (serve rq e (aw_clip a))))"
  define idss where "idss = (if sv_entertainmentMode (aw_sc a) then new else [])"
  have s: "aw_str (tv_request_step rq e a) = foldl (\<lambda>s ids. SetRequestedMembers ids s) (aw_str a) idss"
    "aw_phase (tv_request_step rq e a) = aw_phase a" "aw_p (tv_request_step rq e a) = aw_p a"
    "aw_net (tv_request_step rq e a) = aw_net a"
    by (simp_all add: tv_request_step_def Let_def idss_def new_def)
  show ?thesis using requested_run [of "str_of sure_write a" idss] s
    by (force simp: streamer_runs_def str_of_def world_def)
qed

lemma session_step_rests: "session_step ev a = Some a' \<Longrightarrow> streamer_runs a a'"
  by (rule streamer_rests) (auto simp: session_step_def Let_def split: option.splits ses_event.splits if_splits)

text \<open>Every event of the program is a run of the streamer's own system, an empty one for most.\<close>

lemma app_step_runs: assumes "app_step a e a'" shows "streamer_runs a a'"
proof -
  have st: "app_next a e = Some a'" using assms by (simp add: app_step_def)
  show ?thesis
  proof (cases e)
    case (ASession ev)
    then show ?thesis using st session_step_rests by (simp split: if_splits)
  next
    case (ARequest rq x)
    then show ?thesis using st tv_request_runs by (auto split: if_splits)
  next
    case (AHook wr)
    then show ?thesis using st start_stream_runs stop_stream_runs by (auto split: hook.splits)
  next
    case (AFrame f)
    then show ?thesis using st receive_frame_runs by (auto split: if_splits)
  next
    case (ATurn wr)
    then show ?thesis using st streamer_turn_runs by simp
  next
    case (ASendTick wr)
    then show ?thesis using st streamer_tick_runs by simp
  next
    case ASendRollup
    then show ?thesis using st streamer_rollup_runs by simp
  next
    case (AShutdown wr)
    then show ?thesis using st stop_stream_runs streamer_rests [of a a] by auto
  qed (rule streamer_rests; use st in \<open>auto simp: idle_round_def activity_rollup_def Let_def
      split: option.splits if_splits prod.splits\<close>)+
qed

section \<open>The protocol in every run of the program\<close>

lemma wired_created: "names_created n \<Longrightarrow> names_created (wired_net (recording n))"
  by (erule created_by [where g = "\<lambda>w. fst (fst w)"]) (simp add: wired_net_def on_pro_def recording_def split: prod.split)

interpretation wired_log: pro_log "wired_net (recording n)" "\<lambda>w. snd (fst w)" for n :: "'s net"
  by unfold_locales (auto simp: wired_net_def on_pro_def recording_def main_save_def split: prod.splits option.splits)

lemma streamer_runs_session:
  assumes "streamer_runs a a'" "aw_net a = recording n" "names_created n" "app_inv a"
    and "run pro_step Resting (snd (aw_p a)) (held (aw_str a))"
  shows "run pro_step Resting (snd (aw_p a')) (held (aw_str a'))"
proof -
  obtain wr es y where y: "run str_step (str_of wr a) es y" "sr_s y = aw_str a'" "fst (sr_w y) = aw_p a'"
    using assms(1) by (auto simp: streamer_runs_def)
  have "str_inv (str_of wr a)" using assms(4) by (simp add: str_inv_ok str_of_def app_inv_def stream_ok_def)
  from wired_log.str_run_session [OF y(1) _ this _ wired_created [OF assms(3)]] assms(2,5) y(2,3) show ?thesis
    by (simp add: str_of_def world_def wired_log.session_def)
qed

text \<open>
  C3: relume-tv keeps the Pro's streaming protocol.  Record every operation on the network of the
  streamer, with an arbitrary network behind the record.  In every run of the program, with every
  failure of the Pro, the record is a run of the abstract protocol that ends in what the streamer
  holds: an area is started only when none is; the connection is opened on the started area, closed
  before it is stopped, and the stop goes to the bridge the start went to; frames go to the open
  connection and name its area; a failed handshake or write leaves nothing behind.  A streamer that does
  not run holds neither an area nor a connection, and the path is reported as DTLS exactly while it
  holds both.
\<close>

theorem streamer_keeps_protocol:
  assumes "app_init a0" "aw_net a0 = recording n" "snd (aw_p a0) = []" "names_created n" "run app_step a0 es a"
  shows "run pro_step Resting (snd (aw_p a)) (held (aw_str a))
    \<and> (\<not> ps_running (aw_str a) \<longrightarrow> held (aw_str a) = Resting)
    \<and> (Path (aw_str a) = ''dtls'' \<longleftrightarrow> held (aw_str a) \<noteq> Resting)"
proof -
  have "aw_net a = recording n \<and> run pro_step Resting (snd (aw_p a)) (held (aw_str a))"
    using assms(5,1,2,3)
  proof (induction rule: run.induct)
    case (run_Nil a)
    then show ?case by (auto simp: app_init_def wire_def SetMedianFilter_def SetSmoothTau_def NewProStreamer_def)
  next
    case (run_snoc a0 es b e c)
    have r: "streamer_runs b c" using run_snoc.hyps(2) by (rule app_step_runs)
    then have "aw_net c = aw_net b" by (simp add: streamer_runs_def)
    with run_snoc streamer_runs_session [OF r _ assms(4)] app.reachable_inv show ?case by metis
  qed
  moreover have "stream_ok a" using app.reachable_inv [OF assms(1,5)] by (simp add: app_inv_def)
  ultimately show ?thesis by (auto simp: stream_ok_def str_ok_def conn_ok_def held_def Path_def split: option.splits)
qed

text \<open>The Pro \<open>demo_pro\<close>, recorded; the TV connects and the streamer's first turn succeeds.\<close>

definition demo_keyed :: Config where
  "demo_keyed = demo_config\<lparr>cf_Pro := Some (zero_BridgePro\<lparr>bp_Host := ''10.0.0.5'', bp_AppKey := ''k'', bp_ClientKey := ''AB''\<rparr>)\<rparr>"

definition demo_booted :: Config where
  "demo_booted = demo_keyed\<lparr>cf_persist := True, cf_firstRun := False\<rparr>"

definition demo_watched :: "(unit \<times> pro_op list) app" where
  "demo_watched = wire (defaultOptions []) demo_sc demo_booted (File (Some (enc_config demo_keyed))) ''10.0.0.2'' 0
     (recording demo_pro) ((), [])"

lemma demo_watched_init: "app_init demo_watched"
proof -
  have "config_ok demo_keyed" by (simp add: demo_keyed_def config_ok_def demo_config_def gomap_ok_def int_in_range_def CurrentSchemaVersion_def)
  then have "Load ''/data/config.json'' (File (Some (enc_config demo_keyed))) None None = Inr demo_booted"
    using Load_enc [of demo_keyed "''/data/config.json''" None None] by (simp add: demo_booted_def demo_keyed_def demo_config_def)
  then show ?thesis unfolding app_init_def demo_watched_def using defaultOptions_accepted [of "[]", folded demo_sc_def] by blast
qed

lemma demo_resolved: "pro_resolver demo_booted = Some demo_target2"
  by code_simp

lemma demo_establish:
  "(case establish (wired_net (recording demo_pro)) (Some demo_target2) (demo_started x n th)
       (((), []), demo_booted, f, sure_write) of
      (r, s, w) \<Rightarrow> (r, st_conn s, map_option cl_host (st_pro s), st_configID s)) = (None, Some 7, Some ''10.0.0.5'', ''cfg-9'')"
  by code_simp

lemma demo_watched_fields:
  "aw_cfg demo_watched = demo_booted" "aw_hook demo_watched = NoHook" "aw_ses demo_watched = ses_start"
  "aw_sc demo_watched = demo_sc" "aw_phase demo_watched = NoRun" "aw_net demo_watched = recording demo_pro" "aw_p demo_watched = ((), [])"
  "aw_str demo_watched = (demo_started (alphaForTau DefaultSmoothTau) 1 8000)\<lparr>ps_running := False\<rparr>"
  by (simp_all add: demo_watched_def wire_def serve_clip_fields demo_started_def Streamer.demo_idle_def NewProStreamer_def SetMedianFilter_def SetSmoothTau_def
      SetMedianFilter_window_def defaultOptions_def medianThreshold16_def DefaultMedianThreshold_def)

definition demo_hooked :: "(unit \<times> pro_op list) app" where
  "demo_hooked = the (exec app_next demo_watched [ASession (Register 0), ASession (Proceed 0), ASession (StreamStart 0), AHook sure_write])"

lemma demo_hooked_run:
  "exec app_next demo_watched [ASession (Register 0), ASession (Proceed 0), ASession (StreamStart 0), AHook sure_write] = Some demo_hooked"
  "aw_str demo_hooked = demo_started (alphaForTau DefaultSmoothTau) 1 8000" "aw_phase demo_hooked = Trying initialBackoff"
  "aw_cfg demo_hooked = demo_booted" "aw_net demo_hooked = recording demo_pro" "aw_p demo_hooked = ((), [])"
proof -
  have "demo_started x n th = (demo_started x n th)\<lparr>ps_running := True\<rparr>" for x n th by (simp add: demo_started_def)
  then show "exec app_next demo_watched [ASession (Register 0), ASession (Proceed 0), ASession (StreamStart 0), AHook sure_write] = Some demo_hooked"
  "aw_str demo_hooked = demo_started (alphaForTau DefaultSmoothTau) 1 8000" "aw_phase demo_hooked = Trying initialBackoff"
  "aw_cfg demo_hooked = demo_booted" "aw_net demo_hooked = recording demo_pro" "aw_p demo_hooked = ((), [])"
    by (simp_all add: demo_hooked_def demo_watched_fields demo_sc_def session_step_def ses_start_def start_stream_def Start_def
        MarkDTLSStreamUp_def demo_resolved Let_def)
qed

text \<open>After the first turn the streamer holds the area \<open>cfg-9\<close> and a connection to the bridge at \<open>10.0.0.5\<close>.\<close>

lemma streamer_keeps_protocol_witness:
  "\<exists>es a. run app_step demo_watched es a \<and> ps_running (aw_str a) \<and> held (aw_str a) = Live 7 ''10.0.0.5'' ''cfg-9''
     \<and> run pro_step Resting (snd (aw_p a)) (Live 7 ''10.0.0.5'' ''cfg-9'')"
proof -
  let ?es = "[ASession (Register 0), ASession (Proceed 0), ASession (StreamStart 0), AHook sure_write]"
  have r1: "run app_step demo_watched ?es demo_hooked"
    by (rule exec_run [OF demo_hooked_run(1)]) (simp add: app_step_def)
  let ?n = "wired_net (recording demo_pro)" and ?w = "(((), []), demo_booted, cv_file (aw_clip demo_hooked), sure_write)"
  obtain r s w where e: "establish ?n (Some demo_target2) (aw_str demo_hooked) ?w = (r, s, w)" using prod_cases3 by blast
  then have s: "r = None" "st_conn s = Some 7" "map_option cl_host (st_pro s) = Some ''10.0.0.5''" "st_configID s = ''cfg-9''"
    using demo_establish [of "alphaForTau DefaultSmoothTau" 1 8000 "cv_file (aw_clip demo_hooked)"]
    by (simp_all add: demo_hooked_run(2))
  define a where "a = put_world w (demo_hooked\<lparr>aw_str := s, aw_phase := InLoop send_start\<rparr>)"
  have "app_step demo_hooked (ATurn sure_write) a"
    using e s(1) by (simp add: app_step_def streamer_turn_def run_turn_of_def demo_hooked_run(3-6) demo_resolved world_def a_def)
  then have r2: "run app_step demo_watched (?es @ [ATurn sure_write]) a" by (rule run_snoc [OF r1])
  have h: "held (aw_str a) = Live 7 ''10.0.0.5'' ''cfg-9''" using s by (auto simp: held_def a_def)
  have "app_init demo_watched" "aw_net demo_watched = recording demo_pro" "snd (aw_p demo_watched) = []"
    by (simp_all add: demo_watched_init demo_watched_fields)
  from streamer_keeps_protocol [OF this demo_pro_created r2] h have p: "run pro_step Resting (snd (aw_p a)) (Live 7 ''10.0.0.5'' ''cfg-9'')"
    "ps_running (aw_str a)" by auto
  show ?thesis using r2 h p by blast
qed

end
