(* ===== verification/Relay.thy ===== *)
theory Relay
  imports ProSession
begin

text \<open>
  The way of a colour from the TV's frame to the wire towards the Pro, through \<open>Push\<close>, the easing of
  \<open>buildFrame\<close> and \<open>Encode\<close>: what the TV sent for a light arrives under the light's Pro channel, at once
  without easing, after a bounded number of ticks with it.
\<close>

section \<open>How fast the easing arrives\<close>

text \<open>
  \<open>b k\<close> bounds the distance to a resting target after \<open>k\<close> ticks with weight \<open>a\<close>, whatever it was before.
\<close>

definition eases :: "real \<Rightarrow> (nat \<Rightarrow> int) \<Rightarrow> bool" where
  "eases a b \<longleftrightarrow> b 0 = 65535 \<and> (\<forall>k cur tgt. gap cur tgt \<le> b k \<longrightarrow> gap (smoothComponent cur tgt a) tgt \<le> b (Suc k))"

text \<open>Up to the default time constant a tick takes a third of the way, beyond it at least one unit.\<close>

definition fast_step :: "int \<Rightarrow> int" where
  "fast_step g = (if g \<le> snapColorDelta then 0 else 2 * g div 3 + 1)"

definition fast_bound :: "nat \<Rightarrow> int" where
  "fast_bound k = (fast_step ^^ k) 65535"

definition slow_bound :: "nat \<Rightarrow> int" where
  "slow_bound k = max 0 (65535 - int k)"

definition settle_ticks :: "duration \<Rightarrow> nat" where
  "settle_ticks tau = (if tau \<le> 0 then 0 else if tau \<le> DefaultSmoothTau then 16 else 65535)"

lemma fast_bound_16: "16 \<le> k \<Longrightarrow> fast_bound k = 0"
proof (induction k rule: dec_induct)
  case base
  show ?case
    by (simp add: fast_bound_def fast_step_def snapColorDelta_def eval_nat_numeral funpow_Suc_right del: funpow.simps)
qed (simp add: fast_bound_def fast_step_def snapColorDelta_def)

lemma fast_step_nonneg: "0 \<le> fast_step g"
  by (simp add: fast_step_def snapColorDelta_def)

lemma gap_bound: "gap cur tgt \<le> 65535"
  using uint_u16_bounds [of cur] uint_u16_bounds [of tgt] unfolding gap_def by linarith

lemma eases_full: "eases 1 (\<lambda>k. if k = 0 then 65535 else 0)"
  by (auto simp: eases_def smoothComponent_full)

lemma eases_slow: assumes "tau \<le> 10000 * millisecond" shows "eases (alphaForTau tau) slow_bound"
  unfolding eases_def
proof (intro conjI allI impI)
  fix k cur tgt assume g: "gap cur tgt \<le> slow_bound k"
  show "gap (smoothComponent cur tgt (alphaForTau tau)) tgt \<le> slow_bound (Suc k)"
  proof (cases "cur = tgt")
    case True
    then show ?thesis by (simp add: smoothComponent_snap snapColorDelta_def slow_bound_def)
  next
    case False
    with smoothComponent_progress [OF alphaForTau_lower [OF assms] alphaForTau_bounds(2) False] g show ?thesis
      by (auto simp: slow_bound_def)
  qed
qed (simp add: slow_bound_def)

lemma alphaForTau_third: assumes "tau \<le> DefaultSmoothTau" shows "1 / 3 \<le> alphaForTau tau"
proof (cases "tau \<le> 0")
  case False
  let ?x = "real_of_int sendInterval / real_of_int tau"
  have third: "1 / 3 \<le> x / (1 + x)" if "1 / 2 \<le> x" for x :: real using that by (simp add: field_simps)
  have "real_of_int tau \<le> 40000000" "0 < real_of_int tau"
    using assms False by (simp_all add: DefaultSmoothTau_def millisecond_def)
  then have x: "1 / 2 \<le> ?x" by (simp add: sendInterval_def millisecond_def field_simps)
  then have "1 / 3 \<le> ?x / (1 + ?x)" by (rule third)
  also have "\<dots> \<le> alphaForTau tau"
    using one_minus_exp_bounds(1) [OF less_le_trans [OF _ x]] False by (simp add: alphaForTau_def)
  finally show ?thesis .
qed (simp add: alphaForTau_def)

lemma eases_fast: assumes "tau \<le> DefaultSmoothTau" shows "eases (alphaForTau tau) fast_bound"
  unfolding eases_def
proof (intro conjI allI impI)
  fix k cur tgt assume g: "gap cur tgt \<le> fast_bound k"
  show "gap (smoothComponent cur tgt (alphaForTau tau)) tgt \<le> fast_bound (Suc k)"
  proof (cases "gap cur tgt \<le> snapColorDelta")
    case True
    then show ?thesis using fast_step_nonneg by (simp add: smoothComponent_snap fast_bound_def)
  next
    case False
    let ?g = "real_of_int (gap cur tgt)" and ?g' = "gap (smoothComponent cur tgt (alphaForTau tau)) tgt"
    have "real_of_int ?g' \<le> (1 - alphaForTau tau) * ?g + 1 / 2" by (rule smoothComponent_contracts)
    moreover have "(1 - alphaForTau tau) * ?g \<le> 2 / 3 * ?g"
      by (rule mult_right_mono) (use alphaForTau_third [OF assms] in \<open>simp_all add: gap_def\<close>)
    ultimately have "real_of_int (6 * ?g') \<le> real_of_int (4 * gap cur tgt + 3)" by simp
    then have "6 * ?g' \<le> 4 * gap cur tgt + 3" by (simp only: of_int_le_iff)
    with False g show ?thesis by (auto simp: fast_bound_def fast_step_def)
  qed
qed (simp add: fast_bound_def)

lemma eases_settles:
  assumes "tau \<le> 10000 * millisecond"
  shows "\<exists>b. eases (alphaForTau tau) b \<and> (\<forall>k. settle_ticks tau \<le> k \<longrightarrow> b (Suc k) \<le> 0)"
proof -
  consider "tau \<le> 0" | "0 < tau" "tau \<le> DefaultSmoothTau" | "\<not> tau \<le> DefaultSmoothTau" "0 < tau"
    by linarith
  then show ?thesis
  proof cases
    case 1
    then have "alphaForTau tau = 1" by (simp add: alphaForTau_def)
    then show ?thesis using eases_full by (intro exI [of _ "\<lambda>k. if k = 0 then 65535 else 0"]) simp
  next
    case 2
    then show ?thesis using eases_fast [of tau] fast_bound_16 [of "Suc k" for k]
      by (intro exI [of _ fast_bound]) (auto simp: settle_ticks_def)
  next
    case 3
    then show ?thesis using eases_slow [OF assms] by (intro exI [of _ slow_bound]) (auto simp: settle_ticks_def slow_bound_def)
  qed
qed

section \<open>What the TV sent last for a Pro channel\<close>

definition recolour :: "u8 \<Rightarrow> Channel \<Rightarrow> Channel" where
  "recolour p ch = \<lparr>ch_ID = ucast p, ch_A = ch_A ch, ch_B = ch_B ch, ch_C = ch_C ch\<rparr>"

text \<open>The reference: the last channel of a light mapped to \<open>p\<close>, under the id \<open>p\<close>, its values as they came.\<close>

definition last_colour :: "(u16, u8) gomap \<Rightarrow> Channel list \<Rightarrow> u8 \<Rightarrow> Channel option" where
  "last_colour remap chs p = map_option (recolour p) (find (\<lambda>ch. mget remap (ch_ID ch) = Some p) (rev chs))"

lemma find_append: "find P (xs @ ys) = (case find P xs of None \<Rightarrow> find P ys | Some x \<Rightarrow> Some x)"
  by (induction xs) simp_all

lemma last_colour_append:
  "last_colour remap (xs @ ys) p = (case last_colour remap ys p of None \<Rightarrow> last_colour remap xs p | Some c \<Rightarrow> Some c)"
  by (simp add: last_colour_def find_append split: option.split)

lemma last_colour_single:
  "last_colour remap [ch] p = (if mget remap (ch_ID ch) = Some p then Some (recolour p ch) else None)"
  by (simp add: last_colour_def)

lemma last_colour_Nil [simp]: "last_colour remap [] p = None"
  by (simp add: last_colour_def)

lemma last_colour_ID: "last_colour remap chs p = Some c \<Longrightarrow> ch_ID c = ucast p"
  by (auto simp: last_colour_def recolour_def)

lemma push_latest:
  "ps_medianWindow s \<le> 1 \<Longrightarrow> mget (st_latest (push_channels chs s)) p
     = (case last_colour (st_remap s) chs p of None \<Rightarrow> mget (st_latest s) p | Some c \<Rightarrow> Some c)"
proof (induction chs arbitrary: s)
  case (Cons ch chs)
  note split = last_colour_append [of "st_remap s" "[ch]" chs p, simplified]
  show ?case
  proof (cases "mget (st_remap s) (ch_ID ch)")
    case None
    then show ?thesis using Cons split by (simp add: last_colour_single split: option.split)
  next
    case (Some q)
    then have "push_channels (ch # chs) s = push_channels chs (s\<lparr>st_latest := mput q (recolour q ch) (st_latest s)\<rparr>)"
      using Cons.prems by (simp add: medianFilterLocked_def recolour_def)
    then show ?thesis using Cons.IH [of "s\<lparr>st_latest := mput q (recolour q ch) (st_latest s)\<rparr>"] Cons.prems Some split
      by (simp add: last_colour_single split: option.split)
  qed
qed simp

section \<open>How near the streamed colours are\<close>

definition closeto :: "int \<Rightarrow> Channel \<Rightarrow> Channel \<Rightarrow> bool" where
  "closeto d c t \<longleftrightarrow> gap (ch_A c) (ch_A t) \<le> d \<and> gap (ch_B c) (ch_B t) \<le> d \<and> gap (ch_C c) (ch_C t) \<le> d"

text \<open>Every channel streamed before is within \<open>d\<close> of its target, in each component.\<close>

definition near :: "int \<Rightarrow> ProStreamer \<Rightarrow> bool" where
  "near d s \<longleftrightarrow> (\<forall>p t c. mget (st_latest s) p = Some t \<longrightarrow> mget (st_current s) p = Some c \<longrightarrow> closeto d c t)"

lemma near_any: "near 65535 s"
  by (simp add: near_def closeto_def gap_bound)

lemma closeto_0:
  assumes "closeto d c t" "d \<le> 0" "ch_ID c = ch_ID t" shows "c = t"
proof -
  have "x = y" if "gap x y \<le> d" for x y
  proof -
    have "gap x y = 0" using that assms(2) unfolding gap_def by linarith
    then show ?thesis by simp
  qed
  with assms show "c = t" by (cases c; cases t) (simp add: closeto_def)
qed

lemma eases_nonneg: "eases a b \<Longrightarrow> 0 \<le> b k"
proof (induction k)
  case (Suc k)
  then have "gap (smoothComponent 0 0 a) 0 \<le> b (Suc k)" by (simp add: eases_def)
  moreover have "0 \<le> gap (smoothComponent 0 0 a) 0" unfolding gap_def by simp
  ultimately show ?case by linarith
qed (simp add: eases_def)

lemma smoothToward_close: "eases a b \<Longrightarrow> closeto (b k) c t \<Longrightarrow> closeto (b (Suc k)) (smoothToward c t a) t"
  by (simp add: closeto_def smoothToward_def eases_def)

text \<open>What \<open>buildFrame\<close> streams for a channel, and stores as streamed.\<close>

definition eased :: "ProStreamer \<Rightarrow> u8 \<Rightarrow> Channel" where
  "eased s p = (let t = the (mget (st_latest s) p) in
     case mget (st_current s) p of None \<Rightarrow> t | Some c \<Rightarrow> smoothToward c t (alpha s))"

lemma eased_close:
  assumes "eases (alpha s) b" "near (b k) s" "mget (st_latest s) p = Some t"
  shows "closeto (b (Suc k)) (eased s p) t" "ch_ID (eased s p) = ch_ID t"
proof -
  show "closeto (b (Suc k)) (eased s p) t"
  proof (cases "mget (st_current s) p")
    case None
    then show ?thesis using assms eases_nonneg [of "alpha s" b "Suc k"] by (simp add: eased_def closeto_def)
  next
    case (Some c)
    then have "closeto (b k) c t" using assms(2,3) by (simp add: near_def)
    then show ?thesis using assms(1,3) Some by (simp add: eased_def smoothToward_close)
  qed
  show "ch_ID (eased s p) = ch_ID t" using assms(3) by (simp add: eased_def smoothToward_def split: option.split)
qed

lemma ease_channels_current:
  "distinct ids \<Longrightarrow> \<forall>i \<in> set ids. mget latest i \<noteq> None \<Longrightarrow> ease_channels a latest ids current = (chs, current') \<Longrightarrow>
   mget current' p = (if p \<in> set ids then Some (case mget current p of None \<Rightarrow> the (mget latest p)
     | Some c \<Rightarrow> smoothToward c (the (mget latest p)) a) else mget current p)"
proof (induction ids arbitrary: current chs current')
  case (Cons i ids)
  then obtain t where t: "mget latest i = Some t" by auto
  let ?n = "case mget current i of None \<Rightarrow> t | Some c \<Rightarrow> smoothToward c t a"
  obtain chs2 cur2 where e: "ease_channels a latest ids (mput i ?n current) = (chs2, cur2)" by fastforce
  then have "current' = cur2" using Cons.prems(3) t by (simp add: Let_def)
  with Cons.IH [OF _ _ e] Cons.prems(1,2) t show ?case by (auto cong: option.case_cong)
qed simp

lemma buildFrame_eased:
  assumes "gomap_ok (st_latest s)" "buildFrame s = (Some g, s')"
  shows "fr_Channels g = map (eased s) (sort (mkeys (st_latest s)))"
    and "mget (st_current s') p = (if mget (st_latest s) p = None then mget (st_current s) p else Some (eased s p))"
proof -
  show "fr_Channels g = map (eased s) (sort (mkeys (st_latest s)))"
    unfolding buildFrame_channels(1) [OF assms] by (simp add: eased_def Let_def)
  obtain chs cur where e: "ease_channels (alpha s) (st_latest s) (sort (mkeys (st_latest s))) (st_current s) = (chs, cur)"
    by fastforce
  have "st_current s' = cur" using assms(2) e by (auto simp: buildFrame_def Let_def split: if_splits)
  moreover have d: "distinct (sort (mkeys (st_latest s)))" using assms(1) by (simp add: gomap_ok_def)
  moreover have k: "i \<in> set (sort (mkeys (st_latest s))) \<longleftrightarrow> mget (st_latest s) i \<noteq> None" for i
    by (simp only: set_sort mkeys_iff)
  ultimately show "mget (st_current s') p = (if mget (st_latest s) p = None then mget (st_current s) p else Some (eased s p))"
    using ease_channels_current [OF d _ e, of p] k by (auto simp: eased_def Let_def cong: option.case_cong)
qed

section \<open>The history of a stream\<close>

text \<open>The frames the TV sent, and the ticks of the send loop since the last of them.\<close>

definition pushed :: "str_event list \<Rightarrow> Frame list" where
  "pushed es = concat (map (\<lambda>e. case e of EvPush f \<Rightarrow> [f] | _ \<Rightarrow> []) es)"

fun tick_count :: "nat \<Rightarrow> str_event \<Rightarrow> nat" where
  "tick_count n (EvPush f) = 0"
| "tick_count n EvTick = n + 1"
| "tick_count n _ = n"

definition ticks_since :: "str_event list \<Rightarrow> nat" where
  "ticks_since es = foldl tick_count 0 es"

lemma pushed_snoc: "pushed (es @ [e]) = pushed es @ (case e of EvPush f \<Rightarrow> [f] | _ \<Rightarrow> [])"
  by (simp add: pushed_def)

lemma ticks_since_snoc: "ticks_since (es @ [e]) = tick_count (ticks_since es) e"
  by (simp add: ticks_since_def)

text \<open>
  While the send loop runs, the targets are what the TV sent last since the stream was established,
  and the streamed colours are as near to them as the ticks since the last frame allow.
\<close>

definition relays :: "ProStreamer \<Rightarrow> (nat \<Rightarrow> int) \<Rightarrow> str_event list \<Rightarrow> ProStreamer \<Rightarrow> bool" where
  "relays s0 b es s \<longleftrightarrow> st_conn s = st_conn s0 \<and> st_path s = st_path s0 \<and> st_remap s = st_remap s0
     \<and> st_configID s = st_configID s0 \<and> ps_smoothAlpha s = ps_smoothAlpha s0 \<and> ps_medianWindow s = ps_medianWindow s0
     \<and> (\<forall>p. mget (st_latest s) p = last_colour (st_remap s0) (concat (map fr_Channels (pushed es))) p)
     \<and> (pushed es \<noteq> [] \<longrightarrow> st_colorSpace s = fr_ColorSpace (last (pushed es)))
     \<and> near (b (ticks_since es)) s"

definition relaying :: "ProStreamer \<Rightarrow> (nat \<Rightarrow> int) \<Rightarrow> str_event list \<Rightarrow> 's str_sys \<Rightarrow> bool" where
  "relaying s0 b es y \<longleftrightarrow> (\<forall>l. sr_phase y = InLoop l \<longrightarrow> relays s0 b es (sr_s y))"

lemma push_settings: "ps_medianWindow (push_channels chs s) = ps_medianWindow s"
proof (induction chs s rule: push_channels.induct)
  case (2 ch chs s)
  then show ?case by (auto simp: Let_def split: option.split prod.split dest: medianFilterLocked_keeps)
qed simp

lemma buildFrame_same: "buildFrame s = (g, s') \<Longrightarrow> \<exists>c q. s' = s\<lparr>st_current := c, st_seq := q\<rparr>"
proof -
  assume b: "buildFrame s = (g, s')"
  show ?thesis
  proof (cases "st_latest s = []")
    case True
    then show ?thesis using b by (intro exI [of _ "st_current s"] exI [of _ "st_seq s"]) (simp add: buildFrame_def)
  qed (use b in \<open>auto simp: buildFrame_def Let_def split: prod.splits\<close>)
qed

lemma relays_tick:
  assumes "relays s0 b es s" "eases (alpha s0) b" "gomap_ok (st_latest s)" "buildFrame s = (g, s')"
  shows "relays s0 b (es @ [EvTick]) s'"
proof -
  have a: "alpha s = alpha s0" using assms(1) by (simp add: relays_def alpha_def)
  have n: "near (b (ticks_since es)) s" using assms(1) by (simp add: relays_def)
  obtain c q where s': "s' = s\<lparr>st_current := c, st_seq := q\<rparr>" using buildFrame_same [OF assms(4)] by blast
  have "near (b (Suc (ticks_since es))) s'"
  proof (cases g)
    case None
    then have "st_latest s = []" using assms(4) by (auto simp: buildFrame_def Let_def split: if_splits prod.splits)
    then show ?thesis by (simp add: near_def s')
  next
    case (Some f)
    note cur = buildFrame_eased(2) [OF assms(3) assms(4) [unfolded Some]]
    show ?thesis unfolding near_def
      using cur eased_close(1) [OF assms(2) [folded a] n] by (auto simp: s')
  qed
  then show ?thesis using assms(1) by (simp add: relays_def s' pushed_snoc ticks_since_snoc)
qed

lemma relays_push:
  assumes "relays s0 b es s" "eases (alpha s0) b" "ps_medianWindow s0 \<le> 1" "st_path s0 = ''dtls''" "st_conn s0 \<noteq> None"
  shows "relays s0 b (es @ [EvPush f]) (snd (Push f s))"
proof -
  let ?s = "s\<lparr>st_colorSpace := fr_ColorSpace f\<rparr>"
  have r: "st_remap s = st_remap s0" "ps_medianWindow s \<le> 1" "st_path s = ''dtls''" "st_conn s \<noteq> None"
    using assms by (simp_all add: relays_def)
  have p: "snd (Push f s) = push_channels (fr_Channels f) ?s" using r by (simp add: Push_def)
  have k: "ps_medianWindow (push_channels chs t) = ps_medianWindow t" for chs t
    using push_settings by blast
  show ?thesis
    using assms(1,2) push_channels_keeps [of "fr_Channels f" ?s] push_latest [of ?s "fr_Channels f"] near_any r
    by (auto simp: relays_def p pushed_snoc ticks_since_snoc last_colour_append eases_def k split: option.split)
qed

lemma relays_same:
  "relays s0 b es s \<Longrightarrow> pushed (es @ [e]) = pushed es \<Longrightarrow> ticks_since (es @ [e]) = ticks_since es \<Longrightarrow> relays s0 b (es @ [e]) s"
  by (simp add: relays_def)

lemma relays_rollup: "relays s0 b es (s\<lparr>st_spikesSuppressed := n\<rparr>) = relays s0 b es s"
  by (simp add: relays_def near_def)

lemma relays_request: "relays s0 b es (SetRequestedMembers ids s) = relays s0 b es s"
  by (simp add: relays_def near_def SetRequestedMembers_def)

lemma relaying_step:
  assumes "str_step y e y'" "relaying s0 b es y" "str_inv y" "\<forall>t. e \<noteq> EvTurn t" "eases (alpha s0) b"
    and "ps_medianWindow s0 \<le> 1" "st_path s0 = ''dtls''" "st_conn s0 \<noteq> None"
  shows "relaying s0 b (es @ [e]) y'"
  using assms(1)
proof cases
  case (str_Start t launched s')
  then show ?thesis using assms(2,3)
    by (auto simp: relaying_def str_inv_def Start_def pushed_snoc ticks_since_snoc setPath_def intro: relays_same
        split: if_splits)
next
  case (str_Tick l l' s' w')
  have r: "relays s0 b es (sr_s y)" using assms(2) str_Tick(3) by (simp add: relaying_def)
  then obtain c where c: "st_conn (sr_s y) = Some c" using assms(8) by (auto simp: relays_def)
  obtain g s1 where g: "buildFrame (sr_s y) = (g, s1)" by fastforce
  have "relays s0 b (es @ [e]) s1" unfolding str_Tick(1)
    by (rule relays_tick [OF r assms(5) _ g]) (use assms(3) in \<open>simp add: str_inv_def conn_ok_def\<close>)
  moreover have "l' = None \<or> s' = s1"
    using str_Tick(4) c g by (auto simp: send_tick_def Let_def split: option.splits prod.splits bool.splits)
  ultimately show ?thesis by (auto simp: relaying_def str_Tick(2) split: option.splits)
next
  case (str_Rollup l stats l' s')
  then show ?thesis using assms(2)
    by (auto simp: relaying_def send_rollup_def relays_rollup pushed_snoc ticks_since_snoc intro: relays_same)
next
  case (str_Push f)
  then show ?thesis using assms(2) relays_push [OF _ assms(5-8)] by (simp add: relaying_def)
next
  case (str_Request ids)
  then show ?thesis using assms(2)
    by (auto simp: relaying_def relays_request pushed_snoc ticks_since_snoc intro: relays_same)
qed (use assms(4) in \<open>simp_all add: relaying_def\<close>)

lemma relaying_run:
  assumes "run str_step y2 es y" "str_inv y2" "\<forall>t. EvTurn t \<notin> set es" "sr_phase y2 = InLoop send_start"
    and "st_conn (sr_s y2) \<noteq> None" "st_latest (sr_s y2) = []" "eases (alpha (sr_s y2)) b" "ps_medianWindow (sr_s y2) \<le> 1"
  shows "str_inv y \<and> relaying (sr_s y2) b es y"
  using assms
proof (induction rule: run.induct)
  case (run_Nil y)
  then show ?case using near_any by (auto simp: relaying_def relays_def pushed_def ticks_since_def eases_def)
next
  case (run_snoc y2 es z e z')
  then have i: "str_inv z \<and> relaying (sr_s y2) b es z" by simp
  have p: "st_path (sr_s y2) = ''dtls''" using run_snoc.prems(1,4) by (simp add: str_inv_def conn_ok_def)
  have "str_inv z'" using str_inv_step run_snoc.hyps(2) i by blast
  moreover have "relaying (sr_s y2) b (es @ [e]) z'"
    by (rule relaying_step [OF run_snoc.hyps(2)]) (use i p run_snoc.prems in auto)
  ultimately show ?case by blast
qed

section \<open>From the TV's frames to the wire\<close>

text \<open>The settings of the constructor and the setters stay.\<close>

definition settings :: "ProStreamer \<Rightarrow> real \<times> int" where
  "settings s = (ps_smoothAlpha s, ps_medianWindow s)"

lemma same_but_cache_settings: "same_but_cache s s' \<Longrightarrow> settings s' = settings s"
proof -
  assume "same_but_cache s s'"
  then have "s'\<lparr>st_cachedConfigID := []\<rparr> = s\<lparr>st_cachedConfigID := []\<rparr>" by (simp add: same_but_cache_def)
  from arg_cong [OF this, of settings] show ?thesis by (simp add: settings_def)
qed

lemma establish_settings: "establish net t s w = (r, s', w') \<Longrightarrow> settings s' = settings s"
  using same_but_cache_settings [OF ensureConfig_same]
  by (fastforce simp: establish_def settings_def Let_def split: option.splits prod.splits sum.splits)

lemma str_step_settings: "str_step y e y' \<Longrightarrow> settings (sr_s y') = settings (sr_s y) \<and> sr_net y' = sr_net y"
proof (induction rule: str_step.induct)
  case (str_Backoff y b t e d b' s' w')
  then show ?case using establish_settings [of "sr_net y" t "sr_s y" "sr_w y"]
    by (auto simp: run_turn_of_def setPath_def settings_def split: prod.splits option.splits)
next
  case (str_Enter y b t b' s' w')
  then show ?case using establish_settings [of "sr_net y" t "sr_s y" "sr_w y"]
    by (auto simp: run_turn_of_def split: prod.splits option.splits)
next
  case (str_Tick y l l' s' w')
  obtain g s1 where g: "buildFrame (sr_s y) = (g, s1)" by fastforce
  then have "settings s1 = settings (sr_s y)" using buildFrame_same by (fastforce simp: settings_def)
  then show ?case using str_Tick(2) g
    by (auto simp: send_tick_def teardown_def Let_def settings_def split: option.splits prod.splits bool.splits)
next
  case (str_Push y f)
  then show ?case using push_channels_keeps [of "fr_Channels f" "(sr_s y)\<lparr>st_colorSpace := fr_ColorSpace f\<rparr>"]
    by (auto simp: Push_def settings_def push_settings)
qed (auto simp: settings_def Start_def setPath_def send_rollup_def SetRequestedMembers_def Stop_def teardown_def Let_def split: if_splits)

lemma str_run_settings: "run str_step y es y' \<Longrightarrow> settings (sr_s y') = settings (sr_s y) \<and> sr_net y' = sr_net y"
  by (induction rule: run.induct) (auto dest: str_step_settings)

text \<open>A record only grows.\<close>

interpretation grows: world_keeps "recording n" "\<lambda>w. \<exists>ops. snd w = l @ ops" for n :: "'s net" and l
  by unfold_locales (auto simp: recording_def split: prod.splits option.splits)

text \<open>A tick of a recorded streamer writes the frame it built, encoded.\<close>

lemma tick_writes:
  assumes "send_tick (recording n) l s w = (l', s', w')" "st_conn s = Some c" "buildFrame s = (Some f, s1)"
  shows "\<exists>ops. snd w' = snd w @ OpWritten c (Encode f) # ops"
proof -
  obtain ok w1 where w: "nt_write (recording n) c (Encode f) w = (ok, w1)"
    by (cases "nt_write (recording n) c (Encode f) w")
  then have l: "snd w1 = snd w @ [OpWritten c (Encode f)]" using recorded.log_write [of n c "Encode f" w] by simp
  show ?thesis
  proof (cases ok)
    case True
    then show ?thesis using assms w l by (simp add: send_tick_def Let_def)
  next
    case False
    then obtain s2 where "teardown (recording n) s1 w1 = (s2, w')"
      using assms w by (auto simp: send_tick_def Let_def split: prod.splits)
    from grows.teardown_world [OF this, of "snd w1"] l show ?thesis by auto
  qed
qed

lemma Parse_v2:
  "fr_Major f = 2 \<Longrightarrow> \<forall>c \<in> set (fr_Channels f). fits_v2 c \<Longrightarrow>
   Parse (Encode f) = Inr (f\<lparr>fr_ConfigID := string_of (configIDBytes (fr_ConfigID f))\<rparr>)"
  by (simp add: Encode_eq Parse_header parseV2_records cong: filter_cong)

text \<open>The frame built when the colours have settled: the last colour of every mapped light, by channel id.\<close>

lemma settled_frame:
  assumes "relays s0 b es s" "eases (alpha s0) b" "b (Suc (ticks_since es)) \<le> 0" "gomap_ok (st_latest s)"
    and "last_colour (st_remap s0) (concat (map fr_Channels (pushed es))) q \<noteq> None"
  shows "\<exists>f s1. buildFrame s = (Some f, s1) \<and> fr_Major f = 2 \<and> fr_ConfigID f = st_configID s0
    \<and> fr_ColorSpace f = fr_ColorSpace (last (pushed es)) \<and> (\<forall>c \<in> set (fr_Channels f). fits_v2 c)
    \<and> set (fr_Channels f) = {c. \<exists>p. last_colour (st_remap s0) (concat (map fr_Channels (pushed es))) p = Some c}
    \<and> sorted_wrt (<) (map ch_ID (fr_Channels f))"
proof -
  let ?chs = "concat (map fr_Channels (pushed es))" and ?ids = "sort (mkeys (st_latest s))"
  have l: "mget (st_latest s) p = last_colour (st_remap s0) ?chs p" for p using assms(1) by (simp add: relays_def)
  have k: "p \<in> set ?ids \<longleftrightarrow> last_colour (st_remap s0) ?chs p \<noteq> None" for p by (simp only: set_sort mkeys_iff l)
  have "st_latest s \<noteq> []" using l [of q] assms(5) by auto
  then obtain f s1 where f: "buildFrame s = (Some f, s1)" using buildFrame_Some by blast
  note head = buildFrame_channels(2-4) [OF assms(4) f]
  have "alpha s = alpha s0" using assms(1) by (simp add: relays_def alpha_def)
  then have a: "eases (alpha s) b" "near (b (ticks_since es)) s" using assms(1,2) by (simp_all add: relays_def)
  have e: "eased s p = the (last_colour (st_remap s0) ?chs p) \<and> ch_ID (eased s p) = ucast p" if p: "p \<in> set ?ids" for p
  proof -
    obtain t where t: "mget (st_latest s) p = Some t" using p k l by auto
    have "eased s p = t" by (rule closeto_0 [OF eased_close(1) [OF a t] assms(3) eased_close(2) [OF a t]])
    then show ?thesis using t l last_colour_ID by fastforce
  qed
  have chs: "fr_Channels f = map (\<lambda>p. the (last_colour (st_remap s0) ?chs p)) ?ids"
    unfolding buildFrame_eased(1) [OF assms(4) f] by (rule map_cong [OF refl]) (use e in \<open>simp only:\<close>)
  have "set (fr_Channels f) = {c. \<exists>p. last_colour (st_remap s0) ?chs p = Some c}"
    unfolding chs set_map using k by (force simp: image_iff)
  moreover have ids: "map ch_ID (fr_Channels f) = map ucast ?ids"
    unfolding buildFrame_eased(1) [OF assms(4) f] map_map
    by (rule map_cong [OF refl]) (simp only: comp_apply e [THEN conjunct2])
  moreover have "sorted_wrt (<) ?ids" using assms(4) by (simp add: gomap_ok_def strict_sorted_iff)
  then have "sorted_wrt (<) (map (ucast :: u8 \<Rightarrow> u16) ?ids)"
    unfolding sorted_wrt_map by (rule sorted_wrt_mono_rel [rotated]) (simp add: word_less_nat_alt)
  moreover have "fits_v2 c" if "c \<in> set (fr_Channels f)" for c
  proof -
    have "ch_ID c \<in> set (map ch_ID (fr_Channels f))" using that by simp
    then obtain p :: u8 where "ch_ID c = ucast p" unfolding ids by auto
    then show ?thesis by (simp add: word_le_nat_alt)
  qed
  moreover have "pushed es \<noteq> []" using assms(5) by auto
  ultimately show ?thesis using f head assms(1) by (auto simp: relays_def)
qed


text \<open>A light of the zone, a frame for it and one for an unknown light, without easing.\<close>

lemma demo_opened:
  "(case establish (recording demo_pro) (Some demo_target2) (demo_started x n th) ((), []) of
      (r, s, w) \<Rightarrow> (r, st_conn s, st_remap s, st_path s, st_latest s)) = (None, Some 7, [(1, 5)], ''dtls'', [])"
  by code_simp

definition demo_one :: Frame where
  "demo_one = \<lparr>fr_Major = 1, fr_Minor = 0, fr_Sequence = 0, fr_ColorSpace = ColorSpaceRGB, fr_ConfigID = [],
     fr_Channels = [\<lparr>ch_ID = 1, ch_A = 100, ch_B = 200, ch_C = 65535\<rparr>, \<lparr>ch_ID = 4, ch_A = 1, ch_B = 2, ch_C = 3\<rparr>]\<rparr>"


end
