(* ===== verification/ClipErrors.thy ===== *)
theory ClipErrors
  imports ClipProps
begin

text \<open>
  The error answers of the CLIP v1 server (\<open>internal/clipv1/server.go\<close>): a request that is refused has
  no effect, and the one exception, a pairing whose save fails.
\<close>

section \<open>Refusals\<close>

text \<open>A CLIP error, a status from 400 on, or the redirect of an unclean path.\<close>

definition clip_error :: "gval \<Rightarrow> bool" where
  "clip_error v = (case v of GArr [GObj [(k, _)]] \<Rightarrow> k = ''error'' | _ \<Rightarrow> False)"

definition refused :: "response \<Rightarrow> bool" where
  "refused r = (case r of RespJSON v \<Rightarrow> clip_error v | RespStatus n \<Rightarrow> 400 \<le> n | RespRedirect _ \<Rightarrow> True | _ \<Rightarrow> False)"

lemma refused_simps [simp]:
  "refused (writeError t a d)" "\<not> refused (success o')" "\<not> refused (RespJSON (GObj o'))" "\<not> refused (RespXML x)"
  "\<not> refused RespPanic" "refused (RespRedirect p)" "refused (RespStatus n) \<longleftrightarrow> 400 \<le> n" "\<not> refused (json_or_panic c)"
  "refused (unauthorized rq)" "\<not> refused capabilities" "\<not> refused (credentials u)"
  by (simp_all add: refused_def clip_error_def writeError_def success_def unauthorized_def capabilities_def json_or_panic_def
      credentials_def split: option.split)

lemma light_success [simp]: "\<not> refused (lightStateSuccess i st)"
  by (cases st; cases "tl st") (auto simp: refused_def clip_error_def lightStateSuccess_def)

text \<open>A request that only reads: the request counters and the cached light list may change, nothing else.\<close>

definition only_read :: "clip_server \<Rightarrow> clip_server \<Rightarrow> bool" where
  "only_read s t \<longleftrightarrow> rel_option same_queue (cv_lights s) (cv_lights t)
     \<and> (\<exists>a p. t = s\<lparr>cv_activity := a, cv_lights := p\<rparr>)"

lemma only_read_refl [simp, intro]: "only_read s s"
  unfolding only_read_def by (rule conjI, simp add: option.rel_refl, rule exI [of _ "cv_activity s"], rule exI [of _ "cv_lights s"]) simp

lemma only_read_count: "only_read s (count_request rq s)"
proof -
  obtain a where "count_request rq s = s\<lparr>cv_activity := a\<rparr>" using count_request_eq by blast
  then show ?thesis unfolding only_read_def
    by (intro conjI exI [of _ a] exI [of _ "cv_lights s"]) (simp_all add: option.rel_refl)
qed

lemma only_read_trans: "only_read s t \<Longrightarrow> only_read t u \<Longrightarrow> only_read s u"
  unfolding only_read_def
  by (auto simp: option_rel_Some1 option_rel_Some2 rel_option_iff intro: same_queue_trans split: option.splits)

lemma read_light: "handleLight i e s = (resp, t) \<Longrightarrow> only_read s t"
proof (cases "cv_lights s")
  case (Some p)
  assume h: "handleLight i e s = (resp, t)"
  obtain r q where q: "provider_LightsV1 (en_pro e) (en_now e) p = (r, q)" by fastforce
  have "t = s\<lparr>cv_lights := Some q\<rparr>" using h Some q by (simp add: handleLight_def)
  then show ?thesis using provider_LightsV1_same [OF q] Some unfolding only_read_def
    by (intro conjI exI [of _ "cv_activity s"] exI [of _ "Some q"]) simp_all
qed (auto simp: handleLight_def)

lemma refused_handle:
  assumes "handle r rq body e s = (resp, t)" "refused resp" "r \<noteq> RPairing" shows "only_read s t"
proof (cases r)
  case (RLight u i)
  then show ?thesis using assms by (auto split: if_splits dest: read_light)
next
  case (RGroupUpdate u i)
  then show ?thesis using assms
    by (auto simp: handleGroupUpdate_def Let_def split: if_splits option.splits)
qed (use assms in \<open>auto simp: handleDescription_def handleLights_def handleDatastore_def handleSetLightState_def handleGroup_def
    handleCreateGroup_def handleGroupAction_def light_unavailable_def Let_def split: if_splits option.splits prod.splits\<close>)



end
