(* ===== verification/Spec2Isabelle.thy ===== *)
theory Spec2Isabelle
  imports Prelude GoStrings Systems Huestream Convert Smoothing JsonDecode Netutil ConfigStore
    HueClient Translate Receiver Streamer StreamState Provider Controlled Upnp ClipHttp Activity
    ClipServer ClipProps Setup Watcher Serve LiveStats Wiring WiringProps
    WebUi Ssdp Mdns UiServer Flags CmdLine LightTypes LightAnswers Dashboard Listen Discovery
    StreamerWorld ProSession SessionProps Relay ClipErrors
begin

text \<open>
  relume-tv stands between a TV with Ambilight+Hue and a Hue Bridge Pro.  To the TV it is an old Hue
  bridge: it is found by SSDP and mDNS, serves the CLIP v1 REST interface and receives the HueStream
  colour stream over DTLS.  To the Pro it is a client: it reads the lights by CLIP v2, writes single
  lights by REST and sends a HueStream of its own.  This library models the Go code under
  \<open>src/backend\<close> and proves what the parts promise each other.

  How the parts interact.  The TV pairs (\<open>clipv1\<close>, the user is stored by \<open>config\<close>), reads the lights
  (\<open>bridge.LightProvider\<close> over \<open>translate\<close> over \<open>bridgepro\<close>), creates its entertainment group (the zone) and
  activates it.  The activation arms a watchdog in the stream state and starts the \<open>Streamer\<close>; the TV
  opens DTLS, the \<open>Receiver\<close> parses the frames and hands them to \<open>Streamer.Push\<close>, which filters and sends
  them to the Pro at a steady rate.  If the stream does not come up in time the stream state latches
  the REST fallback: activations are refused, the TV writes single lights, and the provider coalesces
  and forwards those writes.  The idle monitor turns the driven lights off when the TV falls silent, the
  watcher follows the Pro to a new address, the wizard records how far the installation has come, and the
  web UI shows all of it.
\<close>

section \<open>Theories and the code they model\<close>

text \<open>
  Paths are below \<open>src/backend\<close>; every definition has the name of the Go function, method or type it
  models, unless that name is taken in HOL.

  \<^item> \<open>Prelude\<close>: Go's machine integers, durations (nanoseconds), times (\<open>None\<close> is the zero time), the value
    type behind \<open>any\<close>, Go maps as association lists without repeated keys (\<open>gomap_ok\<close>).  \<open>GoStrings\<close>:
    the \<open>strings\<close> and \<open>strconv\<close> functions the code calls, on byte strings.  \<open>JsonDecode\<close>: how a decoded JSON
    value fills a struct.
  \<^item> \<open>Systems\<close>: transition systems and the locales \<open>invariant_system\<close>, \<open>history_system\<close> (an invariant over the
    state and the events so far) and \<open>refinement\<close> (a simulation of an abstract system).  Other interfaces are
    \<open>config_store\<close> (what the streamer expects of its store), \<open>setup_keeps\<close> and \<open>world_keeps\<close> (what finding
    its configuration, and all of a stream, may do to the state around it), \<open>pro_log\<close> (a network whose
    operations are recorded) and \<open>fan_out\<close> (what the web UI expects of the library that fans frames out).  Each component
    with a mutex interprets one of them on its own steps.
  \<^item> \<open>Huestream\<close>: \<open>internal/huestream\<close>, both frame versions.  \<open>Convert\<close>, \<open>Smoothing\<close>, \<open>Streamer\<close>,
    \<open>Receiver\<close>: \<open>internal/entertainment\<close>.  The filters are functions; the \<open>Streamer\<close> has its
    configuration handling (\<open>ensureConfig\<close>, \<open>remapFromConfig\<close>), \<open>Push\<close>, the send tick and the run loop
    as events; the \<open>Receiver\<close> has the reader, the bounded queue, its accounting, and the protocol by which a
    new session replaces the old one.  \<open>Listen\<close>: \<open>Receiver.Run\<close> and the handshake in front of a session, over
    the running program, with the DTLS library as an argument.
    \<open>StreamerWorld\<close>: what the streamer's operations do to the network and the store; \<open>ProSession\<close> and
    \<open>SessionProps\<close>: the protocol towards the Pro as an abstract machine, and its refinement by the streamer
    alone and inside the program; \<open>Relay\<close>: the way of a colour from the TV's frame to the wire.
  \<^item> \<open>StreamState\<close> and \<open>Activity\<close>: \<open>internal/clipv1/state.go\<close>.  \<open>ClipHttp\<close>: requests, routes and response
    bodies, \<open>ClipServer\<close>: the server's state and every handler of \<open>internal/clipv1/server.go\<close> and
    \<open>uistatus.go\<close>, \<open>ClipProps\<close>: what the server as a whole guarantees, \<open>ClipErrors\<close>: that a refused
    request has no effect.
  \<^item> \<open>ConfigStore\<close>: \<open>internal/config\<close>; the file is \<open>FileAbsent\<close> or its content, the writer is atomic and
    may fail.  \<open>Netutil\<close>, \<open>Upnp\<close>, \<open>Ssdp\<close>, \<open>Mdns\<close>: \<open>internal/netutil\<close>, \<open>upnp\<close>, \<open>ssdp\<close>, \<open>mdns\<close> and \<open>diag\<close>;
    \<open>Discovery\<close>: the \<open>Run\<close> methods of the three discovery services.
  \<^item> \<open>HueClient\<close>: \<open>internal/bridgepro\<close>: resources, the error taxonomy, certificate pinning, pairing,
    discovery.  \<open>Translate\<close>: \<open>internal/translate\<close>.  \<open>Provider\<close> and \<open>Controlled\<close>: \<open>internal/bridge\<close>.
  \<^item> \<open>Wiring\<close> and \<open>WiringProps\<close>: \<open>runServe\<close> of \<open>cmd/relume-tv/main.go\<close>, the program as one transition
    system: the state of all components with the shared configuration, the hooks that join them, and an
    event for every call a request, a session, a timer, a worker or the shutdown makes.
  \<^item> \<open>Setup\<close>, \<open>Watcher\<close>, \<open>Serve\<close>, \<open>LiveStats\<close>: \<open>cmd/relume-tv\<close> (\<open>setup.go\<close>; \<open>pro.go\<close> and the background
    pairing of \<open>main.go\<close>; the rest of \<open>main.go\<close>; \<open>framestats.go\<close> and \<open>livecolors.go\<close>).  \<open>Flags\<close>: the
    \<open>flag\<close> package with the number and duration syntax it uses, \<open>CmdLine\<close>: the flags of \<open>main.go\<close>, \<open>main\<close> with its
    exit codes, and the start of \<open>runServe\<close> with its failures and workers.
  \<^item> \<open>WebUi\<close>: the snapshot, its source and the hub of \<open>internal/webui\<close> and \<open>uisource.go\<close>.  \<open>UiServer\<close>: \<open>server.go\<close>
    and the concurrent side of \<open>hub.go\<close>, the event streams of any number of browsers as a transition system.
    \<open>Dashboard\<close>: the source \<open>runServe\<close> builds, in every state of the wired program.
  \<^item> \<open>LightTypes\<close> and \<open>LightAnswers\<close>: the schema of the lights and groups the TV reads, as executable predicates,
    for the translation, the provider's cache and the answers of the wired program.
\<close>

section \<open>Conventions\<close>

text \<open>
  A method that holds its mutex throughout is one function on the state; a method that releases it in
  between is cut at the release where the interleaving matters, and the pieces are separate events of a step relation, so that every
  interleaving is a run.  The drain goroutine of the provider, the watchdog timer, the receiver's
  sessions and the stream's start and stop are modelled this way.  An HTTP handler and one attempt of the streamer to
  establish its stream are single events of the wired program, and there the drain of the provider appears by its
  effects: taking the queue and calling the provider's hooks.  Errors are values (a sum or an
  option), a Go panic is \<open>None\<close> where the code can reach one, and a loop that may not end
  (\<open>WaitForLinkButton\<close>, the two loops of the background pairing) is a partial function whose \<open>None\<close> is
  not returning.  Integers keep their width where the code computes with them (frames, channel ids,
  colours); durations and counters are unbounded, which the 64-bit values of the code reach after
  centuries only.  \<open>float64\<close> is an exact real: rounding errors of one unit in the last place are
  outside the model.

  Code outside the repository is an argument of the definitions that use it: the HTTP transport, TLS and
  the certificate hash, the mDNS browser, the DTLS library, the random source, the operating system's
  interfaces, the JSON text of a value, the clock.  What the code relies on of them is a hypothesis
  where it matters.

  Bounds used in statements: \<open>settle_ticks\<close> is the number of ticks after which the easing has arrived, 16
  for the default time constant and below (a tick covers at least a third of the distance and snaps within
  256), 65535 up to ten seconds (a tick covers at least one unit);
  \<open>phase_fuel\<close> and \<open>drain_fuel\<close> of the provider count the steps the drain
  goroutine may still take (the rest of its batch, one more batch and the final check), and are shown
  to be enough; \<open>config_crash_safe\<close> and the other system properties hold for runs of any length.
\<close>

section \<open>What the lemmas show\<close>

text \<open>
  \<^item> The wired program: both ways of driving the lights keep to the one zone the TV declared; the server, the
    receiver and the streamer agree on whether the TV streams; no file is written before the wizard is
    through; frames keep the idle monitor from firing; every light, group and data store it answers with has
    the schema of CLIP v1; the dashboard shows the stream, the fallback and the setup as they are.
  \<^item> Pairing and streaming: only a client that is paired gets a session, and its frames are the only ones handed
    on; the key shown to the TV at its pairing is the one the listener has for it from then on.
  \<^item> Stream state: a latched fallback goes back to an activation whose watchdog ran its full time with no
    stream-up and no disarm; a stream-up wins over every pending callback; fallback and recovery
    cannot alternate faster than the cooldown and the watchdog together.
  \<^item> Light writes: nothing outside the zone is written, nothing by a stranger; the provider delivers the
    latest state of every light or is closed; after the shutdown fence no write starts, also
    for a provider installed late.
  \<^item> Wizard: the machine with its signals refines the abstract wizard of six stages, each stage is left on
    its own evidence, the commit runs once.
  \<^item> Watcher and pairing: the watcher keeps to one bridge, moves only on a discovered and verified address, its
    loop ticks once per sleep and slows down for good at the commit, and the pin is enforced on every connection; pairing installs exactly what the bridge returned.
  \<^item> Idle monitor: every turn-off is preceded by a full idle period and covers only driven lights of the
    zone; with the derived window no driven light is missed; the turn-off of the
    shutdown stays within its budget and makes a prefix of the writes.
  \<^item> Configuration: a crash at any point leaves a file that loads to the committed state; commit and load are
    inverse.
  \<^item> Stream: frames round-trip; the filters stay between their inputs, reach the target and drop spikes; the
    receiver accounts for every datagram; its callbacks are serial; a frame passes through
    verbatim when the filters are off, and when the TV's picture rests the Pro is sent its colours bit by bit
    after a bounded number of ticks; the streamer holds at most one area and one connection of the Pro, opens and
    releases them in order, on one bridge, and leaves neither behind.
  \<^item> UI: the snapshot does not depend on any key; live colours equal the fold of the TV's writes; a browser's
    stream is the snapshot, the tail and the frames after it, never without the latest snapshot, and no browser
    holds up the shutdown.
  \<^item> Start: spelt-out options are read back as they are; a start that gets to its workers has every one the
    configuration asks for, and the program in the initial state of its transition system.
\<close>

section \<open>Not modelled\<close>

text \<open>
  The sockets themselves, the shutdown of the HTTP servers and signal handling; what is inside the libraries
  for DTLS, mDNS, fan-out, logging and HTTP, which are parameters or left out (the access log and the security headers
  among them); HTTP encoding; the browser's page under \<open>src/ui\<close> and the embedding of its files; the build files.  Log texts are modelled only where they are data (the mirrored log lines of the UI).
\<close>

end
